(* ===== verification/Prelude.thy ===== *)
theory Prelude
  imports Main "HOL-Library.AList" "HOL-Library.Multiset" "HOL-Library.Sublist"
    "HOL-Library.List_Lexorder" "HOL-Library.Char_ord" "HOL-Library.Product_Lexorder"
begin

text \<open>
  Shared vocabulary of the development: Python exceptions as values, the result type of
  code that may raise, the traversal of a list by such code, insertion-ordered
  dictionaries, and the list facts several components use.  A Python exception is a
  value of \<open>err\<close>; code that may raise returns \<open>err + 'a\<close>, and \<open>rbind\<close>
  sequences such code, so that the first exception ends the computation as it does in
  the source.
\<close>

section \<open>Exceptions as values\<close>

datatype err =
    IndexError
  | KeyError string
  | TypeError
  | ValueError string
  | AssertionError string
  | OSError string
  | OverflowError
  | ZeroDivisionError
  | StatisticsError
  | CalledProcessError string
  | TimeoutExpired string
  | JSONDecodeError string
  | SystemExit string

type_synonym 'a res = "err + 'a"

named_theorems res_simps "unfolding of the result combinators"
named_theorems dict_simps "lookups in insertion-ordered dictionaries"

fun rbind :: "'a res \<Rightarrow> ('a \<Rightarrow> 'b res) \<Rightarrow> 'b res" where
  "rbind (Inl e) f = Inl e"
| "rbind (Inr x) f = f x"

lemma rbind_cong [fundef_cong]:
  "x = y \<Longrightarrow> (\<And>a. y = Inr a \<Longrightarrow> f a = g a) \<Longrightarrow> rbind x f = rbind y g"
  by (cases y) auto

lemma rbind_Inr_iff [res_simps]:
  "rbind x f = Inr b \<longleftrightarrow> (\<exists>a. x = Inr a \<and> f a = Inr b)"
  by (cases x) auto

lemma rbind_Inl_iff [res_simps]:
  "rbind x f = Inl e \<longleftrightarrow> x = Inl e \<or> (\<exists>a. x = Inr a \<and> f a = Inl e)"
  by (cases x) auto

lemma rbind_assoc: "rbind (rbind x f) g = rbind x (\<lambda>a. rbind (f a) g)"
  by (cases x) auto

lemma rbind_return [simp]: "rbind x Inr = x"
  by (cases x) auto

text \<open>Python's \<open>assert c, msg\<close>.\<close>

definition py_assert :: "bool \<Rightarrow> string \<Rightarrow> unit res" where
  "py_assert c msg = (if c then Inr () else Inl (AssertionError msg))"

lemma py_assert_Inr [res_simps]: "py_assert c msg = Inr u \<longleftrightarrow> c"
  by (simp add: py_assert_def)

lemma py_assert_True [simp]: "py_assert True msg = Inr ()"
  by (simp add: py_assert_def)

text \<open>A list built by a loop or comprehension whose body may raise.\<close>

fun traverse :: "('a \<Rightarrow> 'b res) \<Rightarrow> 'a list \<Rightarrow> 'b list res" where
  "traverse f [] = Inr []"
| "traverse f (x # xs) = rbind (f x) (\<lambda>y. rbind (traverse f xs) (\<lambda>ys. Inr (y # ys)))"

lemma traverse_cong [fundef_cong]:
  "xs = ys \<Longrightarrow> (\<And>x. x \<in> set ys \<Longrightarrow> f x = g x) \<Longrightarrow> traverse f xs = traverse g ys"
  by (induction ys arbitrary: xs) auto

lemma traverse_length: "traverse f xs = Inr ys \<Longrightarrow> length ys = length xs"
  by (induction xs arbitrary: ys) (auto simp: res_simps)

lemma traverse_nth: "traverse f xs = Inr ys \<Longrightarrow> i < length xs \<Longrightarrow> f (xs ! i) = Inr (ys ! i)"
  by (induction xs arbitrary: ys i) (auto simp: res_simps nth_Cons split: nat.splits)

lemma traverse_list_all2: "traverse f xs = Inr ys \<longleftrightarrow> list_all2 (\<lambda>x y. f x = Inr y) xs ys"
proof (induction xs arbitrary: ys)
  case (Cons x xs)
  show ?case by (cases ys) (auto simp: res_simps Cons.IH)
qed auto

lemma traverse_Inr_map: "(\<And>x. x \<in> set xs \<Longrightarrow> f x = Inr (g x)) \<Longrightarrow> traverse f xs = Inr (map g xs)"
  by (induction xs) auto

lemma traverse_append:
  "traverse f (xs @ ys) = rbind (traverse f xs) (\<lambda>as. rbind (traverse f ys) (\<lambda>bs. Inr (as @ bs)))"
  by (induction xs) (simp_all add: rbind_assoc)

lemma traverse_all: "traverse f xs = Inr ys \<Longrightarrow> x \<in> set xs \<Longrightarrow> \<exists>y. f x = Inr y"
  by (induction xs arbitrary: ys) (auto simp: res_simps)

lemma traverse_set:
  "traverse f xs = Inr ys \<Longrightarrow> y \<in> set ys \<Longrightarrow> \<exists>x\<in>set xs. f x = Inr y"
  by (induction xs arbitrary: ys) (auto simp: res_simps)

section \<open>Insertion-ordered dictionaries\<close>

text \<open>
  A Python dict keeps the order of first insertion; assigning to an existing key keeps
  its place.  That is \<open>AList.update\<close> on an association list.  Reading a missing key
  with \<open>d[k]\<close> raises, with \<open>d.get(k)\<close> gives \<open>None\<close>.
\<close>

type_synonym ('k, 'v) dict = "('k \<times> 'v) list"

abbreviation dict_get :: "('k, 'v) dict \<Rightarrow> 'k \<Rightarrow> 'v option" where
  "dict_get d k \<equiv> map_of d k"

abbreviation dict_set :: "'k \<Rightarrow> 'v \<Rightarrow> ('k, 'v) dict \<Rightarrow> ('k, 'v) dict" where
  "dict_set k v d \<equiv> AList.update k v d"

definition getitem :: "(string, 'v) dict \<Rightarrow> string \<Rightarrow> 'v res" where
  "getitem d k = (case map_of d k of None \<Rightarrow> Inl (KeyError k) | Some v \<Rightarrow> Inr v)"

definition get_default :: "('k, 'v) dict \<Rightarrow> 'k \<Rightarrow> 'v \<Rightarrow> 'v" where
  "get_default d k v = (case map_of d k of None \<Rightarrow> v | Some w \<Rightarrow> w)"

text \<open>\<open>{k x: v x for x in xs}\<close>: later entries overwrite earlier ones.\<close>

fun dict_fill :: "('k, 'v) dict \<Rightarrow> ('k \<times> 'v) list \<Rightarrow> ('k, 'v) dict" where
  "dict_fill d [] = d"
| "dict_fill d ((k, v) # ps) = dict_fill (dict_set k v d) ps"

definition dict_of :: "('k \<times> 'v) list \<Rightarrow> ('k, 'v) dict" where
  "dict_of ps = dict_fill [] ps"

lemma getitem_Inr [res_simps]: "getitem d k = Inr v \<longleftrightarrow> map_of d k = Some v"
  by (auto simp: getitem_def split: option.splits)

lemma dict_get_fill [dict_simps]: "map_of (dict_fill d ps) = map_of d ++ map_of (rev ps)"
proof (induction d ps rule: dict_fill.induct)
  case (2 d k v ps)
  then show ?case
    by (auto simp: fun_eq_iff update_conv' map_add_def split: option.splits)
qed simp

lemma dict_get_of [dict_simps]: "map_of (dict_of ps) = map_of (rev ps)"
  by (simp add: dict_of_def dict_get_fill)

lemma dict_fill_keys: "fst ` set (dict_fill d ps) = fst ` set d \<union> fst ` set ps"
  by (induction d ps rule: dict_fill.induct) (auto simp: dom_update)

lemma dict_of_keys: "fst ` set (dict_of ps) = fst ` set ps"
  by (simp add: dict_of_def dict_fill_keys)

lemma dict_fill_distinct: "distinct (map fst d) \<Longrightarrow> distinct (map fst (dict_fill d ps))"
  by (induction d ps rule: dict_fill.induct) (auto simp: distinct_update)

lemma dict_of_distinct: "distinct (map fst (dict_of ps))"
  by (simp add: dict_of_def dict_fill_distinct)

section \<open>Sorting, extrema and sums as the source uses them\<close>

text \<open>\<open>sorted({...})\<close>: the distinct elements in increasing order.\<close>

definition sorted_set :: "'a::linorder list \<Rightarrow> 'a list" where
  "sorted_set xs = sort (remdups xs)"

lemma set_sorted_set [simp]: "set (sorted_set xs) = set xs"
  by (simp add: sorted_set_def)

lemma sorted_set_strict: "sorted (sorted_set xs) \<and> distinct (sorted_set xs)"
  by (simp add: sorted_set_def)

text \<open>\<open>min(xs, key=f)\<close> and \<open>max(xs, key=f)\<close>: the first extremal element.\<close>

fun min_key :: "('a \<Rightarrow> 'k::linorder) \<Rightarrow> 'a \<Rightarrow> 'a list \<Rightarrow> 'a" where
  "min_key f b [] = b"
| "min_key f b (x # xs) = min_key f (if f x < f b then x else b) xs"

fun max_key :: "('a \<Rightarrow> 'k::linorder) \<Rightarrow> 'a \<Rightarrow> 'a list \<Rightarrow> 'a" where
  "max_key f b [] = b"
| "max_key f b (x # xs) = max_key f (if f b < f x then x else b) xs"

lemma min_key_mem: "min_key f b xs \<in> set (b # xs)"
proof (induction f b xs rule: min_key.induct)
  case (2 f b x xs)
  then show ?case by (cases "f x < f b") auto
qed simp

lemma min_key_le: "y \<in> set (b # xs) \<Longrightarrow> f (min_key f b xs) \<le> f y"
proof (induction f b xs arbitrary: y rule: min_key.induct)
  case (2 f b x xs)
  let ?c = "if f x < f b then x else b"
  have "f (min_key f ?c xs) \<le> f ?c" using "2.IH" by simp
  moreover have "f ?c \<le> f x" and "f ?c \<le> f b" by auto
  ultimately show ?case using "2.prems" "2.IH"[of y] by auto
qed simp

lemma max_key_mem: "max_key f b xs \<in> set (b # xs)"
proof (induction f b xs rule: max_key.induct)
  case (2 f b x xs)
  then show ?case by (cases "f b < f x") auto
qed simp

lemma max_key_ge: "y \<in> set (b # xs) \<Longrightarrow> f y \<le> f (max_key f b xs)"
proof (induction f b xs arbitrary: y rule: max_key.induct)
  case (2 f b x xs)
  let ?c = "if f b < f x then x else b"
  have "f ?c \<le> f (max_key f ?c xs)" using "2.IH" by simp
  moreover have "f x \<le> f ?c" and "f b \<le> f ?c" by auto
  ultimately show ?case using "2.prems" "2.IH"[of y] by auto
qed simp

lemma sum_list_filter_split:
  fixes f :: "'a \<Rightarrow> 'b::comm_monoid_add"
  shows "sum_list (map f xs) = sum_list (map f (filter P xs)) + sum_list (map f (filter (\<lambda>x. \<not> P x) xs))"
  by (induction xs) (auto simp: ac_simps)

lemma filter_sorted_prefix:
  assumes "sorted (map f xs)" and "\<And>x y. f x \<le> f y \<Longrightarrow> P y \<Longrightarrow> P x"
  shows "filter P xs = takeWhile P xs"
  using assms
proof (induction xs)
  case (Cons x xs)
  then show ?case
    by (cases xs; cases "P x") (auto simp: filter_empty_conv)
qed simp

end
