(* ===== verification/Py_Bytes.thy ===== *)
theory Py_Bytes
  imports Prelude "HOL-Library.Word"
begin

unbundle bit_operations_syntax

text \<open>
  Python's \<open>bytes\<close>: indexing that raises, slicing that clips, \<open>int.from_bytes\<close>,
  \<open>int.to_bytes\<close> and \<open>int.bit_length\<close>, with the round trip of the big-endian
  encoding.  The locale \<open>scanner\<close> is the interface of a loop that reads one element
  after another from a buffer; the DER walk and the PEM search are its two instances.
\<close>

type_synonym byte = "8 word"
type_synonym bytes = "byte list"

definition ascii :: "string \<Rightarrow> bytes" where
  "ascii s = map of_char s"

text \<open>Bytes as characters, and back.\<close>

definition text_of :: "bytes \<Rightarrow> string" where
  "text_of b = map (\<lambda>w. char_of (unat w :: nat)) b"

lemma ascii_text_of [simp]: "ascii (text_of b) = b"
proof -
  have "of_char (char_of (unat w :: nat)) = w" for w :: byte
  proof -
    have "of_char (char_of (unat w :: nat)) = (of_nat (of_char (char_of (unat w :: nat))) :: byte)"
      by (simp only: of_nat_of_char)
    moreover have "unat w < 256" using unsigned_less[of w] by (simp only: len_num1 len_bit0) simp
    ultimately show ?thesis by simp
  qed
  then show ?thesis by (induction b) (simp_all add: ascii_def text_of_def)
qed

text \<open>\<open>buf[i]\<close> and \<open>buf[a:b]\<close> for non-negative indices.\<close>

definition byte_at :: "bytes \<Rightarrow> nat \<Rightarrow> byte res" where
  "byte_at buf i = (if i < length buf then Inr (buf ! i) else Inl IndexError)"

definition bslice :: "'a list \<Rightarrow> nat \<Rightarrow> nat \<Rightarrow> 'a list" where
  "bslice xs a b = take (b - a) (drop a xs)"

lemma byte_at_append [simp]: "byte_at (pre @ b # post) (length pre) = Inr b"
  by (simp add: byte_at_def)

lemma byte_at_Inr [res_simps]: "byte_at buf i = Inr b \<longleftrightarrow> i < length buf \<and> b = buf ! i"
  by (auto simp: byte_at_def)

lemma bslice_append [simp]:
  "bslice (pre @ xs @ post) (length pre) (length pre + length xs) = xs"
  by (simp add: bslice_def)

lemma length_bslice_le: "length (bslice xs a b) \<le> b - a"
  by (simp add: bslice_def)

section \<open>Integers and their big-endian bytes\<close>

fun bit_length :: "nat \<Rightarrow> nat" where
  "bit_length n = (if n = 0 then 0 else Suc (bit_length (n div 2)))"

declare bit_length.simps [simp del]

definition from_bytes_be :: "bytes \<Rightarrow> nat" where
  "from_bytes_be bs = foldl (\<lambda>a b. 256 * a + unat b) 0 bs"

fun be_digits :: "nat \<Rightarrow> nat \<Rightarrow> bytes" where
  "be_digits 0 n = []"
| "be_digits (Suc k) n = be_digits k (n div 256) @ [of_nat (n mod 256)]"

definition to_bytes_be :: "nat \<Rightarrow> nat \<Rightarrow> bytes res" where
  "to_bytes_be k n = (if n < 256 ^ k then Inr (be_digits k n) else Inl OverflowError)"

lemma bit_length_bound: "n < 2 ^ bit_length n"
proof (induction n rule: bit_length.induct)
  case (1 n)
  show ?case
  proof (cases "n = 0")
    case False
    with 1 have "n div 2 < 2 ^ bit_length (n div 2)" by simp
    then have "n < 2 * 2 ^ bit_length (n div 2)" by simp
    then show ?thesis using False by (simp add: bit_length.simps[of n])
  qed (simp add: bit_length.simps)
qed

lemma bit_length_least: "n < 2 ^ k \<Longrightarrow> bit_length n \<le> k"
proof (induction n arbitrary: k rule: bit_length.induct)
  case (1 n)
  show ?case
  proof (cases "n = 0")
    case False
    then obtain k' where k: "k = Suc k'" using "1.prems" by (cases k) auto
    then have "n div 2 < 2 ^ k'" using "1.prems" by simp
    then have "bit_length (n div 2) \<le> k'" using "1.IH" False by blast
    then show ?thesis using False k by (simp add: bit_length.simps[of n])
  qed (simp add: bit_length.simps)
qed

lemma pow256: "(256::nat) ^ k = 2 ^ (8 * k)"
  by (simp add: power_mult)

lemma byte_length_bound: "n < 256 ^ ((bit_length n + 7) div 8)"
proof -
  have "bit_length n \<le> 8 * ((bit_length n + 7) div 8)" by simp
  then have "(2::nat) ^ bit_length n \<le> 256 ^ ((bit_length n + 7) div 8)"
    unfolding pow256 by (rule power_increasing) simp
  then show ?thesis using bit_length_bound[of n] by simp
qed

lemma byte_length_least: "n < 256 ^ k \<Longrightarrow> (bit_length n + 7) div 8 \<le> k"
  using bit_length_least[of n "8 * k"] by (simp add: pow256)

lemma length_be_digits [simp]: "length (be_digits k n) = k"
  by (induction k arbitrary: n) auto

lemma from_bytes_be_snoc: "from_bytes_be (bs @ [b]) = 256 * from_bytes_be bs + unat b"
  by (simp add: from_bytes_be_def)

lemma from_be_digits: "n < 256 ^ k \<Longrightarrow> from_bytes_be (be_digits k n) = n"
proof (induction k arbitrary: n)
  case (Suc k)
  then have "n div 256 < 256 ^ k" by (simp add: div_less_iff_less_mult mult.commute)
  then have "from_bytes_be (be_digits (Suc k) n) = 256 * (n div 256) + unat (of_nat (n mod 256) :: byte)"
    using Suc.IH by (simp add: from_bytes_be_snoc)
  also have "unat (of_nat (n mod 256) :: byte) = n mod 256" by (simp add: unat_of_nat)
  finally show ?case by simp
qed (simp add: from_bytes_be_def)

section \<open>Reading elements one after another\<close>

text \<open>
  \<open>read1 buf i\<close> reads the next element at or after \<open>i\<close> and gives the position behind
  it, or \<open>None\<close> at the end; \<open>many\<close> is the loop over it.  The provider promises that
  \<open>read1\<close> undoes \<open>render\<close> wherever the element stands, and that reading on from the
  position it gives is reading on behind the rendered element.
\<close>

locale scanner =
  fixes read1 :: "'b list \<Rightarrow> nat \<Rightarrow> ('a \<times> nat) option res"
    and many :: "'b list \<Rightarrow> nat \<Rightarrow> 'a list res"
    and render :: "'a \<Rightarrow> 'b list"
    and ok :: "'a \<Rightarrow> bool"
  assumes many_unfold: "many buf i = rbind (read1 buf i) (\<lambda>r.
      case r of None \<Rightarrow> Inr [] | Some (x, k) \<Rightarrow> rbind (many buf k) (\<lambda>xs. Inr (x # xs)))"
    and read1_end: "read1 buf (length buf) = Inr None"
    and read1_render: "ok x \<Longrightarrow> \<exists>k. read1 (pre @ render x @ post) (length pre) = Inr (Some (x, k))
      \<and> many (pre @ render x @ post) k = many (pre @ render x @ post) (length pre + length (render x))"
begin

lemma many_render_append:
  "(\<And>x. x \<in> set xs \<Longrightarrow> ok x) \<Longrightarrow> many (pre @ concat (map render xs) @ post) (length pre)
     = rbind (many (pre @ concat (map render xs) @ post) (length pre + length (concat (map render xs))))
         (\<lambda>ys. Inr (xs @ ys))"
proof (induction xs arbitrary: pre)
  case (Cons x xs)
  let ?post = "concat (map render xs) @ post"
  let ?buf = "pre @ render x @ ?post"
  obtain k where k: "read1 ?buf (length pre) = Inr (Some (x, k))"
      "many ?buf k = many ?buf (length pre + length (render x))"
    using read1_render[of x pre ?post] Cons.prems by auto
  have "many ?buf (length (pre @ render x)) = rbind (many ?buf (length (pre @ render x)
      + length (concat (map render xs)))) (\<lambda>ys. Inr (xs @ ys))"
    using Cons.IH[of "pre @ render x"] Cons.prems by simp
  then have "many ?buf (length pre) = rbind (rbind (many ?buf (length pre + length (render x)
      + length (concat (map render xs)))) (\<lambda>ys. Inr (xs @ ys))) (\<lambda>xs. Inr (x # xs))"
    by (subst many_unfold) (simp add: k)
  then show ?case by (simp add: rbind_assoc add.assoc)
qed simp

lemma many_end: "many buf (length buf) = Inr []"
  by (subst many_unfold) (simp add: read1_end)

lemma many_render:
  "(\<And>x. x \<in> set xs \<Longrightarrow> ok x) \<Longrightarrow> many (pre @ concat (map render xs)) (length pre) = Inr xs"
  using many_render_append[of xs pre "[]"] many_end[of "pre @ concat (map render xs)"] by simp

lemma render_list_inj:
  assumes "\<And>x. x \<in> set xs \<Longrightarrow> ok x" and "\<And>y. y \<in> set ys \<Longrightarrow> ok y"
    and "concat (map render xs) = concat (map render ys)"
  shows "xs = ys"
  using many_render[of xs "[]"] many_render[of ys "[]"] assms by simp

end

end
