(* ===== verification/Der.thy ===== *)
theory Der
  imports Py_Bytes
begin

text \<open>
  DER tag-length-value data.  \<open>der_len\<close> is the length writer of
  \<open>phase0/catalyst_build.py\<close>; \<open>der_length\<close> and \<open>der_children\<close> are the reader
  of \<open>gen/sizes.py\<close>.  The reader is an instance of the \<open>scanner\<close> interface, so that
  reading back a concatenation of written elements is the locale's lemma.  The reader
  does not check that a content is complete: a truncated last element is returned short.
\<close>

section \<open>Writing a length (phase0/catalyst\_build.py, der\_len)\<close>

definition der_len :: "nat \<Rightarrow> bytes res" where
  "der_len n =
     (if n < 0x80 then Inr [of_nat n]
      else rbind (to_bytes_be ((bit_length n + 7) div 8) n) (\<lambda>b.
        if 0x80 OR length b < 256 then Inr (of_nat (0x80 OR length b) # b)
        else Inl (ValueError ''bytes must be in range(0, 256)'')))"

section \<open>Reading elements (gen/sizes.py, der\_children)\<close>

text \<open>Lines 26--31: the length octets that start at \<open>i\<close>, and where the content starts.\<close>

definition der_length :: "bytes \<Rightarrow> nat \<Rightarrow> (nat \<times> nat) res" where
  "der_length buf i = rbind (byte_at buf i) (\<lambda>b.
     let length0 = unat b; j = i + 1 in
     if length0 AND 0x80 \<noteq> 0
     then (let n = length0 AND 0x7F in Inr (from_bytes_be (bslice buf j (j + n)), j + n))
     else Inr (length0, j))"

text \<open>One round of the generator's loop.\<close>

definition der_element :: "bytes \<Rightarrow> nat \<Rightarrow> ((byte \<times> bytes) \<times> nat) option res" where
  "der_element buf i =
     (if i < length buf
      then rbind (byte_at buf i) (\<lambda>tag.
        rbind (der_length buf (i + 1)) (\<lambda>(len, j).
          Inr (Some ((tag, bslice buf j (j + len)), j + len))))
      else Inr None)"

lemma der_length_advances: "der_length buf i = Inr (len, j) \<Longrightarrow> i < j"
  by (auto simp: der_length_def res_simps Let_def split: if_splits)

lemma der_element_advances: "der_element buf i = Inr (Some (x, k)) \<Longrightarrow> i + 2 \<le> k \<and> i < length buf"
  by (auto simp: der_element_def res_simps split: if_splits dest!: der_length_advances)

text \<open>\<open>list(der_children(buf))\<close>: the generator run to its end, from index \<open>i\<close>.\<close>

function der_children_from :: "bytes \<Rightarrow> nat \<Rightarrow> (byte \<times> bytes) list res" where
  "der_children_from buf i = rbind (der_element buf i) (\<lambda>r.
     case r of None \<Rightarrow> Inr []
     | Some (x, k) \<Rightarrow> rbind (der_children_from buf k) (\<lambda>xs. Inr (x # xs)))"
  by pat_completeness auto
termination
  by (relation "measure (\<lambda>(buf, i). length buf - i)") (auto dest!: der_element_advances)

declare der_children_from.simps [simp del]

definition der_children :: "bytes \<Rightarrow> (byte \<times> bytes) list res" where
  "der_children buf = der_children_from buf 0"

section \<open>The writer and the reader agree\<close>

lemma and_128: "(n::nat) AND 128 \<noteq> 0 \<longleftrightarrow> odd (n div 128)"
proof -
  have "n AND push_bit 7 1 \<noteq> 0 \<longleftrightarrow> bit n 7" by (simp add: bit_iff_and_push_bit_not_eq_0)
  then show ?thesis by (simp add: bit_iff_odd push_bit_eq_mult)
qed

lemma and_127: "(n::nat) AND 127 = n mod 128"
proof -
  have "n AND mask 7 = n mod 2 ^ 7" by (metis take_bit_eq_mask take_bit_eq_mod)
  then show ?thesis by (simp add: mask_eq_exp_minus_1)
qed

lemma or_128: "k < 128 \<Longrightarrow> (128::nat) OR k = 128 + k"
  using and_128[of k] disjunctive_add_eq_or[of 128 k] by (auto simp: and.commute)

text \<open>A long length has its top bit set and its low bits count the octets that follow.\<close>

lemma der_len_short: "n < 128 \<Longrightarrow> der_len n = Inr [of_nat n]"
  by (simp add: der_len_def)

lemma der_len_long:
  assumes "128 \<le> n" and "n < 256 ^ 127"
  defines "k \<equiv> (bit_length n + 7) div 8"
  shows "der_len n = Inr (of_nat (128 + k) # be_digits k n)" and "k < 128" and "n < 256 ^ k"
proof -
  show k: "k < 128" using byte_length_least[OF assms(2)] by (simp add: k_def)
  show n: "n < 256 ^ k" unfolding k_def by (rule byte_length_bound)
  show "der_len n = Inr (of_nat (128 + k) # be_digits k n)"
    using assms(1) k n by (simp add: der_len_def to_bytes_be_def or_128 flip: k_def)
qed

lemma der_len_Inr: "n < 256 ^ 127 \<Longrightarrow> \<exists>h. der_len n = Inr h \<and> h \<noteq> []"
  by (cases "n < 128") (auto simp: der_len_short der_len_long)

text \<open>Reading a written length gives the length and the position of the content.\<close>

lemma der_length_der_len:
  assumes "n < 256 ^ 127" and "der_len n = Inr h"
  shows "der_length (pre @ h @ post) (length pre) = Inr (n, length pre + length h)"
proof (cases "n < 128")
  case True
  then have h: "h = [of_nat n]" using assms by (simp add: der_len_short)
  have "unat (of_nat n :: byte) = n" using True by (simp add: unat_of_nat)
  then show ?thesis using True and_128[of n]
    by (simp add: h der_length_def Let_def)
next
  case False
  define k where "k = (bit_length n + 7) div 8"
  note long = der_len_long[OF _ assms(1), folded k_def]
  have k: "k < 128" and n: "n < 256 ^ k" and h: "h = of_nat (128 + k) # be_digits k n"
    using False assms long by auto
  have u: "unat (of_nat (128 + k) :: byte) = 128 + k"
    using k by (simp add: unat_of_nat del: of_nat_add)
  have "bslice (pre @ h @ post) (length pre + 1) (length pre + 1 + k) = be_digits k n"
    using bslice_append[of "pre @ [of_nat (128 + k)]" "be_digits k n" post] by (simp add: h)
  moreover have "(128 + k) div 128 = 1" using k by simp
  ultimately show ?thesis
    using k u and_128[of "128 + k"] and_127[of "128 + k"]
    by (simp add: h der_length_def Let_def from_be_digits[OF n] del: of_nat_add)
qed

text \<open>The element that a writer of a tag, a length and a content produces.\<close>

definition tlv :: "byte \<times> bytes \<Rightarrow> bytes" where
  "tlv x = fst x # projr (der_len (length (snd x))) @ snd x"

lemma der_element_tlv:
  assumes "length (snd x) < 256 ^ 127"
  shows "der_element (pre @ tlv x @ post) (length pre) = Inr (Some (x, length pre + length (tlv x)))"
proof -
  obtain t c where x: "x = (t, c)" by (cases x)
  obtain h where h: "der_len (length c) = Inr h" using der_len_Inr assms x by auto
  have "der_length ((pre @ [t]) @ h @ (c @ post)) (length (pre @ [t])) = Inr (length c, length (pre @ [t]) + length h)"
    using der_length_der_len[of "length c" h "pre @ [t]" "c @ post"] assms x h by simp
  moreover have "bslice (pre @ t # h @ c @ post) (Suc (length pre + length h)) (Suc (length pre + length h) + length c) = c"
    using bslice_append[of "pre @ t # h" c post] by simp
  ultimately show ?thesis
    by (simp add: x h tlv_def der_element_def byte_at_def add.assoc)
qed

interpretation der: scanner der_element der_children_from tlv "\<lambda>x. length (snd x) < 256 ^ 127"
proof unfold_locales
  show "der_children_from buf i = rbind (der_element buf i) (\<lambda>r. case r of None \<Rightarrow> Inr []
      | Some (x, k) \<Rightarrow> rbind (der_children_from buf k) (\<lambda>xs. Inr (x # xs)))" for buf i
    by (rule der_children_from.simps)
qed (simp add: der_element_def, blast dest: der_element_tlv)

lemma der_children_concat:
  "(\<And>x. x \<in> set xs \<Longrightarrow> length (snd x) < 256 ^ 127) \<Longrightarrow> der_children (concat (map tlv xs)) = Inr xs"
  using der.many_render[of xs "[]"] by (simp add: der_children_def)

lemma der_children_concat_append:
  "(\<And>x. x \<in> set xs \<Longrightarrow> length (snd x) < 256 ^ 127) \<Longrightarrow> der_children (concat (map tlv xs) @ rest)
     = rbind (der_children_from (concat (map tlv xs) @ rest) (length (concat (map tlv xs)))) (\<lambda>ys. Inr (xs @ ys))"
  using der.many_render_append[of xs "[]" rest] by (simp add: der_children_def)

lemma der_children_from_ne: "i < length buf \<Longrightarrow> der_children_from buf i \<noteq> Inr []"
  by (subst der_children_from.simps)
    (auto simp: der_element_def res_simps split: option.splits)

section \<open>What the reader promises on any input\<close>

lemma der_length_Inl: "der_length buf i = Inl e \<Longrightarrow> e = IndexError"
  by (auto simp: der_length_def res_simps byte_at_def Let_def split: if_splits)

lemma der_element_Inl: "der_element buf i = Inl e \<Longrightarrow> e = IndexError"
  by (auto simp: der_element_def res_simps byte_at_def split: if_splits dest: der_length_Inl)

lemma der_children_from_Inl: "der_children_from buf i = Inl e \<Longrightarrow> e = IndexError"
proof (induction buf i rule: der_children_from.induct)
  case (1 buf i)
  from "1.prems" show ?case
    by (subst (asm) der_children_from.simps)
      (auto simp: res_simps split: option.splits dest: der_element_Inl intro: "1.IH")
qed

text \<open>Each element takes two octets and its content, so the elements fit in the buffer.\<close>

definition der_weight :: "(byte \<times> bytes) list \<Rightarrow> nat" where
  "der_weight xs = sum_list (map (\<lambda>x. 2 + length (snd x)) xs)"

lemma der_weight_simps [simp]: "der_weight [] = 0" "der_weight (x # xs) = 2 + length (snd x) + der_weight xs"
  by (simp_all add: der_weight_def)

lemma der_element_weight:
  assumes "der_element buf i = Inr (Some (x, k))"
  shows "2 + length (snd x) \<le> length buf - i"
    and "k \<le> length buf \<Longrightarrow> 2 + length (snd x) + (length buf - k) \<le> length buf - i"
proof -
  from assms obtain len j where j: "der_length buf (i + 1) = Inr (len, j)"
      and x: "snd x = bslice buf j (j + len)" "k = j + len"
    by (auto simp: der_element_def res_simps split: if_splits)
  have "i + 1 < length buf" using j by (auto simp: der_length_def res_simps)
  moreover have "i + 2 \<le> j" using der_length_advances[OF j] by simp
  ultimately show "2 + length (snd x) \<le> length buf - i"
    and "k \<le> length buf \<Longrightarrow> 2 + length (snd x) + (length buf - k) \<le> length buf - i"
    by (auto simp: x bslice_def)
qed

lemma der_children_from_weight: "der_children_from buf i = Inr xs \<Longrightarrow> der_weight xs \<le> length buf - i"
proof (induction buf i arbitrary: xs rule: der_children_from.induct)
  case (1 buf i)
  from "1.prems" consider "xs = []"
    | x k ys where "der_element buf i = Inr (Some (x, k))" "der_children_from buf k = Inr ys" "xs = x # ys"
    by (subst (asm) der_children_from.simps) (auto simp: res_simps split: option.splits)
  then show ?case
  proof cases
    case 2
    have "der_weight ys \<le> length buf - k" using "1.IH"[OF 2(1) refl _ 2(2)] by simp
    then show ?thesis
      using der_element_weight[OF 2(1)] 2(3) by (cases "k \<le> length buf") auto
  qed simp
qed

section \<open>Properties\<close>

text \<open>
  C28: reading back what was written.  A concatenation of DER elements, each with its
  length written by \<open>der_len\<close>, is read by \<open>der_children\<close> as exactly these elements.
\<close>

theorem der_written_read:
  assumes "\<And>x. x \<in> set xs \<Longrightarrow> length (snd x) < 256 ^ 127"
  shows "der_children (concat (map tlv xs)) = Inr xs"
  using assms by (rule der_children_concat)

theorem der_written_read_witness:
  "der_children (concat (map tlv [(0x30, [1, 2, 3]), (0x03, [0]), (0x04, [])])) = Inr [(0x30, [1, 2, 3]), (0x03, [0]), (0x04, [])]"
  by (rule der_written_read) auto

text \<open>
  C37: the DER reader always ends, raises nothing but IndexError, and the elements it
  returns fit in the buffer with their headers.
\<close>

theorem der_children_safe:
  "case der_children buf of Inl e \<Rightarrow> e = IndexError | Inr xs \<Rightarrow> der_weight xs \<le> length buf"
  using der_children_from_Inl[of buf 0] der_children_from_weight[of buf 0]
  by (auto simp: der_children_def split: sum.splits)

end
