(* ===== verification/Py_Strings.thy ===== *)
theory Py_Strings
  imports Prelude
begin

text \<open>
  The Python string operations the program uses: number formatting
  (\<open>str(n)\<close>, \<open>f"{n:,}"\<close>, \<open>f"{n:+d}"\<close>, padding), \<open>join\<close>,
  \<open>split\<close>, \<open>splitlines\<close>, \<open>strip\<close>, \<open>replace\<close>, \<open>endswith\<close> and
  \<open>int(s)\<close>.  A Python \<open>str\<close> is a list of code points below 256 (HOL's \<open>char\<close>),
  so the white-space and line-boundary sets are the ones Python uses on that range.
\<close>

section \<open>Decimal numerals\<close>

definition digit :: "nat \<Rightarrow> char" where
  "digit d = ''0123456789'' ! d"

fun str_nat :: "nat \<Rightarrow> string" where
  "str_nat n = (if n < 10 then [digit n] else str_nat (n div 10) @ [digit (n mod 10)])"

declare str_nat.simps [simp del]

definition str_int :: "int \<Rightarrow> string" where
  "str_int i = (if i < 0 then CHR ''-'' # str_nat (nat (- i)) else str_nat (nat i))"

definition digit_val :: "char \<Rightarrow> nat" where
  "digit_val c = of_char c - 48"

definition is_digit :: "char \<Rightarrow> bool" where
  "is_digit c \<longleftrightarrow> c \<in> set ''0123456789''"

fun parse_digits :: "nat \<Rightarrow> string \<Rightarrow> nat" where
  "parse_digits acc [] = acc"
| "parse_digits acc (c # cs) = parse_digits (10 * acc + digit_val c) cs"

lemma less_10_cases: "(d::nat) < 10 \<Longrightarrow> d \<in> {0,1,2,3,4,5,6,7,8,9}"
  by auto

lemma digit_val_digit [simp]: "d < 10 \<Longrightarrow> digit_val (digit d) = d"
  using less_10_cases[of d] by (auto simp: digit_val_def digit_def)

lemma is_digit_digit [simp]: "d < 10 \<Longrightarrow> is_digit (digit d)"
  using less_10_cases[of d] by (auto simp: is_digit_def digit_def)

lemma parse_digits_append: "parse_digits a (xs @ ys) = parse_digits (parse_digits a xs) ys"
  by (induction a xs rule: parse_digits.induct) auto

lemma parse_str_nat [simp]: "parse_digits 0 (str_nat n) = n"
proof (induction n rule: str_nat.induct)
  case (1 n)
  then show ?case
    by (cases "n < 10") (simp_all add: str_nat.simps[of n] parse_digits_append)
qed

lemma str_nat_digits: "c \<in> set (str_nat n) \<Longrightarrow> is_digit c"
proof (induction n rule: str_nat.induct)
  case (1 n)
  then show ?case
    by (cases "n < 10") (auto simp: str_nat.simps[of n])
qed

lemma str_nat_nonempty [simp]: "str_nat n \<noteq> []"
  by (subst str_nat.simps) simp

lemma str_nat_inject: "str_nat m = str_nat n \<longleftrightarrow> m = n"
  by (metis parse_str_nat)

lemma is_digit_not_special [simp]:
  "is_digit c \<Longrightarrow> c \<noteq> CHR '',''" "is_digit c \<Longrightarrow> c \<noteq> CHR ''|''" "is_digit c \<Longrightarrow> c \<noteq> CHR ''-''"
  "is_digit c \<Longrightarrow> c \<noteq> CHR ''+''" "is_digit c \<Longrightarrow> c \<noteq> CHR '' ''"
  by (auto simp: is_digit_def)

lemma str_int_chars: "c \<in> set (str_int i) \<Longrightarrow> is_digit c \<or> c = CHR ''-''"
  by (auto simp: str_int_def split: if_splits dest: str_nat_digits)

text \<open>\<open>f"{n:,}"\<close>: groups of three digits separated by commas.\<close>

definition pad3 :: "nat \<Rightarrow> string" where
  "pad3 n = [digit (n div 100 mod 10), digit (n div 10 mod 10), digit (n mod 10)]"

fun commas_nat :: "nat \<Rightarrow> string" where
  "commas_nat n = (if n < 1000 then str_nat n else commas_nat (n div 1000) @ '','' @ pad3 (n mod 1000))"

declare commas_nat.simps [simp del]

definition commas :: "int \<Rightarrow> string" where
  "commas i = (if i < 0 then CHR ''-'' # commas_nat (nat (- i)) else commas_nat (nat i))"

text \<open>\<open>f"{n:+d}"\<close>.\<close>

definition plus_d :: "int \<Rightarrow> string" where
  "plus_d i = (if i < 0 then str_int i else CHR ''+'' # str_int i)"

lemma str_nat_pad3: "str_nat (1000 * q + r) = str_nat q @ pad3 r" if "0 < q" "r < 1000"
proof -
  have split: "str_nat n = str_nat (n div 10) @ [digit (n mod 10)]" if "10 \<le> n" for n
    using that by (subst str_nat.simps) simp
  have d1: "(10 * a + b) div 10 = a + b div 10" "(10 * a + b) mod 10 = b mod 10" for a b :: nat
    by simp_all
  have d10: "(1000 * a + b) div 10 = 100 * a + b div 10" "(1000 * a + b) mod 10 = b mod 10"
      "(100 * a + b) div 10 = 10 * a + b div 10" "(100 * a + b) mod 10 = b mod 10" for a b :: nat
    using d1[of "100 * a" b] d1[of "10 * a" b] by simp_all
  define s where "s = r div 10"
  define t where "t = s div 10"
  have t: "t < 10" using that by (simp add: s_def t_def)
  have d: "(1000 * q + r) div 10 = 100 * q + s" "(1000 * q + r) mod 10 = r mod 10"
      "(100 * q + s) div 10 = 10 * q + t" "(100 * q + s) mod 10 = s mod 10"
      "(10 * q + t) div 10 = q" "(10 * q + t) mod 10 = t"
    using t[unfolded t_def s_def] by (simp_all add: d10 s_def t_def)
  have "str_nat (1000 * q + r) = str_nat (100 * q + s) @ [digit (r mod 10)]"
    using split[of "1000 * q + r"] that by (simp only: d)
  also have "str_nat (100 * q + s) = str_nat (10 * q + t) @ [digit (s mod 10)]"
    using split[of "100 * q + s"] that by (simp only: d)
  also have "str_nat (10 * q + t) = str_nat q @ [digit t]"
    using split[of "10 * q + t"] that by (simp only: d)
  also have "t = r div 100 mod 10" using t by (simp add: t_def s_def div_mult2_eq[symmetric])
  finally show ?thesis by (simp add: pad3_def s_def)
qed

lemma str_nat_no_comma: "CHR '','' \<notin> set (str_nat n)"
  using str_nat_digits[of "CHR '',''" n] by (auto simp: is_digit_def)

lemma commas_nat_filter: "filter (\<lambda>c. c \<noteq> CHR '','') (commas_nat n) = str_nat n"
proof (induction n rule: commas_nat.induct)
  case (1 n)
  show ?case
  proof (cases "n < 1000")
    case True
    then show ?thesis
      using str_nat_no_comma[of n] by (subst commas_nat.simps) (auto simp: filter_id_conv)
  next
    case False
    have "0 < n div 1000" using False by (simp add: div_greater_zero_iff)
    then have "str_nat (1000 * (n div 1000) + n mod 1000) = str_nat (n div 1000) @ pad3 (n mod 1000)"
      by (rule str_nat_pad3) simp
    then have str: "str_nat n = str_nat (n div 1000) @ pad3 (n mod 1000)"
      by (simp only: mult_div_mod_eq)
    have "filter (\<lambda>c. c \<noteq> CHR '','') (pad3 (n mod 1000)) = pad3 (n mod 1000)"
      by (simp add: filter_id_conv pad3_def)
    then show ?thesis
      using False 1 by (subst commas_nat.simps) (simp add: str)
  qed
qed

lemma commas_filter: "filter (\<lambda>c. c \<noteq> CHR '','') (commas i) = str_int i"
  by (simp add: commas_def str_int_def commas_nat_filter)

lemma commas_nat_chars: "c \<in> set (commas_nat n) \<Longrightarrow> is_digit c \<or> c = CHR '',''"
proof (induction n rule: commas_nat.induct)
  case (1 n)
  then show ?case
    by (cases "n < 1000") (auto simp: commas_nat.simps[of n] pad3_def dest: str_nat_digits)
qed

lemma commas_chars: "c \<in> set (commas i) \<Longrightarrow> is_digit c \<or> c = CHR '','' \<or> c = CHR ''-''"
  by (auto simp: commas_def split: if_splits dest: commas_nat_chars)

lemma str_int_inject: "str_int i = str_int j \<longleftrightarrow> i = j"
proof
  have no_minus: "str_nat n \<noteq> CHR ''-'' # s" for n s
    using str_nat_digits[of "CHR ''-''" n] by (auto simp: is_digit_def)
  assume eq: "str_int i = str_int j"
  have "(i < 0) = (j < 0)"
    using eq no_minus by (auto simp: str_int_def split: if_splits) (metis no_minus)+
  then show "i = j"
    using eq by (auto simp: str_int_def str_nat_inject split: if_splits)
qed simp

lemma commas_inject: "commas i = commas j \<longleftrightarrow> i = j"
  by (metis commas_filter str_int_inject)

text \<open>\<open>f"{s:10s}"\<close> pads on the right, \<open>f"{n:6d}"\<close> on the left.\<close>

definition pad_right :: "nat \<Rightarrow> string \<Rightarrow> string" where
  "pad_right w s = s @ replicate (w - length s) (CHR '' '')"

definition pad_left :: "nat \<Rightarrow> string \<Rightarrow> string" where
  "pad_left w s = replicate (w - length s) (CHR '' '') @ s"

section \<open>Joining, splitting, stripping\<close>

fun join :: "'a list \<Rightarrow> 'a list list \<Rightarrow> 'a list" where
  "join sep [] = []"
| "join sep [x] = x"
| "join sep (x # y # ys) = x @ sep @ join sep (y # ys)"

text \<open>\<open>s.split(c)\<close> for a one-character separator: never empty.\<close>

fun split_on :: "'a \<Rightarrow> 'a list \<Rightarrow> 'a list list" where
  "split_on c [] = [[]]"
| "split_on c (x # xs) = (if x = c then [] # split_on c xs
     else (case split_on c xs of [] \<Rightarrow> [[x]] | y # ys \<Rightarrow> (x # y) # ys))"

lemma split_on_nonempty [simp]: "split_on c xs \<noteq> []"
  by (induction c xs rule: split_on.induct) (auto split: list.splits)

lemma split_on_append: "c \<notin> set x \<Longrightarrow> split_on c (x @ c # ys) = x # split_on c ys"
  by (induction x) auto

lemma split_on_free: "c \<notin> set x \<Longrightarrow> split_on c x = [x]"
  by (induction x) auto

lemma split_on_join:
  "xs \<noteq> [] \<Longrightarrow> (\<And>x. x \<in> set xs \<Longrightarrow> c \<notin> set x) \<Longrightarrow> split_on c (join [c] xs) = xs"
proof (induction "[c]" xs rule: join.induct)
  case (3 x y ys)
  then show ?case by (simp add: split_on_append)
qed (simp_all add: split_on_free)

lemma join_split_on: "join [c] (split_on c xs) = xs"
proof (induction xs)
  case (Cons x xs)
  obtain y ys where "split_on c xs = y # ys"
    by (meson list.exhaust split_on_nonempty)
  with Cons show ?case by (cases ys) auto
qed simp

lemma join_empty_sep: "join [] xs = concat xs"
  by (induction "[] :: 'a list" xs rule: join.induct) auto

lemma split_on_parts: "p \<in> set (split_on c xs) \<Longrightarrow> c \<notin> set p"
  by (induction xs arbitrary: p) (auto split: list.splits if_splits)

definition is_space :: "char \<Rightarrow> bool" where
  "is_space c \<longleftrightarrow> of_char c \<in> ({9, 10, 11, 12, 13, 28, 29, 30, 31, 32, 133, 160} :: nat set)"

definition strip :: "string \<Rightarrow> string" where
  "strip s = rev (dropWhile is_space (rev (dropWhile is_space s)))"

definition is_newline :: "char \<Rightarrow> bool" where
  "is_newline c \<longleftrightarrow> of_char c \<in> ({10, 11, 12, 13, 28, 29, 30, 133} :: nat set)"

text \<open>
  \<open>s.splitlines()\<close>: every line boundary ends a line, \<open>\r\n\<close> counts once, and a
  final boundary does not open another line.
\<close>

fun splitlines_aux :: "string \<Rightarrow> string \<Rightarrow> string list" where
  "splitlines_aux cur [] = (if cur = [] then [] else [rev cur])"
| "splitlines_aux cur [c] = (if is_newline c then [rev cur] else [rev (c # cur)])"
| "splitlines_aux cur (c # d # s) =
     (if c = CHR 0x0D \<and> d = CHR 0x0A then rev cur # splitlines_aux [] s
      else if is_newline c then rev cur # splitlines_aux [] (d # s)
      else splitlines_aux (c # cur) (d # s))"

definition splitlines :: "string \<Rightarrow> string list" where
  "splitlines s = splitlines_aux [] s"

lemma dropWhile_id: "(\<And>x. x \<in> set xs \<Longrightarrow> \<not> P x) \<Longrightarrow> dropWhile P xs = xs"
  by (cases xs) auto

lemma set_dropWhile_subset: "set (dropWhile P xs) \<subseteq> set xs"
  by (induction xs) auto

lemma set_strip: "set (strip s) \<subseteq> set s"
  using set_dropWhile_subset[of is_space "rev (dropWhile is_space s)"] set_dropWhile_subset[of is_space s]
  by (auto simp: strip_def)

lemma strip_no_space_ends:
  assumes "strip s \<noteq> []"
  shows "\<not> is_space (hd (strip s)) \<and> \<not> is_space (last (strip s))"
proof -
  let ?d = "dropWhile is_space s"
  have eq: "?d = strip s @ rev (takeWhile is_space (rev ?d))"
    unfolding strip_def by (metis rev_append rev_rev_ident takeWhile_dropWhile_id)
  then have "hd ?d = hd (strip s)" and "?d \<noteq> []"
    using assms by (metis hd_append2, metis append_is_Nil_conv)
  then have "\<not> is_space (hd (strip s))" using hd_dropWhile[of is_space s] by simp
  moreover have d: "dropWhile is_space (rev ?d) \<noteq> []"
    using assms unfolding strip_def by (simp only: rev_is_Nil_conv not_False_eq_True)
  then have "\<not> is_space (last (strip s))"
    unfolding strip_def by (simp only: last_rev hd_dropWhile not_False_eq_True)
  ultimately show ?thesis by blast
qed

lemma splitlines_aux_parts:
  "l \<in> set (splitlines_aux cur s) \<Longrightarrow> c \<in> set l \<Longrightarrow> c \<in> set cur \<union> set s"
  by (induction cur s arbitrary: l rule: splitlines_aux.induct) (force split: if_splits)+

lemma splitlines_aux_no_newline:
  "(\<And>c. c \<in> set cur \<Longrightarrow> \<not> is_newline c) \<Longrightarrow> l \<in> set (splitlines_aux cur s) \<Longrightarrow> c \<in> set l
     \<Longrightarrow> \<not> is_newline c"
proof (induction cur s arbitrary: l rule: splitlines_aux.induct)
  case (3 cur c' d s)
  then show ?case by (auto split: if_splits)
qed (auto split: if_splits)

definition ends_with :: "string \<Rightarrow> string \<Rightarrow> bool" where
  "ends_with s t \<longleftrightarrow> suffix t s"

section \<open>int(s)\<close>

text \<open>Surrounding white space, a sign, and digits with single underscores between them.\<close>

fun int_literal :: "string \<Rightarrow> bool" where
  "int_literal [] = False"
| "int_literal [c] = is_digit c"
| "int_literal (c # d # s) = (is_digit c \<and> (if d = CHR ''_'' then int_literal s else int_literal (d # s)))"

definition py_int :: "string \<Rightarrow> int res" where
  "py_int s = (let t = strip s; neg = (t \<noteq> [] \<and> hd t = CHR ''-'');
     d = (if t \<noteq> [] \<and> (hd t = CHR ''-'' \<or> hd t = CHR ''+'') then tl t else t);
     n = int (parse_digits 0 (filter (\<lambda>c. c \<noteq> CHR ''_'') d)) in
     if int_literal d then Inr (if neg then - n else n)
     else Inl (ValueError ''invalid literal for int() with base 10''))"

lemma int_literal_digits: "s \<noteq> [] \<Longrightarrow> (\<And>c. c \<in> set s \<Longrightarrow> is_digit c) \<Longrightarrow> int_literal s"
  by (induction s rule: int_literal.induct) (auto simp: is_digit_def)

lemma is_digit_not_space: "is_digit c \<Longrightarrow> \<not> is_space c \<and> c \<noteq> CHR ''_''"
  by (auto simp: is_digit_def is_space_def)

lemma strip_id: "s = [] \<or> \<not> is_space (hd s) \<and> \<not> is_space (last s) \<Longrightarrow> strip s = s"
proof (cases "s = []")
  case False
  assume "s = [] \<or> \<not> is_space (hd s) \<and> \<not> is_space (last s)"
  with False have "dropWhile is_space s = s" "dropWhile is_space (rev s) = rev s"
    by (simp_all add: dropWhile_eq_self_iff hd_rev)
  then show ?thesis by (simp add: strip_def)
qed (simp add: strip_def)

lemma filter_digits: "(\<And>c. c \<in> set s \<Longrightarrow> is_digit c) \<Longrightarrow> filter (\<lambda>c. c \<noteq> CHR ''_'') s = s"
  by (rule filter_True) (use is_digit_not_space in blast)

lemma py_int_str: "py_int (str_int i) = Inr i"
proof -
  have dig: "is_digit c" if "c \<in> set (str_nat n)" for c n
    using that by (rule str_nat_digits)
  have hd: "is_digit (hd (str_nat n))" and lst: "is_digit (last (str_nat n))" for n
    using dig[of _ n] by simp_all
  have lit: "int_literal (str_nat n)" for n
    by (rule int_literal_digits) (use dig in auto)
  have fil: "filter (\<lambda>c. c \<noteq> CHR ''_'') (str_nat n) = str_nat n" for n
    by (rule filter_digits) (rule dig)
  have "strip (str_int i) = str_int i"
    using hd lst is_digit_not_space by (intro strip_id) (auto simp: str_int_def is_space_def)
  then show ?thesis
    using is_digit_not_special(3,4)[OF hd] by (auto simp: py_int_def Let_def str_int_def lit fil)
qed

end
