(* ===== verification/Effects.thy ===== *)
theory Effects
  imports Py_Strings
begin

text \<open>
  Code with side effects: a computation takes the state of the world and returns a
  result (a value or an exception) and the state after it; the state survives an
  exception, as it does in Python.  \<open>efinally\<close> is \<open>try ... finally\<close>.  The shared part
  of the state is the file system of the checkout, its directories and the printed
  lines; paths are lists of components below the repository's root.  File contents are
  lists of bytes written as characters; text is read byte by byte with the universal
  newline translation of text mode.

  The locale \<open>frame\<close> is the contract "every operation relates the state before to the
  state after by \<open>R\<close>", closed under the control structures; it is interpreted below on
  the world's directories and printed lines and by the components on their own state.
\<close>

type_synonym ('s, 'a) eff = "'s \<Rightarrow> 'a res \<times> 's"

definition ret :: "'a \<Rightarrow> ('s, 'a) eff" where
  "ret x s = (Inr x, s)"

definition throw :: "err \<Rightarrow> ('s, 'a) eff" where
  "throw e s = (Inl e, s)"

definition lift :: "'a res \<Rightarrow> ('s, 'a) eff" where
  "lift r s = (r, s)"

definition gets :: "('s \<Rightarrow> 'a) \<Rightarrow> ('s, 'a) eff" where
  "gets f s = (Inr (f s), s)"

definition modify :: "('s \<Rightarrow> 's) \<Rightarrow> ('s, unit) eff" where
  "modify f s = (Inr (), f s)"

definition ebind :: "('s, 'a) eff \<Rightarrow> ('a \<Rightarrow> ('s, 'b) eff) \<Rightarrow> ('s, 'b) eff" where
  "ebind m f s = (case m s of (Inl e, s') \<Rightarrow> (Inl e, s') | (Inr x, s') \<Rightarrow> f x s')"

definition eseq :: "('s, unit) eff \<Rightarrow> ('s, 'b) eff \<Rightarrow> ('s, 'b) eff" where
  "eseq m k = ebind m (\<lambda>_. k)"

definition efinally :: "('s, 'a) eff \<Rightarrow> ('s, unit) eff \<Rightarrow> ('s, 'a) eff" where
  "efinally m g s = (case m s of (r, s') \<Rightarrow>
     (case g s' of (Inl e, s'') \<Rightarrow> (Inl e, s'') | (Inr _, s'') \<Rightarrow> (r, s'')))"

fun foreach :: "('a \<Rightarrow> ('s, unit) eff) \<Rightarrow> 'a list \<Rightarrow> ('s, unit) eff" where
  "foreach f [] = ret ()"
| "foreach f (x # xs) = eseq (f x) (foreach f xs)"

fun emap :: "('a \<Rightarrow> ('s, 'b) eff) \<Rightarrow> 'a list \<Rightarrow> ('s, 'b list) eff" where
  "emap f [] = ret []"
| "emap f (x # xs) = ebind (f x) (\<lambda>y. ebind (emap f xs) (\<lambda>ys. ret (y # ys)))"

named_theorems eff_simps "unfolding of the effect combinators"

lemmas eff_defs [eff_simps] =
  ret_def throw_def lift_def gets_def modify_def ebind_def eseq_def efinally_def

text \<open>What a run that ends without an exception consists of.\<close>

named_theorems run_simps "successful runs of the effect combinators"

lemma ret_run [run_simps]: "ret x s = (Inr y, t) \<longleftrightarrow> y = x \<and> t = s"
  and throw_run [run_simps]: "\<not> throw e s = (Inr y, t)"
  and lift_run [run_simps]: "lift r s = (Inr y, t) \<longleftrightarrow> r = Inr y \<and> t = s"
  and modify_run [run_simps]: "modify f s = (Inr u, t) \<longleftrightarrow> t = f s"
  by (auto simp: eff_defs)

lemma ebind_run [run_simps]:
  "ebind m f s = (Inr y, t) \<longleftrightarrow> (\<exists>x u. m s = (Inr x, u) \<and> f x u = (Inr y, t))"
  by (auto simp: ebind_def split: prod.splits sum.splits)

lemma eseq_run [run_simps]:
  "eseq m k s = (Inr y, t) \<longleftrightarrow> (\<exists>u. m s = (Inr (), u) \<and> k u = (Inr y, t))"
  by (auto simp: eseq_def ebind_run)

lemma emap_run_log:
  assumes "emap f xs s = (Inr ys, t)"
    and "\<And>x s y t. x \<in> set xs \<Longrightarrow> f x s = (Inr y, t) \<Longrightarrow> \<exists>e. Q x y e \<and> log t = log s @ e"
  shows "\<exists>es. length es = length xs \<and> length ys = length xs
    \<and> (\<forall>i<length xs. Q (xs ! i) (ys ! i) (es ! i)) \<and> log t = log s @ concat es"
  using assms
proof (induction xs arbitrary: s ys)
  case (Cons x xs)
  from Cons.prems(1) obtain y u zs where u: "f x s = (Inr y, u)" "emap f xs u = (Inr zs, t)" "ys = y # zs"
    by (auto simp: run_simps)
  obtain e where e: "Q x y e" "log u = log s @ e" using Cons.prems(2)[OF _ u(1)] by auto
  obtain es where es: "length es = length xs" "length zs = length xs"
      "\<forall>i<length xs. Q (xs ! i) (zs ! i) (es ! i)" "log t = log u @ concat es"
    using Cons.IH[OF u(2) Cons.prems(2)] by auto
  show ?case
    by (rule exI[of _ "e # es"]) (use e es u(3) in \<open>auto simp: nth_Cons split: nat.splits\<close>)
qed (auto simp: run_simps)

lemma emap_run_keeps:
  assumes "emap f xs s = (Inr ys, t)"
    and "\<And>x s y t. x \<in> set xs \<Longrightarrow> f x s = (Inr y, t) \<Longrightarrow> g t = g s"
  shows "g t = g s"
  using assms
proof (induction xs arbitrary: s ys)
  case (Cons x xs)
  from Cons.prems(1) obtain y u zs where u: "f x s = (Inr y, u)" "emap f xs u = (Inr zs, t)"
    by (auto simp: run_simps)
  have "g t = g u" by (rule Cons.IH[OF u(2)], rule Cons.prems(2)) simp_all
  then show ?case using Cons.prems(2)[OF _ u(1)] by simp
qed (simp add: run_simps)

section \<open>State relations kept by every operation\<close>

locale frame =
  fixes R :: "'s \<Rightarrow> 's \<Rightarrow> bool"
  assumes refl: "R s s" and trans: "R s t \<Longrightarrow> R t u \<Longrightarrow> R s u"
begin

lemma ret: "R s (snd (ret x s))" and throw: "R s (snd (throw e s))"
  and lift: "R s (snd (lift r s))" and gets: "R s (snd (gets f s))"
  by (simp_all add: eff_defs refl)

lemma ebind: "(\<And>s. R s (snd (m s))) \<Longrightarrow> (\<And>x s. R s (snd (f x s))) \<Longrightarrow> R s (snd (ebind m f s))"
  unfolding ebind_def by (auto split: prod.splits sum.splits) (metis snd_conv trans)+

lemma eseq: "(\<And>s. R s (snd (m s))) \<Longrightarrow> (\<And>s. R s (snd (k s))) \<Longrightarrow> R s (snd (eseq m k s))"
  unfolding eseq_def by (rule ebind)

lemma efinally: "(\<And>s. R s (snd (m s))) \<Longrightarrow> (\<And>s. R s (snd (g s))) \<Longrightarrow> R s (snd (efinally m g s))"
  unfolding efinally_def by (auto split: prod.splits sum.splits) (metis snd_conv trans)+

lemma foreach: "(\<And>x s. R s (snd (f x s))) \<Longrightarrow> R s (snd (foreach f xs s))"
  by (induction xs arbitrary: s) (simp_all add: ret eseq)

lemma emap: "(\<And>x s. R s (snd (f x s))) \<Longrightarrow> R s (snd (emap f xs s))"
  by (induction xs arbitrary: s) (simp_all add: ret ebind)

lemmas closed = ret throw lift gets ebind eseq efinally foreach emap

end

section \<open>The file system and standard output\<close>

type_synonym path = "string list"

text \<open>\<open>str(p)\<close>, of a path relative to the checkout and of the absolute one.\<close>

definition path_str :: "path \<Rightarrow> string" where
  "path_str p = join ''/'' p"

definition abs_path :: "string \<Rightarrow> path \<Rightarrow> string" where
  "abs_path repo p = repo @ ''/'' @ path_str p"

record world =
  files :: "path \<Rightarrow> string option"
  dirs :: "path set"
  out :: "string list"

text \<open>\<open>mkdir(parents=True, exist_ok=True)\<close>: the path and its ancestors; a file in the
  way raises.\<close>

definition ancestors :: "path \<Rightarrow> path list" where
  "ancestors p = map (\<lambda>n. take n p) [0..<Suc (length p)]"

definition mkdir :: "path \<Rightarrow> ('x world_scheme, unit) eff" where
  "mkdir p s = (if list_ex (\<lambda>q. files s q \<noteq> None) (ancestors p) then (Inl (OSError ''FileExistsError''), s)
     else (Inr (), s\<lparr>dirs := dirs s \<union> set (ancestors p)\<rparr>))"

definition read_file :: "path \<Rightarrow> ('x world_scheme, string) eff" where
  "read_file p s = (case files s p of None \<Rightarrow> (Inl (OSError ''FileNotFoundError''), s)
     | Some c \<Rightarrow> (Inr c, s))"

text \<open>Writing needs the parent directory and must not hit a directory.\<close>

definition write_file :: "path \<Rightarrow> string \<Rightarrow> ('x world_scheme, unit) eff" where
  "write_file p c s = (if p \<in> dirs s then (Inl (OSError ''IsADirectoryError''), s)
     else if butlast p \<in> dirs s then (Inr (), s\<lparr>files := (files s)(p \<mapsto> c)\<rparr>)
     else (Inl (OSError ''FileNotFoundError''), s))"

text \<open>\<open>shutil.copy\<close>: into the directory when the destination is one.\<close>

definition copy_file :: "path \<Rightarrow> path \<Rightarrow> ('x world_scheme, unit) eff" where
  "copy_file a b s = ebind (read_file a) (write_file (if b \<in> dirs s then b @ [last a] else b)) s"

text \<open>\<open>unlink(missing_ok=True)\<close>: a directory is not unlinked.\<close>

definition unlink_missing_ok :: "path \<Rightarrow> ('x world_scheme, unit) eff" where
  "unlink_missing_ok p s = (if p \<in> dirs s then (Inl (OSError ''IsADirectoryError''), s)
     else (Inr (), s\<lparr>files := (files s)(p := None)\<rparr>))"

definition exists_file :: "path \<Rightarrow> ('x world_scheme, bool) eff" where
  "exists_file p s = (Inr (files s p \<noteq> None \<or> p \<in> dirs s), s)"

definition print :: "string \<Rightarrow> ('x world_scheme, unit) eff" where
  "print l s = (Inr (), s\<lparr>out := out s @ [l]\<rparr>)"

text \<open>Text mode: \<open>\r\n\<close> and \<open>\r\<close> are read as \<open>\n\<close>.\<close>

fun universal_newlines :: "string \<Rightarrow> string" where
  "universal_newlines [] = []"
| "universal_newlines [c] = (if c = CHR 0x0D then [CHR 0x0A] else [c])"
| "universal_newlines (c # d # s) =
     (if c = CHR 0x0D then (if d = CHR 0x0A then CHR 0x0A # universal_newlines s
                            else CHR 0x0A # universal_newlines (d # s))
      else c # universal_newlines (d # s))"

lemmas fs_defs [eff_simps] =
  mkdir_def read_file_def write_file_def copy_file_def exists_file_def print_def unlink_missing_ok_def

lemma universal_newlines_id: "CHR 0x0D \<notin> set s \<Longrightarrow> universal_newlines s = s"
  by (induction s rule: universal_newlines.induct) auto

lemma universal_newlines_no_cr: "CHR 0x0D \<notin> set (universal_newlines s)"
  by (induction s rule: universal_newlines.induct) auto

definition grows :: "'x world_scheme \<Rightarrow> 'x world_scheme \<Rightarrow> bool" where
  "grows s t \<longleftrightarrow> dirs s \<subseteq> dirs t \<and> prefix (out s) (out t)
     \<and> (\<forall>p. files s p \<noteq> None \<longrightarrow> files t p \<noteq> None)"

text \<open>Directories, files and output only grow: of these operations only \<open>unlink\<close> deletes.\<close>

interpretation grows: frame grows
  by unfold_locales (auto simp: grows_def dest: prefix_order.order_trans)

lemma grows_ops: "grows s (snd (mkdir p s))" "grows s (snd (read_file p s))"
    "grows s (snd (write_file p c s))" "grows s (snd (exists_file p s))" "grows s (snd (print l s))"
  by (auto simp: grows_def fs_defs split: option.splits)

lemma grows_copy: "grows s (snd (copy_file a b s))"
  unfolding copy_file_def by (rule grows.ebind) (rule grows_ops)+

text \<open>What every result of the loop satisfies.\<close>

lemma emap_run_all:
  "emap f xs s = (Inr ys, t) \<Longrightarrow> (\<And>x s y t. x \<in> set xs \<Longrightarrow> f x s = (Inr y, t) \<Longrightarrow> P y) \<Longrightarrow> \<forall>y\<in>set ys. P y"
proof (induction xs arbitrary: s ys)
  case (Cons x xs)
  from Cons.prems(1) obtain y u zs where u: "f x s = (Inr y, u)" "emap f xs u = (Inr zs, t)" "ys = y # zs"
    by (auto simp: run_simps)
  have "P y" by (rule Cons.prems(2)[OF _ u(1)]) simp
  moreover have "\<forall>y\<in>set zs. P y" by (rule Cons.IH[OF u(2)], rule Cons.prems(2)) simp_all
  ultimately show ?case using u(3) by simp
qed (simp add: run_simps)

lemma emap_run_all2:
  "emap f xs s = (Inr ys, t) \<Longrightarrow> (\<And>x s y t. x \<in> set xs \<Longrightarrow> f x s = (Inr y, t) \<Longrightarrow> P x y) \<Longrightarrow> list_all2 P xs ys"
proof (induction xs arbitrary: s ys)
  case (Cons x xs)
  from Cons.prems(1) obtain y u zs where u: "f x s = (Inr y, u)" "emap f xs u = (Inr zs, t)" "ys = y # zs"
    by (auto simp: run_simps)
  have "P x y" by (rule Cons.prems(2)[OF _ u(1)]) simp
  moreover have "list_all2 P xs zs" by (rule Cons.IH[OF u(2)], rule Cons.prems(2)) simp_all
  ultimately show ?case using u(3) by simp
qed (simp add: run_simps)

end
