(* ===== verification/Json.thy ===== *)
theory Json
  imports Py_Strings
begin

text \<open>
  JSON values and the part of Python's \<open>json\<close> module the program uses: \<open>json.dumps\<close>
  in its compact form and with \<open>indent=2\<close>, with ASCII escaping, and the accessors
  \<open>d[k]\<close> and \<open>d.get(k)\<close> on decoded objects.  A number with a fraction is
  \<open>JDec m k\<close>, the decimal \<open>m / 10^k\<close> (the only floats written are rounded to one or
  two digits), shown without superfluous zeros as \<open>repr\<close> shows it.
\<close>

datatype json =
    JNull
  | JBool bool
  | JInt int
  | JDec int nat
  | JStr string
  | JList "json list"
  | JObj "(string \<times> json) list"

section \<open>Rendering\<close>

definition hex_digit :: "nat \<Rightarrow> char" where
  "hex_digit d = ''0123456789abcdef'' ! d"

definition escape_char :: "char \<Rightarrow> string" where
  "escape_char c =
     (if c = CHR 0x22 then [CHR 0x5C, CHR 0x22]
      else if c = CHR 0x5C then [CHR 0x5C, CHR 0x5C]
      else if c = CHR 0x0A then [CHR 0x5C, CHR ''n'']
      else if c = CHR 0x0D then [CHR 0x5C, CHR ''r'']
      else if c = CHR 0x09 then [CHR 0x5C, CHR ''t'']
      else if c = CHR 0x08 then [CHR 0x5C, CHR ''b'']
      else if c = CHR 0x0C then [CHR 0x5C, CHR ''f'']
      else if 32 \<le> (of_char c :: nat) \<and> (of_char c :: nat) < 127 then [c]
      else [CHR 0x5C, CHR ''u'', CHR ''0'', CHR ''0'', hex_digit (of_char c div 16), hex_digit (of_char c mod 16)])"

definition quote :: "string \<Rightarrow> string" where
  "quote s = CHR 0x22 # concat (map escape_char s) @ [CHR 0x22]"

text \<open>Fractional digits: \<open>k\<close> of them, then trailing zeros dropped down to one digit.\<close>

fun strip_zeros :: "string \<Rightarrow> string" where
  "strip_zeros [] = []"
| "strip_zeros [c] = [c]"
| "strip_zeros (c # d # s) = (if list_all (\<lambda>x. x = CHR ''0'') (d # s) then [c] else c # strip_zeros (d # s))"

definition dec_string :: "int \<Rightarrow> nat \<Rightarrow> string" where
  "dec_string m k = (let n = nat \<bar>m\<bar>; f = str_nat (n mod 10 ^ k) in
     (if m < 0 then ''-'' else '''') @ str_nat (n div 10 ^ k) @ ''.'' @
     strip_zeros (if k = 0 then ''0'' else replicate (k - length f) (CHR ''0'') @ f))"

fun dumps :: "json \<Rightarrow> string" where
  "dumps JNull = ''null''"
| "dumps (JBool b) = (if b then ''true'' else ''false'')"
| "dumps (JInt i) = str_int i"
| "dumps (JDec m k) = dec_string m k"
| "dumps (JStr s) = quote s"
| "dumps (JList xs) = ''['' @ join '', '' (map dumps xs) @ '']''"
| "dumps (JObj kvs) = ''{'' @ join '', '' (map (\<lambda>(k, v). quote k @ '': '' @ dumps v) kvs) @ ''}''"

text \<open>\<open>json.dumps(v, indent=2)\<close> at nesting depth \<open>d\<close>.\<close>

definition newline_indent :: "nat \<Rightarrow> string" where
  "newline_indent d = CHR 0x0A # replicate (2 * d) (CHR '' '')"

fun dumps_indent :: "nat \<Rightarrow> json \<Rightarrow> string" where
  "dumps_indent d JNull = ''null''"
| "dumps_indent d (JBool b) = (if b then ''true'' else ''false'')"
| "dumps_indent d (JInt i) = str_int i"
| "dumps_indent d (JDec m k) = dec_string m k"
| "dumps_indent d (JStr s) = quote s"
| "dumps_indent d (JList xs) = (if xs = [] then ''[]''
     else ''['' @ newline_indent (Suc d) @ join ('','' @ newline_indent (Suc d)) (map (dumps_indent (Suc d)) xs)
       @ newline_indent d @ '']'')"
| "dumps_indent d (JObj kvs) = (if kvs = [] then ''{}''
     else ''{'' @ newline_indent (Suc d)
       @ join ('','' @ newline_indent (Suc d)) (map (\<lambda>(k, v). quote k @ '': '' @ dumps_indent (Suc d) v) kvs)
       @ newline_indent d @ ''}'')"

section \<open>Reading decoded values\<close>

text \<open>\<open>v[k]\<close> with a string key: a missing key is a KeyError, a non-object a TypeError.\<close>

fun jget :: "json \<Rightarrow> string \<Rightarrow> json res" where
  "jget (JObj kvs) k = getitem kvs k"
| "jget _ k = Inl TypeError"

text \<open>
  Arithmetic and formatting on a value that is not an int, or not a string, raises, and
  so does a method call on a value that is no dict (Python's AttributeError is counted
  as a TypeError).
\<close>

fun as_int :: "json \<Rightarrow> int res" where
  "as_int (JInt i) = Inr i"
| "as_int _ = Inl TypeError"

fun as_str :: "json \<Rightarrow> string res" where
  "as_str (JStr s) = Inr s"
| "as_str _ = Inl TypeError"

fun as_list :: "json \<Rightarrow> json list res" where
  "as_list (JList xs) = Inr xs"
| "as_list _ = Inl TypeError"

fun as_obj :: "json \<Rightarrow> (string \<times> json) list res" where
  "as_obj (JObj kvs) = Inr kvs"
| "as_obj _ = Inl TypeError"

definition int_field :: "json \<Rightarrow> string \<Rightarrow> int res" where
  "int_field v k = rbind (jget v k) as_int"

definition str_field :: "json \<Rightarrow> string \<Rightarrow> string res" where
  "str_field v k = rbind (jget v k) as_str"

definition has_key :: "json \<Rightarrow> string \<Rightarrow> bool" where
  "has_key v k = (case v of JObj kvs \<Rightarrow> map_of kvs k \<noteq> None | _ \<Rightarrow> False)"

lemma as_int_Inr [res_simps]: "as_int v = Inr i \<longleftrightarrow> v = JInt i"
  by (cases v) auto

lemma as_str_Inr [res_simps]: "as_str v = Inr s \<longleftrightarrow> v = JStr s"
  by (cases v) auto

lemma as_list_Inr [res_simps]: "as_list v = Inr xs \<longleftrightarrow> v = JList xs"
  by (cases v) auto

lemma as_obj_Inr [res_simps]: "as_obj v = Inr kvs \<longleftrightarrow> v = JObj kvs"
  by (cases v) auto

lemma jget_Inr [res_simps]: "jget v k = Inr w \<longleftrightarrow> (\<exists>kvs. v = JObj kvs \<and> map_of kvs k = Some w)"
  by (cases v) (auto simp: res_simps)

end
