(* ===== verification/Tables.thy ===== *)
theory Tables
  imports Py_Strings
begin

text \<open>
  The tables of the generated Markdown files: a line of cells as the scripts write it, and
  the reader that a human or a program applies to it.  What the scripts print in a cell
  reads back: names, numbers with thousands separators, and signed differences unless
  they are negative after a literal plus.
\<close>

section \<open>Lines of cells\<close>

definition table_line :: "string list \<Rightarrow> string" where
  "table_line cols = ''| '' @ join '' | '' cols @ '' |''"

text \<open>The reader: what stands between the bars, without surrounding white space.\<close>

definition row_cells :: "string \<Rightarrow> string list" where
  "row_cells l = map strip (tl (butlast (split_on (CHR ''|'') l)))"

definition plain_cell :: "string \<Rightarrow> bool" where
  "plain_cell c \<longleftrightarrow> CHR ''|'' \<notin> set c \<and> strip c = c"

definition padded :: "string \<Rightarrow> string" where
  "padded c = '' '' @ c @ '' ''"

lemma join_padded: "cols \<noteq> [] \<Longrightarrow> '' '' @ join '' | '' cols @ '' '' = join ''|'' (map padded cols)"
  by (induction "'' | ''" cols rule: join.induct) (simp_all add: padded_def)

lemma join_Cons: "xs \<noteq> [] \<Longrightarrow> join sep (x # xs) = x @ sep @ join sep xs"
  by (cases xs) simp_all

lemma join_snoc: "xs \<noteq> [] \<Longrightarrow> join sep (xs @ [x]) = join sep xs @ sep @ x"
  by (induction sep xs rule: join.induct) (simp_all add: join_Cons)

lemma table_line_parts:
  assumes "cols \<noteq> []"
  shows "table_line cols = join ''|'' ([] # map padded cols @ [[]])"
proof -
  have "join ''|'' ([] # map padded cols @ [[]]) = ''|'' @ join ''|'' (map padded cols) @ ''|''"
    using assms by (simp add: join_Cons join_snoc)
  then show ?thesis using join_padded[OF assms] by (simp add: table_line_def)
qed

lemma is_space_blank: "is_space (CHR '' '')"
  by (simp add: is_space_def)

lemma strip_padded:
  assumes "strip c = c"
  shows "strip (padded c) = c"
proof (cases "c = []")
  case False
  have e: "\<not> is_space (hd c)" "\<not> is_space (last c)"
    using strip_no_space_ends[of c] assms False by simp_all
  have "dropWhile is_space (c @ '' '') = c @ '' ''" using e(1) False by (cases c) simp_all
  moreover have "dropWhile is_space (rev c) = rev c" using e(2) False by (simp add: dropWhile_eq_self_iff hd_rev)
  ultimately show ?thesis by (simp add: strip_def padded_def is_space_blank)
qed (simp add: strip_def padded_def is_space_blank)

lemma row_cells_table:
  assumes "cols \<noteq> []" and "list_all plain_cell cols"
  shows "row_cells (table_line cols) = cols"
proof -
  have bar: "CHR ''|'' \<notin> set x" if "x \<in> set ([] # map padded cols @ [[]])" for x
    using that assms(2) by (auto simp: padded_def plain_cell_def list_all_iff)
  have "split_on (CHR ''|'') (table_line cols) = [] # map padded cols @ [[]]"
    unfolding table_line_parts[OF assms(1)] by (rule split_on_join) (use bar in simp_all)
  moreover have "map (strip \<circ> padded) cols = cols"
    by (rule map_idI) (use assms(2) strip_padded in \<open>auto simp: list_all_iff plain_cell_def\<close>)
  ultimately show ?thesis by (simp add: row_cells_def butlast_append)
qed

section \<open>Numbers in cells\<close>

definition read_number :: "string \<Rightarrow> int res" where
  "read_number c = py_int (filter (\<lambda>x. x \<noteq> CHR '','') c)"

lemma read_number_commas: "read_number (commas i) = Inr i"
  by (simp add: read_number_def commas_filter py_int_str)

lemma read_number_str: "read_number (str_int i) = Inr i"
proof -
  have "filter (\<lambda>x. x \<noteq> CHR '','') (str_int i) = str_int i"
    by (rule filter_True) (auto dest: str_int_chars simp: is_digit_def)
  then show ?thesis by (simp add: read_number_def py_int_str)
qed

text \<open>The difference cells, a literal plus and the number.\<close>

lemma number_chars_no_space:
  "is_digit c \<or> c = CHR '','' \<or> c = CHR ''-'' \<or> c = CHR ''+'' \<Longrightarrow> \<not> is_space c \<and> c \<noteq> CHR ''|'' \<and> c \<noteq> CHR ''_''"
proof (elim disjE)
  assume "is_digit c"
  then show ?thesis using is_digit_not_space[of c] by (auto simp: is_digit_def)
qed (simp_all add: is_space_def)

lemma plain_cell_chars:
  assumes "\<And>c. c \<in> set s \<Longrightarrow> is_digit c \<or> c = CHR '','' \<or> c = CHR ''-'' \<or> c = CHR ''+''"
  shows "plain_cell s"
proof -
  have n: "\<not> is_space c \<and> c \<noteq> CHR ''|''" if "c \<in> set s" for c
    using number_chars_no_space[OF assms[OF that]] by simp
  have "strip s = s"
    by (rule strip_id) (use n hd_in_set[of s] last_in_set[of s] in blast)
  then show ?thesis using n by (auto simp: plain_cell_def)
qed

lemma plain_commas [simp]: "plain_cell (commas i)" "plain_cell (CHR ''+'' # commas i)"
  by (rule plain_cell_chars; auto dest: commas_chars)+

lemma plain_str_int [simp]: "plain_cell (str_int i)"
  by (rule plain_cell_chars) (auto dest: str_int_chars)

lemma plain_Nil [simp]: "plain_cell []"
  by (simp add: plain_cell_def strip_def)

lemma read_number_plus:
  "0 \<le> i \<Longrightarrow> read_number (CHR ''+'' # commas i) = Inr i"
  "i < 0 \<Longrightarrow> \<exists>e. read_number (CHR ''+'' # commas i) = Inl e"
proof -
  have f: "filter (\<lambda>x. x \<noteq> CHR '','') (CHR ''+'' # commas i) = CHR ''+'' # str_int i"
    by (simp add: commas_filter)
  have st: "strip (CHR ''+'' # str_int i) = CHR ''+'' # str_int i"
    using plain_cell_chars[of "CHR ''+'' # str_int i"] str_int_chars by (auto simp: plain_cell_def)
  have dig: "is_digit c" if "c \<in> set (str_nat n)" for c n using that by (rule str_nat_digits)
  show "0 \<le> i \<Longrightarrow> read_number (CHR ''+'' # commas i) = Inr i"
    using int_literal_digits[OF str_nat_nonempty[of "nat i"] dig] filter_digits[of "str_nat (nat i)", OF dig]
    unfolding read_number_def f py_int_def Let_def st by (simp add: str_int_def)
  show "i < 0 \<Longrightarrow> \<exists>e. read_number (CHR ''+'' # commas i) = Inl e"
  proof -
    assume "i < 0"
    moreover have "\<not> int_literal (CHR ''-'' # s)" for s by (cases s) (auto simp: is_digit_def)
    ultimately show ?thesis unfolding read_number_def f py_int_def Let_def st by (simp add: str_int_def)
  qed
qed

end
