(* ===== verification/Sizes.thy ===== *)
theory Sizes
  imports Der Effects Json Tables
begin

text \<open>
  \<open>gen/sizes.py\<close>: the size of every certificate of the corpus, split into public
  key, signature and the rest, and the tables made of it.  The \<open>openssl\<close> program is a
  parameter: what it prints for a command line and its input, or the exception of
  \<open>check=True\<close>; \<open>ssl_root\<close> is the checkout it sees.
  \<open>measure\<close> is checked against certificates built with the DER writer; \<open>sizes_main\<close>
  is the script with its two output files.
\<close>

section \<open>The external tool\<close>

record openssl =
  ssl_root :: string
  ssl_run :: "string list \<Rightarrow> bytes \<Rightarrow> bytes res"

definition cert_der :: "openssl \<Rightarrow> path \<Rightarrow> bytes res" where
  "cert_der tool p = ssl_run tool [''openssl'', ''x509'', ''-in'', abs_path (ssl_root tool) p, ''-outform'', ''DER''] []"

definition spki_bytes :: "openssl \<Rightarrow> path \<Rightarrow> int res" where
  "spki_bytes tool p =
     rbind (ssl_run tool [''openssl'', ''x509'', ''-in'', abs_path (ssl_root tool) p, ''-pubkey'', ''-noout''] []) (\<lambda>pub.
     rbind (ssl_run tool [''openssl'', ''pkey'', ''-pubin'', ''-outform'', ''DER''] pub) (\<lambda>der.
     Inr (int (length der))))"

section \<open>Measuring one certificate\<close>

record cert_sizes =
  cs_file :: string
  cs_total :: int
  cs_spki :: int
  cs_signature :: int
  cs_other :: int

definition measure_cert :: "openssl \<Rightarrow> path \<Rightarrow> cert_sizes res" where
  "measure_cert tool p =
     rbind (cert_der tool p) (\<lambda>der.
     rbind (byte_at der 0) (\<lambda>tag.
     rbind (py_assert (tag = 0x30) '''') (\<lambda>_.
     rbind (byte_at der 1) (\<lambda>length0.
     let j = (if unat length0 AND 0x80 \<noteq> 0 then 2 + (unat length0 AND 0x7F) else 2) in
     rbind (der_children (drop j der)) (\<lambda>children.
     rbind (py_assert (length children = 3) (abs_path (ssl_root tool) p @ '': expected 3 top-level elements'')) (\<lambda>_.
     let sig_content = snd (children ! 2); sig = int (length sig_content) - 1 in
     rbind (spki_bytes tool p) (\<lambda>spki.
     let total = int (length der) in
     Inr \<lparr>cs_file = path_str p, cs_total = total, cs_spki = spki, cs_signature = sig,
          cs_other = total - spki - sig\<rparr>)))))))"

section \<open>The tables\<close>

type_synonym size_row = "string \<times> cert_sizes"

definition row_json :: "size_row \<Rightarrow> json" where
  "row_json r = JObj [(''chain'', JStr (fst r)), (''file'', JStr (cs_file (snd r))),
     (''total'', JInt (cs_total (snd r))), (''spki'', JInt (cs_spki (snd r))),
     (''signature'', JInt (cs_signature (snd r))), (''other'', JInt (cs_other (snd r)))]"

text \<open>\<open>Path(file).stem\<close>: the last component without its last suffix.\<close>

definition path_stem :: "string \<Rightarrow> string" where
  "path_stem f = (let n = last (split_on (CHR ''/'') f);
     ext = takeWhile (\<lambda>c. c \<noteq> CHR ''.'') (rev n); base = rev (drop (Suc (length ext)) (rev n)) in
     if ext = [] \<or> base = [] then n else base)"

type_synonym size_table = "(string \<times> string, cert_sizes) dict"

definition size_table :: "size_row list \<Rightarrow> size_table" where
  "size_table rows = dict_of (map (\<lambda>r. ((fst r, path_stem (cs_file (snd r))), snd r)) rows)"

definition tuple_key :: "string \<Rightarrow> string \<Rightarrow> string" where
  "tuple_key a b = ''('' @ [CHR 0x27] @ a @ [CHR 0x27] @ '', '' @ [CHR 0x27] @ b @ [CHR 0x27] @ '')''"

definition by_get :: "size_table \<Rightarrow> string \<Rightarrow> string \<Rightarrow> cert_sizes res" where
  "by_get tbl c s = (case map_of tbl (c, s) of None \<Rightarrow> Inl (KeyError (tuple_key c s)) | Some r \<Rightarrow> Inr r)"

definition size_cell :: "size_table \<Rightarrow> string \<Rightarrow> string \<Rightarrow> string" where
  "size_cell tbl c s = (case map_of tbl (c, s) of None \<Rightarrow> '''' | Some r \<Rightarrow> commas (cs_total r))"

definition table_chains :: "string list" where
  "table_chains = [''ecdsa'', ''mldsa44'', ''mldsa65'', ''mldsa87'', ''slhroot'', ''mixed'']"

definition cert_line :: "size_table \<Rightarrow> string \<Rightarrow> string res" where
  "cert_line tbl c = (case map_of tbl (c, ''leaf'') of None \<Rightarrow> Inl TypeError
     | Some leaf \<Rightarrow> Inr (''| '' @ c @ '' | '' @ size_cell tbl c ''root'' @ '' | '' @ size_cell tbl c ''int''
         @ '' | '' @ size_cell tbl c ''leaf'' @ '' | '' @ commas (cs_spki leaf) @ '' | ''
         @ commas (cs_signature leaf) @ '' |''))"

definition catalyst_lines :: "size_table \<Rightarrow> string list" where
  "catalyst_lines tbl = (case map_of tbl (''catalyst'', ''leaf'') of None \<Rightarrow> []
     | Some cat \<Rightarrow> [''| catalyst | (ECDSA CA) | | '' @ commas (cs_total cat) @ '' | ''
         @ commas (cs_spki cat) @ '' | '' @ commas (cs_signature cat) @ '' |''])"

definition wire_cost :: "size_table \<Rightarrow> string \<Rightarrow> int res" where
  "wire_cost tbl c = rbind (by_get tbl c ''int'') (\<lambda>i. rbind (by_get tbl c ''leaf'') (\<lambda>l.
     Inr (cs_total i + cs_total l)))"

definition wire_line :: "size_table \<Rightarrow> int \<Rightarrow> string \<Rightarrow> string res" where
  "wire_line tbl control c = rbind (wire_cost tbl c) (\<lambda>wire.
     Inr (''| '' @ c @ '' | '' @ commas wire @ '' | +'' @ commas (wire - control) @ '' |''))"

definition san_ladder :: "(nat \<times> string) list" where
  "san_ladder = [(1, ''leaf''), (10, ''leaf-san10''), (50, ''leaf-san50''), (150, ''leaf-san150'')]"

definition san_line :: "size_table \<Rightarrow> nat \<times> string \<Rightarrow> string res" where
  "san_line tbl ns = rbind (by_get tbl ''ecdsa'' (snd ns)) (\<lambda>e. rbind (by_get tbl ''mldsa65'' (snd ns)) (\<lambda>m.
     Inr (''| '' @ str_nat (fst ns) @ '' | '' @ commas (cs_total e) @ '' | '' @ commas (cs_total m)
       @ '' | +'' @ commas (cs_total m - cs_total e) @ '' |'')))"

definition sizes_md :: "size_table \<Rightarrow> string list res" where
  "sizes_md tbl =
     rbind (traverse (cert_line tbl) table_chains) (\<lambda>certs.
     rbind (wire_cost tbl ''ecdsa'') (\<lambda>control.
     rbind (traverse (wire_line tbl control) table_chains) (\<lambda>wires.
     rbind (traverse (san_line tbl) san_ladder) (\<lambda>sans.
     Inr ([''# Corpus sizes (bytes, DER)'', '''',
           ''Generated by `gen/sizes.py` from `gen/sizes.json`. Do not hand-edit.'', '''',
           ''## Certificates (1 SAN)'', '''',
           ''| Chain | Root | Intermediate | Leaf | Leaf SPKI | Leaf signature |'',
           ''|---|---|---|---|---|---|'']
       @ certs @ catalyst_lines tbl
       @ ['''', ''## Wire cost (intermediate + leaf, what a TLS server sends)'', '''',
          ''| Chain | Bytes | Delta vs control |'', ''|---|---|---|'']
       @ wires
       @ ['''', ''## SAN ladder (leaf total bytes)'', '''',
          ''| SANs | ecdsa | mldsa65 | delta |'', ''|---|---|---|---|'']
       @ sans)))))"

section \<open>The script\<close>

text \<open>
  \<open>listing\<close> is what \<open>CHAINS.iterdir()\<close> yields, each directory with the names in it.
\<close>

definition crt_names :: "string list \<Rightarrow> string list" where
  "crt_names ns = sort (filter (\<lambda>n. ends_with n ''.crt'') ns)"

definition measure_dir :: "openssl \<Rightarrow> string \<times> string list \<Rightarrow> size_row list res" where
  "measure_dir tool d = traverse (\<lambda>n. rbind (measure_cert tool [''gen'', ''chains'', fst d, n]) (\<lambda>m.
     Inr (fst d, m))) (crt_names (snd d))"

definition catalyst_path :: path where
  "catalyst_path = [''phase0'', ''chains'', ''catalyst'', ''leaf.crt'']"

definition corpus_rows :: "openssl \<Rightarrow> (string \<times> string list) list \<Rightarrow> bool \<Rightarrow> size_row list res" where
  "corpus_rows tool listing catalyst_exists =
     rbind (traverse (measure_dir tool) (sort_key fst listing)) (\<lambda>rss.
       if catalyst_exists
       then rbind (measure_cert tool catalyst_path) (\<lambda>m. Inr (concat rss @ [(''catalyst'', m)]))
       else Inr (concat rss))"

definition sizes_main :: "openssl \<Rightarrow> (string \<times> string list) list \<Rightarrow> ('x world_scheme, unit) eff" where
  "sizes_main tool listing =
     ebind (exists_file catalyst_path) (\<lambda>ex.
     ebind (lift (corpus_rows tool listing ex)) (\<lambda>rows.
     eseq (write_file [''gen'', ''sizes.json''] (dumps_indent 0 (JList (map row_json rows)) @ [CHR 0x0A])) (
     ebind (lift (sizes_md (size_table rows))) (\<lambda>md.
     eseq (write_file [''SIZES.md''] (join [CHR 0x0A] md @ [CHR 0x0A])) (
     print (str_nat (length rows) @ '' certs measured; sizes.json and SIZES.md written''))))))"

section \<open>Measuring is right\<close>

text \<open>The header skip of \<open>measure\<close> is the reader's: it stops where the content starts.\<close>

lemma header_skip:
  assumes "n < 256 ^ 127" and "der_len n = Inr (b # h)"
  shows "(if unat b AND 128 \<noteq> 0 then 2 + (unat b AND 127) else 2) = 2 + length h"
  using der_length_der_len[OF assms, of "[]" "[]"]
  by (auto simp: der_length_def byte_at_def Let_def split: if_splits)

text \<open>A certificate as X.509 encodes it: three elements inside one SEQUENCE.\<close>

definition cert_encoding :: "bytes \<Rightarrow> bytes \<Rightarrow> bytes \<Rightarrow> bytes" where
  "cert_encoding tbs alg sig = tlv (0x30, tlv (0x30, tbs) @ tlv (0x30, alg) @ tlv (0x03, 0 # sig))"

lemma length_tlv_ge: "length (snd x) \<le> length (tlv x)"
  by (simp add: tlv_def)

text \<open>On such an encoding the three elements are read and the header is skipped.\<close>

lemma measure_cert_encoding:
  assumes der: "cert_der tool p = Inr (cert_encoding tbs alg sig)"
    and spki: "spki_bytes tool p = Inr k"
    and small: "length (cert_encoding tbs alg sig) < 256 ^ 127"
  shows "measure_cert tool p = Inr \<lparr>cs_file = path_str p,
     cs_total = int (length (cert_encoding tbs alg sig)), cs_spki = k, cs_signature = int (length sig),
     cs_other = int (length (cert_encoding tbs alg sig)) - k - int (length sig)\<rparr>"
proof -
  define kids where "kids = [(0x30 :: byte, tbs), (0x30, alg), (0x03, 0 # sig)]"
  define body where "body = concat (map tlv kids)"
  have enc: "cert_encoding tbs alg sig = tlv (0x30, body)"
    by (simp add: cert_encoding_def body_def kids_def)
  have body: "length body < 256 ^ 127"
    using small length_tlv_ge[of "(0x30, body)"] by (simp add: enc)
  have "length (snd x) < 256 ^ 127" if "x \<in> set kids" for x
    using that body length_tlv_ge[of x] by (auto simp: body_def kids_def)
  then have kids: "der_children body = Inr kids"
    unfolding body_def by (rule der_children_concat)
  obtain h where h: "der_len (length body) = Inr h" "h \<noteq> []" using der_len_Inr[OF body] by blast
  then obtain b r where r: "h = b # r" by (cases h) auto
  have e: "cert_encoding tbs alg sig = 0x30 # b # r @ body"
    by (simp add: enc tlv_def h r)
  have "drop (2 + length r) (cert_encoding tbs alg sig) = body" by (simp add: e)
  then show ?thesis
    using header_skip[OF body h(1)[unfolded r]] der spki kids
    by (simp add: measure_cert_def byte_at_def e Let_def kids_def)
qed

text \<open>With anything appended, the encoding is refused.\<close>

lemma measure_cert_trailing:
  assumes "cert_der tool p = Inr (cert_encoding tbs alg sig @ extra)" and "extra \<noteq> []"
    and "length (cert_encoding tbs alg sig) < 256 ^ 127"
  shows "\<exists>e. measure_cert tool p = Inl e"
proof -
  define kids where "kids = [(0x30 :: byte, tbs), (0x30, alg), (0x03, 0 # sig)]"
  define body where "body = concat (map tlv kids)"
  have enc: "cert_encoding tbs alg sig = tlv (0x30, body)"
    by (simp add: cert_encoding_def body_def kids_def)
  have body: "length body < 256 ^ 127"
    using assms(3) length_tlv_ge[of "(0x30, body)"] by (simp add: enc)
  have small: "length (snd x) < 256 ^ 127" if "x \<in> set kids" for x
    using that body length_tlv_ge[of x] by (auto simp: body_def kids_def)
  obtain h where h: "der_len (length body) = Inr h" "h \<noteq> []" using der_len_Inr[OF body] by blast
  then obtain b r where r: "h = b # r" by (cases h) auto
  have e: "cert_encoding tbs alg sig @ extra = 0x30 # b # r @ body @ extra"
    by (simp add: enc tlv_def h r)
  have "der_children (body @ extra) \<noteq> Inr ys" if "length ys = 3" for ys
    using der_children_concat_append[of kids extra, OF small] that assms(2)
      der_children_from_ne[of "length body" "body @ extra"]
    by (cases "der_children_from (body @ extra) (length body)") (auto simp: body_def kids_def)
  moreover have "drop (2 + length r) (0x30 # b # r @ body @ extra) = body @ extra" by simp
  ultimately have "measure_cert tool p \<noteq> Inr m" for m
    using header_skip[OF body h(1)[unfolded r]] assms(1)
    by (auto simp: measure_cert_def byte_at_def e Let_def res_simps)
  then show ?thesis by (cases "measure_cert tool p") auto
qed

text \<open>What any successful measurement says of the bytes it read.\<close>

lemma measure_cert_sound:
  assumes "measure_cert tool p = Inr m"
  obtains der j children where "cert_der tool p = Inr der" "der ! 0 = 0x30" "der_children (drop j der) = Inr children"
    "length children = 3" "cs_total m = int (length der)" "2 \<le> j" "2 \<le> length der"
    "cs_signature m = int (length (snd (children ! 2))) - 1"
    "spki_bytes tool p = Inr (cs_spki m)" "cs_file m = path_str p"
    "cs_other m = cs_total m - cs_spki m - cs_signature m"
  using assms by (auto simp: measure_cert_def res_simps Let_def byte_at_def split: if_splits)

lemma der_weight_three:
  "length xs = 3 \<Longrightarrow> 6 + length (snd (xs ! 2)) \<le> der_weight xs"
  by (auto simp: numeral_3_eq_3 length_Suc_conv)

lemma measure_cert_partition:
  assumes "measure_cert tool p = Inr m"
  shows "cs_total m = cs_spki m + cs_signature m + cs_other m"
    and "- 1 \<le> cs_signature m" and "cs_signature m + 9 \<le> cs_total m"
proof -
  obtain der j children where d: "der_children (drop j der) = Inr children" "length children = 3"
      "cs_total m = int (length der)" "2 \<le> j" "2 \<le> length der"
      "cs_signature m = int (length (snd (children ! 2))) - 1"
      "cs_other m = cs_total m - cs_spki m - cs_signature m"
    using assms by (rule measure_cert_sound)
  have "der_weight children \<le> length der - j"
    using der_children_from_weight[of "drop j der" 0 children] d(1) by (simp add: der_children_def)
  then have "6 + length (snd (children ! 2)) \<le> length der - j"
    using der_weight_three[OF d(2)] by simp
  then show "cs_signature m + 9 \<le> cs_total m" using d by linarith
  show "cs_total m = cs_spki m + cs_signature m + cs_other m" "- 1 \<le> cs_signature m"
    using d by auto
qed

text \<open>Every row of the corpus is a measurement.\<close>

lemma corpus_rows_measured:
  assumes "corpus_rows tool listing ex = Inr rows" and "r \<in> set rows"
  shows "\<exists>p. measure_cert tool p = Inr (snd r)"
proof -
  have dir: "\<exists>p. measure_cert tool p = Inr (snd q)" if m: "measure_dir tool d = Inr qs" "q \<in> set qs" for d q qs
  proof -
    obtain n where "rbind (measure_cert tool [''gen'', ''chains'', fst d, n]) (\<lambda>m. Inr (fst d, m)) = Inr q"
      using traverse_set[OF m[unfolded measure_dir_def]] by blast
    then show ?thesis by (auto simp: res_simps)
  qed
  from assms(1) obtain rss where rss: "traverse (measure_dir tool) (sort_key fst listing) = Inr rss"
      "set rows \<subseteq> set (concat rss) \<union> {q. measure_cert tool catalyst_path = Inr (snd q)}"
    by (auto simp: corpus_rows_def res_simps split: if_splits)
  consider "r \<in> set (concat rss)" | "measure_cert tool catalyst_path = Inr (snd r)" using rss(2) assms(2) by blast
  then show ?thesis
  proof cases
    case 1
    then obtain qs where qs: "qs \<in> set rss" "r \<in> set qs" by auto
    obtain d where "measure_dir tool d = Inr qs" using traverse_set[OF rss(1) qs(1)] by blast
    then show ?thesis using dir qs(2) by blast
  qed blast
qed

section \<open>The tables read back\<close>

text \<open>An empty cell stands for a certificate that is not there.\<close>

definition read_optional :: "string \<Rightarrow> int option res" where
  "read_optional c = (if c = [] then Inr None else rbind (read_number c) (\<lambda>i. Inr (Some i)))"

definition cert_shown :: "size_table \<Rightarrow> string \<Rightarrow> string \<Rightarrow> bool" where
  "cert_shown tbl c l \<longleftrightarrow> (\<exists>leaf cs. map_of tbl (c, ''leaf'') = Some leaf \<and> row_cells l = c # cs
     \<and> traverse read_optional cs = Inr [map_option cs_total (map_of tbl (c, ''root'')),
         map_option cs_total (map_of tbl (c, ''int'')), Some (cs_total leaf), Some (cs_spki leaf), Some (cs_signature leaf)])"

text \<open>The line of the catalyst certificate: the names, an empty cell and the three numbers.\<close>

definition catalyst_shown :: "cert_sizes \<Rightarrow> string \<Rightarrow> bool" where
  "catalyst_shown cat l \<longleftrightarrow> (\<exists>x y z. row_cells l = [''catalyst'', ''(ECDSA CA)'', '''', x, y, z]
     \<and> read_number x = Inr (cs_total cat) \<and> read_number y = Inr (cs_spki cat)
     \<and> read_number z = Inr (cs_signature cat))"

text \<open>A difference: the number when it is not negative, otherwise no number.\<close>

definition delta_shown :: "int \<Rightarrow> string \<Rightarrow> bool" where
  "delta_shown d x \<longleftrightarrow> (if 0 \<le> d then read_number x = Inr d else isl (read_number x))"

definition wire_shown :: "size_table \<Rightarrow> string \<Rightarrow> string \<Rightarrow> bool" where
  "wire_shown tbl c l \<longleftrightarrow> (\<exists>i e wire control x y. map_of tbl (c, ''int'') = Some i \<and> map_of tbl (c, ''leaf'') = Some e
     \<and> wire = cs_total i + cs_total e \<and> wire_cost tbl ''ecdsa'' = Inr control
     \<and> row_cells l = [c, x, y] \<and> read_number x = Inr wire \<and> delta_shown (wire - control) y)"

definition san_shown :: "size_table \<Rightarrow> nat \<times> string \<Rightarrow> string \<Rightarrow> bool" where
  "san_shown tbl ns l \<longleftrightarrow> (\<exists>e m n x y z. map_of tbl (''ecdsa'', snd ns) = Some e \<and> map_of tbl (''mldsa65'', snd ns) = Some m
     \<and> row_cells l = [n, x, y, z] \<and> read_number n = Inr (int (fst ns)) \<and> read_number x = Inr (cs_total e)
     \<and> read_number y = Inr (cs_total m) \<and> delta_shown (cs_total m - cs_total e) z)"

lemma commas_nonempty: "commas i \<noteq> []"
proof
  assume "commas i = []"
  then have "read_number [] = Inr i" using read_number_commas[of i] by simp
  then show False by (simp add: read_number_def py_int_def strip_def)
qed

lemma read_optional_commas: "read_optional (commas i) = Inr (Some i)"
  by (simp add: read_optional_def commas_nonempty read_number_commas)

lemma size_cell_read: "read_optional (size_cell tbl c k) = Inr (map_option cs_total (map_of tbl (c, k)))"
    "plain_cell (size_cell tbl c k)"
  by (auto simp: size_cell_def read_optional_commas split: option.splits) (simp add: read_optional_def)

lemma delta_shown_plus: "delta_shown d (CHR ''+'' # commas d)"
  using read_number_plus[of d] by (auto simp: delta_shown_def isl_def)

lemma by_get_Inr: "by_get tbl c k = Inr r \<longleftrightarrow> map_of tbl (c, k) = Some r"
  by (simp add: by_get_def split: option.splits)

lemma table_chains_plain: "c \<in> set table_chains \<Longrightarrow> plain_cell c"
  by (auto simp: table_chains_def plain_cell_def strip_def is_space_def)

lemma cert_line_shown:
  assumes "cert_line tbl c = Inr l" and "plain_cell c"
  shows "cert_shown tbl c l"
proof -
  obtain leaf where leaf: "map_of tbl (c, ''leaf'') = Some leaf"
    using assms(1) by (auto simp: cert_line_def split: option.splits)
  let ?cs = "[size_cell tbl c ''root'', size_cell tbl c ''int'', size_cell tbl c ''leaf'', commas (cs_spki leaf),
      commas (cs_signature leaf)]"
  have "l = table_line (c # ?cs)" using assms(1) by (simp add: cert_line_def leaf table_line_def)
  moreover have "row_cells (table_line (c # ?cs)) = c # ?cs"
    by (rule row_cells_table) (simp_all add: assms(2) size_cell_read)
  ultimately show ?thesis unfolding cert_shown_def
    by (intro exI[of _ leaf] exI[of _ ?cs]) (simp add: leaf size_cell_read read_optional_commas)
qed

lemma plain_strip_padded: "plain_cell c \<Longrightarrow> strip (padded c) = c"
  by (simp add: plain_cell_def strip_padded)

lemma catalyst_line_cells:
  assumes "plain_cell x" and "plain_cell y" and "plain_cell z"
  shows "row_cells (''| catalyst | (ECDSA CA) | | '' @ x @ '' | '' @ y @ '' | '' @ z @ '' |'')
    = [''catalyst'', ''(ECDSA CA)'', '''', x, y, z]"
proof -
  let ?ps = "[[], '' catalyst '', '' (ECDSA CA) '', '' '', padded x, padded y, padded z, []]"
  have line: "''| catalyst | (ECDSA CA) | | '' @ x @ '' | '' @ y @ '' | '' @ z @ '' |'' = join ''|'' ?ps"
    by (simp add: padded_def)
  have "split_on (CHR ''|'') (join ''|'' ?ps) = ?ps"
    by (rule split_on_join) (use assms in \<open>auto simp: plain_cell_def padded_def\<close>)
  moreover have "strip '' catalyst '' = ''catalyst''" "strip '' (ECDSA CA) '' = ''(ECDSA CA)''" "strip '' '' = ''''"
    by (simp_all add: strip_def is_space_def)
  ultimately show ?thesis unfolding row_cells_def line by (simp only:) (simp add: plain_strip_padded assms)
qed

lemma catalyst_line_shown:
  "case map_of tbl (''catalyst'', ''leaf'') of None \<Rightarrow> catalyst_lines tbl = []
   | Some cat \<Rightarrow> (\<exists>l. catalyst_lines tbl = [l] \<and> catalyst_shown cat l)"
proof (cases "map_of tbl (''catalyst'', ''leaf'')")
  case (Some cat)
  then show ?thesis
    using catalyst_line_cells[of "commas (cs_total cat)" "commas (cs_spki cat)" "commas (cs_signature cat)"]
    by (simp add: catalyst_lines_def catalyst_shown_def read_number_commas)
qed (simp add: catalyst_lines_def)

lemma wire_line_shown:
  assumes "wire_line tbl control c = Inr l" and "wire_cost tbl ''ecdsa'' = Inr control" and "plain_cell c"
  shows "wire_shown tbl c l"
proof -
  obtain i e where e: "map_of tbl (c, ''int'') = Some i" "map_of tbl (c, ''leaf'') = Some e"
      "l = table_line [c, commas (cs_total i + cs_total e), CHR ''+'' # commas (cs_total i + cs_total e - control)]"
    using assms(1) by (auto simp: wire_line_def wire_cost_def rbind_Inr_iff by_get_Inr table_line_def)
  have "row_cells l = [c, commas (cs_total i + cs_total e), CHR ''+'' # commas (cs_total i + cs_total e - control)]"
    unfolding e(3) by (rule row_cells_table) (simp_all add: assms(3))
  then show ?thesis unfolding wire_shown_def using e(1,2) assms(2) read_number_commas delta_shown_plus by blast
qed

lemma san_line_shown:
  assumes "san_line tbl ns = Inr l"
  shows "san_shown tbl ns l"
proof -
  obtain e m where e: "map_of tbl (''ecdsa'', snd ns) = Some e" "map_of tbl (''mldsa65'', snd ns) = Some m"
      "l = table_line [str_int (int (fst ns)), commas (cs_total e), commas (cs_total m),
         CHR ''+'' # commas (cs_total m - cs_total e)]"
    using assms by (auto simp: san_line_def rbind_Inr_iff by_get_Inr table_line_def str_int_def)
  have "row_cells l = [str_int (int (fst ns)), commas (cs_total e), commas (cs_total m),
         CHR ''+'' # commas (cs_total m - cs_total e)]"
    unfolding e(3) by (rule row_cells_table) simp_all
  then show ?thesis unfolding san_shown_def
    using e(1,2) read_number_commas read_number_str delta_shown_plus by blast
qed

lemma nth_via_take: "take (Suc 0) (drop n xs) = [x] \<Longrightarrow> xs ! n = x"
  by (cases "n < length xs") (auto simp: Cons_nth_drop_Suc[symmetric])

lemma sizes_md_tables:
  assumes "sizes_md tbl = Inr md" and k: "k = length (catalyst_lines tbl)"
  shows "list_all2 (cert_shown tbl) table_chains (take 6 (drop 8 md))"
    and "list_all2 (wire_shown tbl) table_chains (take 6 (drop (19 + k) md))"
    and "list_all2 (san_shown tbl) san_ladder (take 4 (drop (30 + k) md))"
    and "take k (drop 14 md) = catalyst_lines tbl"
proof -
  have "\<exists>certs control wires sans a b c. traverse (cert_line tbl) table_chains = Inr certs \<and> wire_cost tbl ''ecdsa'' = Inr control
      \<and> traverse (wire_line tbl control) table_chains = Inr wires \<and> traverse (san_line tbl) san_ladder = Inr sans
      \<and> a @ certs @ catalyst_lines tbl @ b @ wires @ c @ sans = md \<and> length a = 8 \<and> length b = 5 \<and> length c = 5"
    using assms(1) unfolding sizes_md_def rbind_Inr_iff sum.inject
    by (elim exE conjE) (intro exI conjI, assumption, assumption, assumption, assumption, assumption, simp_all)
  then obtain certs control wires sans a b c where p: "traverse (cert_line tbl) table_chains = Inr certs"
      "wire_cost tbl ''ecdsa'' = Inr control" "traverse (wire_line tbl control) table_chains = Inr wires"
      "traverse (san_line tbl) san_ladder = Inr sans"
      and md: "md = a @ certs @ catalyst_lines tbl @ b @ wires @ c @ sans" and len: "length a = 8" "length b = 5" "length c = 5"
    by blast
  have n: "length certs = 6" "length wires = 6" "length sans = 4"
    using traverse_length[OF p(1)] traverse_length[OF p(3)] traverse_length[OF p(4)]
    by (simp_all add: table_chains_def san_ladder_def)
  have parts: "take 6 (drop 8 md) = certs" "take 6 (drop (19 + k) md) = wires" "take 4 (drop (30 + k) md) = sans"
    by (simp_all add: md len n k)
  have "list_all2 (cert_shown tbl) table_chains certs"
    using p(1) unfolding traverse_list_all2
    by (auto simp: list_all2_conv_all_nth intro!: cert_line_shown table_chains_plain)
  moreover have "list_all2 (wire_shown tbl) table_chains wires"
    using p(3) unfolding traverse_list_all2
    by (auto simp: list_all2_conv_all_nth intro!: wire_line_shown[OF _ p(2)] table_chains_plain)
  moreover have "list_all2 (san_shown tbl) san_ladder sans"
    using p(4) unfolding traverse_list_all2 by (rule list_all2_mono) (rule san_line_shown)
  ultimately show "list_all2 (cert_shown tbl) table_chains (take 6 (drop 8 md))"
    and "list_all2 (wire_shown tbl) table_chains (take 6 (drop (19 + k) md))"
    and "list_all2 (san_shown tbl) san_ladder (take 4 (drop (30 + k) md))"
    by (simp_all add: parts)
  show "take k (drop 14 md) = catalyst_lines tbl" by (simp add: md len n k)
qed

lemma sizes_main_run:
  assumes "sizes_main tool listing s = (Inr (), t)"
  obtains ex rows md where "exists_file catalyst_path s = (Inr ex, s)" "corpus_rows tool listing ex = Inr rows"
    "sizes_md (size_table rows) = Inr md" "files t [''SIZES.md''] = Some (join [CHR 0x0A] md @ [CHR 0x0A])"
  using assms unfolding sizes_main_def
  by (auto simp: run_simps exists_file_def write_file_def print_def split: if_splits)

section \<open>Properties\<close>

text \<open>
  C14: on the DER encoding of a certificate, \<open>measure\<close> reports exactly the length of
  the signature, the length of the whole encoding, and the rest as the difference; bytes
  after the certificate are not measured as if they belonged to it: with anything
  appended, it raises.
\<close>

theorem measure_exact:
  assumes "cert_der tool p = Inr (cert_encoding tbs alg sig @ extra)"
    and "spki_bytes tool p = Inr k"
    and "length (cert_encoding tbs alg sig) < 256 ^ 127"
  shows "case measure_cert tool p of
      Inr m \<Rightarrow> extra = [] \<and> m = \<lparr>cs_file = path_str p,
        cs_total = int (length (cert_encoding tbs alg sig)), cs_spki = k, cs_signature = int (length sig),
        cs_other = int (length (cert_encoding tbs alg sig)) - k - int (length sig)\<rparr>
    | Inl e \<Rightarrow> extra \<noteq> []"
proof (cases "extra = []")
  case True
  then show ?thesis using measure_cert_encoding[of tool p tbs alg sig k] assms by simp
next
  case False
  then show ?thesis using measure_cert_trailing[OF assms(1) False assms(3)] by auto
qed

definition sample_tool :: "bytes \<Rightarrow> openssl" where
  "sample_tool der = \<lparr>ssl_root = ''/r'', ssl_run = (\<lambda>argv inp. Inr (if last argv = ''-noout'' then [112] else if inp = [112] then [1, 2] else der))\<rparr>"

lemma sample_encoding: "cert_encoding [1, 2, 3, 4] [5] [7, 8] = [48, 14, 48, 4, 1, 2, 3, 4, 48, 1, 5, 3, 3, 0, 7, 8]"
  by (simp add: cert_encoding_def tlv_def der_len_def)

theorem measure_exact_witness:
  "(case measure_cert (sample_tool (cert_encoding [1, 2, 3, 4] [5] [7, 8])) [''gen'', ''a.crt''] of
      Inr m \<Rightarrow> m = \<lparr>cs_file = ''gen/a.crt'', cs_total = 16, cs_spki = 2, cs_signature = 2, cs_other = 12\<rparr> | Inl _ \<Rightarrow> True)
   \<and> (case measure_cert (sample_tool (cert_encoding [1, 2, 3, 4] [5] [7, 8] @ [0])) [''gen'', ''a.crt''] of
      Inr _ \<Rightarrow> False | Inl _ \<Rightarrow> True)"
proof
  let ?enc = "cert_encoding [1, 2, 3, 4] [5] [7, 8]" and ?p = "[''gen'', ''a.crt'']"
  show "case measure_cert (sample_tool ?enc) ?p of
      Inr m \<Rightarrow> m = \<lparr>cs_file = ''gen/a.crt'', cs_total = 16, cs_spki = 2, cs_signature = 2, cs_other = 12\<rparr> | Inl _ \<Rightarrow> True"
    using measure_exact[of "sample_tool ?enc" ?p "[1, 2, 3, 4]" "[5]" "[7, 8]" "[]" 2]
    by (simp add: sample_encoding sample_tool_def cert_der_def spki_bytes_def path_str_def split: sum.splits)
  show "case measure_cert (sample_tool (?enc @ [0])) ?p of Inr _ \<Rightarrow> False | Inl _ \<Rightarrow> True"
    using measure_exact[of "sample_tool (?enc @ [0])" ?p "[1, 2, 3, 4]" "[5]" "[7, 8]" "[0]" 2]
    by (simp add: sample_encoding sample_tool_def cert_der_def spki_bytes_def split: sum.splits)
qed

text \<open>
  C15: the tables of \<open>SIZES.md\<close> read back as the measurements.  After a run that ends
  normally, the line of each of the six chains in the certificate table holds the totals
  of root, intermediate and leaf (an empty cell for one that is missing), the leaf's key
  and signature; a seventh line holds the total, the key and the signature of the
  catalyst certificate when one was measured, and there is none otherwise; a line of the
  wire table holds the sum of intermediate and leaf; of the SAN ladder the two totals.  The
  differences read back when they are not negative; a negative one is printed after a
  literal plus and is no number.
\<close>

theorem sizes_tables_read_back:
  assumes "sizes_main tool listing s = (Inr (), t)"
  shows "\<exists>ex rows md tbl k. exists_file catalyst_path s = (Inr ex, s) \<and> corpus_rows tool listing ex = Inr rows
    \<and> tbl = size_table rows
    \<and> (case map_of tbl (''catalyst'', ''leaf'') of None \<Rightarrow> k = 0
       | Some cat \<Rightarrow> k = 1 \<and> catalyst_shown cat (md ! 14))
    \<and> files t [''SIZES.md''] = Some (join [CHR 0x0A] md @ [CHR 0x0A])
    \<and> list_all2 (cert_shown tbl) table_chains (take 6 (drop 8 md))
    \<and> list_all2 (wire_shown tbl) table_chains (take 6 (drop (19 + k) md))
    \<and> list_all2 (san_shown tbl) san_ladder (take 4 (drop (30 + k) md))"
proof -
  obtain ex rows md where r: "exists_file catalyst_path s = (Inr ex, s)" "corpus_rows tool listing ex = Inr rows"
      "sizes_md (size_table rows) = Inr md" "files t [''SIZES.md''] = Some (join [CHR 0x0A] md @ [CHR 0x0A])"
    using assms by (rule sizes_main_run)
  define tbl where "tbl = size_table rows"
  define k where "k = length (catalyst_lines tbl)"
  note t = sizes_md_tables[OF r(3) refl, folded tbl_def, folded k_def]
  have "case map_of tbl (''catalyst'', ''leaf'') of None \<Rightarrow> k = 0 | Some cat \<Rightarrow> k = 1 \<and> catalyst_shown cat (md ! 14)"
    using catalyst_line_shown[of tbl] t(4)
    by (auto simp: k_def split: option.splits) (metis nth_via_take)
  then show ?thesis using r(1,2,4) t(1-3) tbl_def by blast
qed

definition full_listing :: "(string \<times> string list) list" where
  "full_listing = map (\<lambda>c. (c, map (\<lambda>n. n @ ''.crt'') ([''int''] @ (if c \<in> {''ecdsa'', ''mldsa65''} then
     [''leaf-san10'', ''leaf-san150'', ''leaf-san50''] else []) @ [''leaf'', ''root'']))) (sort table_chains)"

definition full_rows :: "size_row list" where
  "full_rows = concat (map (\<lambda>(c, ns). map (\<lambda>n. (c, \<lparr>cs_file = path_str [''gen'', ''chains'', c, n], cs_total = 16, cs_spki = 2,
     cs_signature = 2, cs_other = 12\<rparr>)) ns) full_listing)
   @ [(''catalyst'', \<lparr>cs_file = path_str catalyst_path, cs_total = 16, cs_spki = 2, cs_signature = 2, cs_other = 12\<rparr>)]"

lemma corpus_rows_const:
  assumes "\<And>p. measure_cert tool p = Inr (M p)"
  shows "corpus_rows tool listing True
    = Inr (concat (map (\<lambda>d. map (\<lambda>n. (fst d, M [''gen'', ''chains'', fst d, n])) (crt_names (snd d))) (sort_key fst listing))
        @ [(''catalyst'', M catalyst_path)])"
proof -
  have ok: "traverse (\<lambda>x. Inr (f x)) xs = Inr (map f xs)" for f :: "'c \<Rightarrow> 'd" and xs
    by (induction xs) simp_all
  have "measure_dir tool = (\<lambda>d. Inr (map (\<lambda>n. (fst d, M [''gen'', ''chains'', fst d, n])) (crt_names (snd d))))"
    by (rule ext) (simp add: measure_dir_def assms ok)
  then show ?thesis by (simp add: corpus_rows_def ok assms)
qed

lemma full_listing_sorted: "sort_key fst full_listing = full_listing" "map (crt_names \<circ> snd) full_listing = map snd full_listing"
  by code_simp+

lemma full_tables: "\<not> isl (sizes_md (size_table full_rows))"
  by code_simp

lemma full_corpus: "corpus_rows (sample_tool (cert_encoding [1, 2, 3, 4] [5] [7, 8])) full_listing True = Inr full_rows"
proof -
  let ?tool = "sample_tool (cert_encoding [1, 2, 3, 4] [5] [7, 8])"
  have "measure_cert ?tool p = Inr \<lparr>cs_file = path_str p, cs_total = 16, cs_spki = 2, cs_signature = 2, cs_other = 12\<rparr>" for p
    using measure_cert_encoding[of ?tool p "[1, 2, 3, 4]" "[5]" "[7, 8]" 2]
    by (simp add: sample_encoding sample_tool_def cert_der_def spki_bytes_def)
  then have "corpus_rows ?tool full_listing True = Inr (concat (map (\<lambda>d. map (\<lambda>n. (fst d, \<lparr>cs_file = path_str
      [''gen'', ''chains'', fst d, n], cs_total = 16, cs_spki = 2, cs_signature = 2, cs_other = 12\<rparr>)) (crt_names (snd d)))
      full_listing) @ [(''catalyst'', \<lparr>cs_file = path_str catalyst_path, cs_total = 16, cs_spki = 2, cs_signature = 2, cs_other = 12\<rparr>)])"
    by (simp add: corpus_rows_const full_listing_sorted(1))
  moreover have "\<forall>d\<in>set full_listing. crt_names (snd d) = snd d"
    using full_listing_sorted(2) by simp
  ultimately show ?thesis by (simp add: full_rows_def split_def cong: map_cong)
qed

lemma full_catalyst: "map_of (size_table full_rows) (''catalyst'', ''leaf'')
    = Some \<lparr>cs_file = path_str catalyst_path, cs_total = 16, cs_spki = 2, cs_signature = 2, cs_other = 12\<rparr>"
  by code_simp

theorem sizes_tables_read_back_witness:
  "\<exists>t md x y z. sizes_main (sample_tool (cert_encoding [1, 2, 3, 4] [5] [7, 8])) full_listing
     \<lparr>files = (\<lambda>p. if p = catalyst_path then Some [] else None), dirs = {[], [''gen'']}, out = []\<rparr> = (Inr (), t)
    \<and> files t [''SIZES.md''] = Some (join [CHR 0x0A] md @ [CHR 0x0A])
    \<and> list_all2 (cert_shown (size_table full_rows)) table_chains (take 6 (drop 8 md))
    \<and> row_cells (md ! 14) = [''catalyst'', ''(ECDSA CA)'', '''', x, y, z]
    \<and> read_number x = Inr 16 \<and> read_number y = Inr 2 \<and> read_number z = Inr 2"
proof -
  let ?tool = "sample_tool (cert_encoding [1, 2, 3, 4] [5] [7, 8])"
  let ?w = "\<lparr>files = (\<lambda>p. if p = catalyst_path then Some [] else None), dirs = {[], [''gen'']}, out = []\<rparr> :: world"
  obtain md where md: "sizes_md (size_table full_rows) = Inr md"
    using full_tables by (cases "sizes_md (size_table full_rows)") auto
  have yes: "exists_file catalyst_path ?w = (Inr True, ?w)" by (simp add: exists_file_def)
  then have "fst (sizes_main ?tool full_listing ?w) = Inr ()"
    by (simp add: sizes_main_def ebind_def lift_def eseq_def full_corpus md write_file_def print_def)
  then have run: "sizes_main ?tool full_listing ?w = (Inr (), snd (sizes_main ?tool full_listing ?w))" by (metis prod.collapse)
  from sizes_tables_read_back[OF run] obtain ex rows md k where r: "exists_file catalyst_path ?w = (Inr ex, ?w)"
      "corpus_rows ?tool full_listing ex = Inr rows"
      "files (snd (sizes_main ?tool full_listing ?w)) [''SIZES.md''] = Some (join [CHR 0x0A] md @ [CHR 0x0A])"
      "list_all2 (cert_shown (size_table rows)) table_chains (take 6 (drop 8 md))"
      "case map_of (size_table rows) (''catalyst'', ''leaf'') of None \<Rightarrow> k = 0
         | Some cat \<Rightarrow> k = (1::nat) \<and> catalyst_shown cat (md ! 14)"
    by blast
  moreover have "rows = full_rows" using r(1,2) yes full_corpus by simp
  ultimately have "list_all2 (cert_shown (size_table full_rows)) table_chains (take 6 (drop 8 md))"
      "\<exists>x y z. row_cells (md ! 14) = [''catalyst'', ''(ECDSA CA)'', '''', x, y, z]
         \<and> read_number x = Inr 16 \<and> read_number y = Inr 2 \<and> read_number z = Inr 2"
    by (simp_all add: full_catalyst catalyst_shown_def)
  then show ?thesis using run r(3) by blast
qed

end
