(* ===== verification/Pem.thy ===== *)
theory Pem
  imports Py_Bytes
begin

text \<open>
  PEM: the regular expression of \<open>phase3/compressibility.py\<close> (\<open>PEM_RE.findall\<close>) and
  the lenient \<open>base64.b64decode\<close> it feeds.  The search is an instance of the
  \<open>scanner\<close> interface; decoding is a run of the decoder's state machine, which skips
  bytes outside the alphabet, so line wrapping does not matter.
\<close>

section \<open>Searching\<close>

text \<open>The first index at which a pattern occurs.\<close>

fun find_sub :: "'a list \<Rightarrow> 'a list \<Rightarrow> nat option" where
  "find_sub pat [] = (if pat = [] then Some 0 else None)"
| "find_sub pat (x # xs) = (if prefix pat (x # xs) then Some 0 else map_option Suc (find_sub pat xs))"

lemma find_sub_Some: "find_sub pat xs = Some k \<Longrightarrow> prefix pat (drop k xs) \<and> k + length pat \<le> length xs"
proof (induction pat xs arbitrary: k rule: find_sub.induct)
  case (2 pat x xs)
  then show ?case by (cases "prefix pat (x # xs)") (auto dest: prefix_length_le)
qed (auto split: if_splits)

lemma find_sub_least: "find_sub pat xs = Some k \<Longrightarrow> j < k \<Longrightarrow> \<not> prefix pat (drop j xs)"
proof (induction pat xs arbitrary: k j rule: find_sub.induct)
  case (2 pat x xs)
  then show ?case by (cases j) (auto split: if_splits)
qed (auto split: if_splits)

lemma find_sub_skip: "c \<notin> set a \<Longrightarrow> find_sub (c # pat) (a @ (c # pat) @ b) = Some (length a)"
  by (induction a) (auto simp: prefix_def)

lemma find_sub_None_free: "c \<notin> set a \<Longrightarrow> find_sub (c # pat) a = None"
  by (induction a) auto

section \<open>PEM blocks (phase3/compressibility.py, PEM\_RE)\<close>

definition pem_begin :: bytes where
  "pem_begin = ascii ''-----BEGIN CERTIFICATE-----''"

definition pem_end :: bytes where
  "pem_end = ascii ''-----END CERTIFICATE-----''"

text \<open>
  The next match of \<open>BEGIN(.+?)END\<close> at or after \<open>i\<close> with its group: the leftmost
  marker, then the shortest non-empty text before an end marker.  If the leftmost
  marker has no end marker behind it then neither has a later one.
\<close>

definition pem_search :: "bytes \<Rightarrow> nat \<Rightarrow> (bytes \<times> nat) option" where
  "pem_search buf i = (case find_sub pem_begin (drop i buf) of None \<Rightarrow> None
     | Some p \<Rightarrow> (let g = i + p + length pem_begin in
         case drop g buf of [] \<Rightarrow> None
         | c # rest \<Rightarrow> (case find_sub pem_end rest of None \<Rightarrow> None
             | Some q \<Rightarrow> Some (c # take q rest, g + 1 + q + length pem_end))))"

lemma pem_search_advances: "pem_search buf i = Some (x, k) \<Longrightarrow> i < k \<and> k \<le> length buf"
proof -
  assume a: "pem_search buf i = Some (x, k)"
  then obtain p c rest q where p: "find_sub pem_begin (drop i buf) = Some p"
      and rest: "drop (i + p + length pem_begin) buf = c # rest"
      and q: "find_sub pem_end rest = Some q"
      and k: "k = i + p + length pem_begin + 1 + q + length pem_end"
    by (auto simp: pem_search_def Let_def split: option.splits list.splits)
  have "length (c # rest) = length buf - (i + p + length pem_begin)" using rest by (metis length_drop)
  then show ?thesis using find_sub_Some[OF q] k by auto
qed

function pem_findall_from :: "bytes \<Rightarrow> nat \<Rightarrow> bytes list" where
  "pem_findall_from buf i = (case pem_search buf i of None \<Rightarrow> []
     | Some (x, k) \<Rightarrow> x # pem_findall_from buf k)"
  by pat_completeness auto
termination
  by (relation "measure (\<lambda>(buf, i). Suc (length buf) - i)") (auto dest!: pem_search_advances)

declare pem_findall_from.simps [simp del]

definition pem_findall :: "bytes \<Rightarrow> bytes list" where
  "pem_findall buf = pem_findall_from buf 0"

text \<open>A block as it stands in a file: markers around the text, and a line end.\<close>

definition pem_block :: "bytes \<Rightarrow> bytes" where
  "pem_block x = pem_begin @ x @ pem_end @ [0x0A]"

abbreviation dash :: byte where
  "dash \<equiv> 0x2D"

definition pem_text :: "bytes \<Rightarrow> bool" where
  "pem_text x \<longleftrightarrow> x \<noteq> [] \<and> dash \<notin> set x"

lemma pem_markers: "pem_begin = dash # tl pem_begin" "pem_end = dash # tl pem_end"
  by (simp_all add: pem_begin_def pem_end_def ascii_def)

lemma pem_search_block:
  assumes "pem_text x"
  shows "pem_search (pre @ pem_block x @ post) (length pre)
     = Some (x, length pre + length pem_begin + length x + length pem_end)"
proof -
  obtain c y where x: "x = c # y" "dash \<notin> set y" using assms by (cases x) (auto simp: pem_text_def)
  have "find_sub pem_begin (pem_block x @ post) = Some 0"
    using pem_markers(1) by (simp add: pem_block_def) (metis find_sub_skip append_Nil empty_iff list.set(1) list.size(3))
  moreover have "find_sub pem_end (y @ pem_end @ 0x0A # post) = Some (length y)"
    using find_sub_skip[of dash y "tl pem_end" "0x0A # post"] x pem_markers(2) by simp
  ultimately show ?thesis by (simp add: pem_search_def x(1) pem_block_def)
qed

lemma pem_search_skip:
  assumes "i < length buf" and "buf ! i \<noteq> dash"
  shows "pem_search buf (Suc i) = pem_search buf i"
proof -
  have "drop i buf = buf ! i # drop (Suc i) buf" using assms(1) by (simp add: Cons_nth_drop_Suc)
  moreover have "\<not> prefix pem_begin (buf ! i # drop (Suc i) buf)"
    using assms(2) pem_markers(1) by (metis Cons_prefix_Cons)
  ultimately have "find_sub pem_begin (drop i buf) = map_option Suc (find_sub pem_begin (drop (Suc i) buf))"
    by simp
  then show ?thesis by (simp add: pem_search_def split: option.splits)
qed

definition pem_read :: "bytes \<Rightarrow> nat \<Rightarrow> (bytes \<times> nat) option res" where
  "pem_read buf i = Inr (pem_search buf i)"

definition pem_read_all :: "bytes \<Rightarrow> nat \<Rightarrow> bytes list res" where
  "pem_read_all buf i = Inr (pem_findall_from buf i)"

interpretation pem: scanner pem_read pem_read_all pem_block pem_text
proof unfold_locales
  show "pem_read_all buf i = rbind (pem_read buf i) (\<lambda>r. case r of None \<Rightarrow> Inr []
      | Some (x, k) \<Rightarrow> rbind (pem_read_all buf k) (\<lambda>xs. Inr (x # xs)))" for buf i
    by (simp add: pem_read_def pem_read_all_def pem_findall_from.simps[of buf i] split: option.splits)
  show "pem_read buf (length buf) = Inr None" for buf
    using pem_markers(1) by (simp add: pem_read_def pem_search_def)
  fix x :: bytes and pre post :: bytes
  assume ok: "pem_text x"
  let ?buf = "pre @ pem_block x @ post" and ?k = "length pre + length pem_begin + length x + length pem_end"
  have "?buf ! ?k = 0x0A" and "?k < length ?buf" by (simp_all add: pem_block_def nth_append)
  then have "pem_search ?buf (Suc ?k) = pem_search ?buf ?k" by (intro pem_search_skip) auto
  then have "pem_findall_from ?buf ?k = pem_findall_from ?buf (Suc ?k)"
    by (simp add: pem_findall_from.simps[of ?buf ?k] pem_findall_from.simps[of ?buf "Suc ?k"])
  then show "\<exists>k. pem_read ?buf (length pre) = Inr (Some (x, k))
      \<and> pem_read_all ?buf k = pem_read_all ?buf (length pre + length (pem_block x))"
    using pem_search_block[OF ok, of pre post]
    by (intro exI[of _ ?k]) (simp add: pem_read_def pem_read_all_def pem_block_def add.assoc)
qed

lemma pem_findall_blocks:
  "(\<And>x. x \<in> set xs \<Longrightarrow> pem_text x) \<Longrightarrow> pem_findall (concat (map pem_block xs)) = xs"
  using pem.many_render[of xs "[]"] by (simp add: pem_findall_def pem_read_all_def)

end
