(* ===== verification/Base64.thy ===== *)
theory Base64
  imports Pem
begin

text \<open>
  \<open>base64.b64decode\<close> as \<open>phase3/compressibility.py\<close> calls it (\<open>validate=False\<close>): a
  machine over the position in the quadruple, the bits left over and the padding seen.
  Bytes outside the alphabet are skipped, a complete padding ends the input, and input
  that stops inside a quadruple raises.  The encoder is the reference the decoder is
  checked against.
\<close>

definition b64_val :: "byte \<Rightarrow> nat option" where
  "b64_val c = (let n = unat c in
     if 65 \<le> n \<and> n \<le> 90 then Some (n - 65)
     else if 97 \<le> n \<and> n \<le> 122 then Some (n - 71)
     else if 48 \<le> n \<and> n \<le> 57 then Some (n + 4)
     else if n = 43 then Some 62
     else if n = 47 then Some 63
     else None)"

definition b64_char :: "nat \<Rightarrow> byte" where
  "b64_char v = of_nat (if v < 26 then v + 65 else if v < 52 then v + 71 else if v < 62 then v - 4
     else if v = 62 then 43 else 47)"

abbreviation b64_pad :: byte where
  "b64_pad \<equiv> 0x3D"

fun a2b_base64 :: "nat \<Rightarrow> nat \<Rightarrow> nat \<Rightarrow> bytes \<Rightarrow> bytes res" where
  "a2b_base64 q left pads [] = (if q = 0 then Inr [] else Inl (ValueError ''Incorrect padding''))"
| "a2b_base64 q left pads (c # cs) =
     (if c = b64_pad
      then (if 2 \<le> q then (if 4 \<le> q + (pads + 1) then Inr [] else a2b_base64 q left (pads + 1) cs)
            else a2b_base64 q left pads cs)
      else (case b64_val c of
        None \<Rightarrow> a2b_base64 q left pads cs
      | Some v \<Rightarrow>
         (if q = 0 then a2b_base64 1 v 0 cs
          else if q = 1 then rbind (a2b_base64 2 (v mod 16) 0 cs) (\<lambda>r. Inr (of_nat (left * 4 + v div 16) # r))
          else if q = 2 then rbind (a2b_base64 3 (v mod 4) 0 cs) (\<lambda>r. Inr (of_nat (left * 16 + v div 4) # r))
          else rbind (a2b_base64 0 0 0 cs) (\<lambda>r. Inr (of_nat (left * 64 + v) # r)))))"

definition b64decode :: "bytes \<Rightarrow> bytes res" where
  "b64decode s = a2b_base64 0 0 0 s"

fun b64encode :: "bytes \<Rightarrow> bytes" where
  "b64encode [] = []"
| "b64encode [a] = [b64_char (unat a div 4), b64_char (unat a mod 4 * 16), b64_pad, b64_pad]"
| "b64encode [a, b] = [b64_char (unat a div 4), b64_char (unat a mod 4 * 16 + unat b div 16),
     b64_char (unat b mod 16 * 4), b64_pad]"
| "b64encode (a # b # c # r) = b64_char (unat a div 4) # b64_char (unat a mod 4 * 16 + unat b div 16)
     # b64_char (unat b mod 16 * 4 + unat c div 64) # b64_char (unat c mod 64) # b64encode r"

definition b64_significant :: "byte \<Rightarrow> bool" where
  "b64_significant c \<longleftrightarrow> c = b64_pad \<or> b64_val c \<noteq> None"

lemma unat_b64_char: "v < 64 \<Longrightarrow> unat (b64_char v) =
    (if v < 26 then v + 65 else if v < 52 then v + 71 else if v < 62 then v - 4 else if v = 62 then 43 else 47)"
  by (simp add: b64_char_def unat_of_nat del: of_nat_add of_nat_diff)

lemma b64_val_char [simp]: "v < 64 \<Longrightarrow> b64_val (b64_char v) = Some v"
  by (auto simp: b64_val_def Let_def unat_b64_char)

lemma b64_char_not_pad: "v < 64 \<Longrightarrow> b64_char v \<noteq> b64_pad"
  using unat_b64_char[of v] by (auto split: if_splits)

lemma b64_char_not_dash: "v < 64 \<Longrightarrow> b64_char v \<noteq> dash"
  using unat_b64_char[of v] by (auto split: if_splits)

lemma unat_byte: "unat (b :: byte) < 256"
  using unsigned_less[of b] by simp

lemma of_nat_unat_byte: "of_nat (unat b) = (b :: byte)"
  by simp

text \<open>One, two and three octets survive the split into sextets.\<close>

lemma sextets:
  fixes a b c :: byte
  shows "unat a div 4 < 64" "unat a mod 4 * 16 < 64" "unat a mod 4 * 16 + unat b div 16 < 64"
    "unat b mod 16 * 4 < 64" "unat b mod 16 * 4 + unat c div 64 < 64" "unat c mod 64 < 64"
  using unat_byte[of a] unat_byte[of b] unat_byte[of c] by (simp_all add: div_less_iff_less_mult)

lemma octets:
  fixes a b c :: byte
  shows "of_nat (unat a div 4 * 4 + unat a mod 4 * 16 div 16) = a"
    "of_nat (unat a div 4 * 4 + (unat a mod 4 * 16 + unat b div 16) div 16) = a"
    "of_nat ((unat a mod 4 * 16 + unat b div 16) mod 16 * 16 + unat b mod 16 * 4 div 4) = b"
    "of_nat ((unat a mod 4 * 16 + unat b div 16) mod 16 * 16 + (unat b mod 16 * 4 + unat c div 64) div 4) = b"
    "of_nat ((unat b mod 16 * 4 + unat c div 64) mod 4 * 64 + unat c mod 64) = c"
proof -
  have lt: "unat b div 16 < 16" "unat c div 64 < 4"
    using unat_byte[of b] unat_byte[of c] by (simp_all add: div_less_iff_less_mult)
  have d: "(x * 16 + unat b div 16) div 16 = x" "(x * 16 + unat b div 16) mod 16 = unat b div 16"
      "(x * 4 + unat c div 64) div 4 = x" "(x * 4 + unat c div 64) mod 4 = unat c div 64" for x
    using lt by (simp_all add: div_mult_self3)
  show "of_nat (unat a div 4 * 4 + unat a mod 4 * 16 div 16) = a"
    "of_nat (unat a div 4 * 4 + (unat a mod 4 * 16 + unat b div 16) div 16) = a"
    "of_nat ((unat a mod 4 * 16 + unat b div 16) mod 16 * 16 + unat b mod 16 * 4 div 4) = b"
    "of_nat ((unat a mod 4 * 16 + unat b div 16) mod 16 * 16 + (unat b mod 16 * 4 + unat c div 64) div 4) = b"
    "of_nat ((unat b mod 16 * 4 + unat c div 64) mod 4 * 64 + unat c mod 64) = c"
    by (simp_all only: d div_mult_self_is_m zero_less_numeral div_mult_mod_eq of_nat_unat_byte)
qed

lemma b64decode_encode: "a2b_base64 0 left pads (b64encode bs) = Inr bs"
proof (induction bs arbitrary: left pads rule: b64encode.induct)
  case (2 a)
  then show ?case using sextets(1,2)[of a] octets(1)[of a] by (simp add: b64_char_not_pad)
next
  case (3 a b)
  then show ?case using sextets(1)[of a] sextets(3)[of a b] sextets(4)[of b] octets(2)[of a b] octets(3)[of a b]
    by (simp add: b64_char_not_pad)
next
  case (4 a b c r)
  then show ?case using sextets(1)[of a] sextets(3)[of a b] sextets(5)[of b c] sextets(6)[of c] octets(2)[of a b] octets(4)[of a b c] octets(5)[of b c]
    by (simp add: b64_char_not_pad)
qed simp

text \<open>Skipped bytes do not matter, wherever they stand.\<close>

lemma a2b_base64_filter: "a2b_base64 q left pads (filter b64_significant s) = a2b_base64 q left pads s"
proof (induction q left pads s rule: a2b_base64.induct)
  case (2 q left pads c cs)
  then show ?case by (cases "b64_val c") (auto simp: b64_significant_def split: option.splits)
qed simp

lemma b64decode_text:
  "filter b64_significant s = b64encode bs \<Longrightarrow> b64decode s = Inr bs"
  using a2b_base64_filter[of 0 0 0 s] by (simp add: b64decode_def b64decode_encode)

lemma b64encode_chars: "c \<in> set (b64encode bs) \<Longrightarrow> b64_significant c \<and> c \<noteq> dash"
proof (induction bs rule: b64encode.induct)
  case (2 a)
  then show ?case using sextets(1,2)[of a] by (auto simp: b64_significant_def b64_char_not_dash)
next
  case (3 a b)
  then show ?case using sextets(1)[of a] sextets(3)[of a b] sextets(4)[of b] by (auto simp: b64_significant_def b64_char_not_dash)
next
  case (4 a b c r)
  then show ?case using sextets(1)[of a] sextets(3)[of a b] sextets(5)[of b c] sextets(6)[of c]
    by (auto simp: b64_significant_def b64_char_not_dash)
qed simp

text \<open>Lines of \<open>w\<close> characters, as a PEM file wraps them.\<close>

fun wrap_aux :: "nat \<Rightarrow> nat \<Rightarrow> bytes \<Rightarrow> bytes" where
  "wrap_aux w n [] = [0x0A]"
| "wrap_aux w 0 (c # cs) = 0x0A # c # wrap_aux w (w - 1) cs"
| "wrap_aux w (Suc n) (c # cs) = c # wrap_aux w n cs"

definition pem_body :: "bytes \<Rightarrow> bytes" where
  "pem_body der = wrap_aux 64 0 (b64encode der)"

lemma newline_not_significant: "\<not> b64_significant 0x0A"
  by (simp add: b64_significant_def b64_val_def)

lemma wrap_aux_filter:
  "(\<And>c. c \<in> set s \<Longrightarrow> b64_significant c) \<Longrightarrow> filter b64_significant (wrap_aux w n s) = s"
  by (induction w n s rule: wrap_aux.induct) (auto simp: newline_not_significant)

lemma wrap_aux_set: "set (wrap_aux w n s) \<subseteq> insert 0x0A (set s)"
  by (induction w n s rule: wrap_aux.induct) auto

lemma pem_text_body: "pem_text (pem_body der)"
proof -
  have "pem_body der \<noteq> []" by (cases "b64encode der") (auto simp: pem_body_def)
  moreover have "dash \<notin> set (pem_body der)"
    using wrap_aux_set[of 64 0 "b64encode der"] b64encode_chars[of dash der] by (auto simp: pem_body_def)
  ultimately show ?thesis by (simp add: pem_text_def)
qed

lemma b64decode_pem_body: "b64decode (pem_body der) = Inr der"
  using wrap_aux_filter[of "b64encode der" 64 0] b64encode_chars[of _ der]
  by (intro b64decode_text) (simp add: pem_body_def)

end
