(* ===== verification/Py_Float.thy ===== *)
theory Py_Float
  imports Prelude Complex_Main
begin

text \<open>
  The floating-point steps of the program: true division of integers, \<open>math.ceil\<close>,
  \<open>round(x)\<close> and \<open>round(x, n)\<close>, \<open>statistics.mean\<close>.  A float is the rational it
  denotes; \<open>fl\<close> rounds a rational to the nearest binary64 number, ties to even, with
  the exponent unbounded (the program's values are far from overflow and underflow).
  The locale \<open>rounding\<close> states what the results below need of a rounding function; \<open>fl\<close>
  is its instance.
\<close>

section \<open>Round half to even\<close>

definition round_half_even :: "rat \<Rightarrow> int" where
  "round_half_even q = (let f = \<lfloor>q\<rfloor>; r = q - of_int f in
     if r < 1 / 2 then f else if 1 / 2 < r then f + 1 else if even f then f else f + 1)"

lemma round_half_even_int [simp]: "round_half_even (of_int n) = n"
  by (simp add: round_half_even_def)

lemma round_half_even_error: "\<bar>of_int (round_half_even q) - q\<bar> \<le> 1 / 2"
proof -
  have "of_int \<lfloor>q\<rfloor> \<le> q" "q < of_int \<lfloor>q\<rfloor> + 1" by linarith+
  then show ?thesis by (auto simp: round_half_even_def Let_def abs_le_iff)
qed

lemma round_half_even_mono: "p \<le> q \<Longrightarrow> round_half_even p \<le> round_half_even q"
proof -
  assume le: "p \<le> q"
  have fl: "of_int \<lfloor>p\<rfloor> \<le> p" "p < of_int \<lfloor>p\<rfloor> + 1" "of_int \<lfloor>q\<rfloor> \<le> q" "q < of_int \<lfloor>q\<rfloor> + 1"
    by linarith+
  have "\<lfloor>p\<rfloor> \<le> \<lfloor>q\<rfloor>" using le by (rule floor_mono)
  then consider "\<lfloor>p\<rfloor> = \<lfloor>q\<rfloor>" | "\<lfloor>p\<rfloor> + 1 \<le> \<lfloor>q\<rfloor>" by linarith
  then show ?thesis
  proof cases
    case 1
    then show ?thesis using le by (auto simp: round_half_even_def Let_def)
  next
    case 2
    have "round_half_even p \<le> \<lfloor>p\<rfloor> + 1" "\<lfloor>q\<rfloor> \<le> round_half_even q"
      by (auto simp: round_half_even_def Let_def)
    with 2 show ?thesis by linarith
  qed
qed

section \<open>Rounding to binary64\<close>

definition pow2 :: "int \<Rightarrow> rat" where
  "pow2 e = (if 0 \<le> e then 2 ^ nat e else 1 / 2 ^ nat (- e))"

fun bits :: "nat \<Rightarrow> nat" where
  "bits n = (if n = 0 then 0 else Suc (bits (n div 2)))"

declare bits.simps [simp del]

text \<open>The exponent of the unit in the last place: \<open>2^52 \<le> q / pow2 e < 2^53\<close>.\<close>

definition ulp_exp :: "rat \<Rightarrow> int" where
  "ulp_exp q = (case quotient_of q of (n, d) \<Rightarrow>
     let k = int (bits (nat n)) - int (bits (nat d)) in (if pow2 k \<le> q then k else k - 1) - 52)"

definition fl :: "rat \<Rightarrow> rat" where
  "fl q = (if q = 0 then 0
     else let u = pow2 (ulp_exp \<bar>q\<bar>) in of_int (round_half_even (q / u)) * u)"

lemma bits_bounds: "0 < n \<Longrightarrow> 2 ^ (bits n - 1) \<le> n \<and> n < 2 ^ bits n \<and> 0 < bits n"
proof (induction n rule: bits.induct)
  case (1 n)
  show ?case
  proof (cases "n div 2 = 0")
    case True
    then have "n = 1" using "1.prems" by auto
    then show ?thesis by (simp add: bits.simps)
  next
    case False
    then have ih: "2 ^ (bits (n div 2) - 1) \<le> n div 2" "n div 2 < 2 ^ bits (n div 2)" "0 < bits (n div 2)"
      using "1.IH" "1.prems" by auto
    have b: "bits n = Suc (bits (n div 2))" using "1.prems" by (simp add: bits.simps[of n])
    have "(2::nat) ^ bits (n div 2) = 2 * 2 ^ (bits (n div 2) - 1)"
      using ih(3) by (metis Suc_diff_1 power_Suc)
    define x where "x = (2::nat) ^ (bits (n div 2) - 1)"
    have "x \<le> n div 2" "n div 2 < 2 * x"
      using ih(1,2) \<open>_ = 2 * 2 ^ (bits (n div 2) - 1)\<close> by (simp_all add: x_def)
    then have "2 * x \<le> n" "n < 4 * x" by linarith+
    moreover have "2 ^ bits n = 4 * x" "2 ^ (bits n - 1) = 2 * x"
      using b \<open>_ = 2 * 2 ^ (bits (n div 2) - 1)\<close> by (simp_all add: x_def)
    ultimately show ?thesis using b by simp
  qed
qed

lemma pow2_pos [simp]: "0 < pow2 e"
  by (simp add: pow2_def)

lemma pow2_add: "pow2 (a + b) = pow2 a * pow2 b"
proof -
  have "pow2 e = 2 powi e" for e
    by (auto simp: pow2_def power_int_def field_simps power_one_over)
  then show ?thesis by (simp add: power_int_add)
qed

lemma pow2_nat: "pow2 (int n) = 2 ^ n"
  by (simp add: pow2_def)

lemma ulp_exp_lower:
  assumes "0 < q"
  shows "pow2 (ulp_exp q + 52) \<le> q"
proof -
  obtain n d where nd: "quotient_of q = (n, d)" by (cases "quotient_of q")
  have d: "0 < d" using quotient_of_denom_pos[OF nd] .
  have q: "q = of_int n / of_int d" by (rule quotient_of_div[OF nd])
  have n: "0 < n" using assms d q by (simp add: zero_less_divide_iff)
  define a where "a = bits (nat n)"
  define b where "b = bits (nat d)"
  have an: "2 ^ (a - 1) \<le> nat n" "0 < a" and bd: "nat d < 2 ^ b"
    using bits_bounds[of "nat n"] bits_bounds[of "nat d"] n d by (auto simp: a_def b_def)
  have "(2::rat) ^ (a - 1) \<le> of_int n" using an(1) n by (metis of_int_le_iff of_int_numeral of_int_power
    nat_le_iff of_nat_le_iff of_nat_numeral of_nat_power int_nat_eq less_imp_le)
  moreover have "of_int d \<le> (2::rat) ^ b"
    using bd d by (metis less_imp_le of_int_le_iff of_int_numeral of_int_power nat_less_eq_zless
      of_nat_less_iff of_nat_numeral of_nat_power int_nat_eq)
  ultimately have "2 ^ (a - 1) / 2 ^ b \<le> q"
    unfolding q using d by (intro frac_le) (auto simp: n less_imp_le)
  moreover have "pow2 (int a - int b - 1) = 2 ^ (a - 1) / 2 ^ b"
  proof -
    have "pow2 (int (a - 1)) = pow2 (int a - int b - 1) * pow2 (int b)"
      using an(2) by (simp flip: pow2_add add: of_nat_diff)
    then show ?thesis by (simp add: pow2_nat field_simps)
  qed
  ultimately have "pow2 (int a - int b - 1) \<le> q" by simp
  then show ?thesis by (simp add: ulp_exp_def nd Let_def flip: a_def b_def)
qed

text \<open>The relative error of rounding to 53 significant bits.\<close>

lemma fl_error:
  assumes "0 < q"
  shows "\<bar>fl q - q\<bar> \<le> q / 2 ^ 53"
proof -
  define u where "u = pow2 (ulp_exp q)"
  have u: "0 < u" by (simp add: u_def)
  have "u * 2 ^ 52 \<le> q"
    using ulp_exp_lower[OF assms] pow2_nat[of 52] by (simp add: u_def pow2_add)
  have "\<bar>of_int (round_half_even (q / u)) * u - q\<bar> = \<bar>of_int (round_half_even (q / u)) - q / u\<bar> * u"
    using u by (simp add: abs_mult_pos' algebra_simps flip: abs_mult_pos)
  also have "\<dots> \<le> 1 / 2 * u" using round_half_even_error[of "q / u"] u by (intro mult_right_mono) auto
  also have "\<dots> \<le> q / 2 ^ 53" using \<open>u * 2 ^ 52 \<le> q\<close> by (simp add: field_simps)
  finally show ?thesis using assms by (simp add: fl_def Let_def u_def)
qed

text \<open>Integers up to \<open>2^53\<close> are floats.\<close>

lemma ulp_exp_upper:
  assumes "0 < q" and "q < 2 ^ k"
  shows "ulp_exp q < int k - 52"
proof (rule ccontr)
  assume "\<not> ulp_exp q < int k - 52"
  then have "pow2 (int k) * pow2 (ulp_exp q + 52 - int k) = pow2 (ulp_exp q + 52)" "0 \<le> ulp_exp q + 52 - int k"
    by (simp_all flip: pow2_add)
  moreover have "1 \<le> pow2 (ulp_exp q + 52 - int k)"
    using \<open>0 \<le> ulp_exp q + 52 - int k\<close> by (simp add: pow2_def)
  ultimately have "pow2 (int k) \<le> q"
    using ulp_exp_lower[OF assms(1)] mult_left_mono[of 1 "pow2 (ulp_exp q + 52 - int k)" "pow2 (int k)"]
      less_imp_le[OF pow2_pos[of "int k"]] by simp
  then show False using assms(2) by (simp add: pow2_nat)
qed

lemma fl_int:
  assumes "0 \<le> n" and "n < 2 ^ 53"
  shows "fl (of_int n) = of_int n"
proof (cases "n = 0")
  case True
  then show ?thesis by (simp add: fl_def)
next
  case False
  then have n: "0 < n" using assms(1) by simp
  define e where "e = ulp_exp (of_int n)"
  have lt: "(of_int n :: rat) < 2 ^ 53" using assms(2) by (metis of_int_less_iff of_int_numeral of_int_power)
  have "e \<le> 0" using ulp_exp_upper[of "of_int n" 53] n lt by (simp add: e_def)
  then have "of_int n / pow2 e = of_int (n * 2 ^ nat (- e))" by (auto simp: pow2_def)
  then have "round_half_even (of_int n / pow2 e) = n * 2 ^ nat (- e)"
    by (simp only: round_half_even_int)
  moreover have "of_int (n * 2 ^ nat (- e)) * pow2 e = of_int n" using \<open>e \<le> 0\<close> by (auto simp: pow2_def)
  ultimately show ?thesis using n by (simp add: fl_def Let_def e_def)
qed

section \<open>What the program needs of rounding\<close>

text \<open>
  A rounding with relative error \<open>1/p\<close> that keeps the integers below \<open>p\<close>: the
  ceiling of a rounded quotient of integers below \<open>p\<close> is then the exact one.
\<close>

locale rounding =
  fixes rnd :: "rat \<Rightarrow> rat" and p :: int
  assumes rnd_error: "0 < q \<Longrightarrow> \<bar>rnd q - q\<bar> \<le> q / of_int p"
    and rnd_int: "0 \<le> n \<Longrightarrow> n < p \<Longrightarrow> rnd (of_int n) = of_int n"
    and p_pos: "0 < p"
begin

lemma ceiling_quotient:
  assumes "0 \<le> a" and "a < p" and "0 < b"
  shows "\<lceil>rnd (of_int a / of_int b)\<rceil> = \<lceil>of_int a / of_int b :: rat\<rceil>"
proof (cases "\<exists>c. (of_int a / of_int b :: rat) = of_int c")
  case True
  then obtain c where c: "(of_int a / of_int b :: rat) = of_int c" by blast
  then have "a = c * b" using assms(3) by (simp add: field_simps flip: of_int_mult)
  then have "0 \<le> c" "c \<le> a" using assms by (auto simp: zero_le_mult_iff mult_le_cancel_left1)
  then show ?thesis using c assms rnd_int[of c] by simp
next
  case False
  define q where "q = (of_int a / of_int b :: rat)"
  define c where "c = \<lceil>q\<rceil>"
  have b: "0 < (of_int b :: rat)" using assms(3) by simp
  have "q \<noteq> 0" using False by (metis of_int_0 q_def)
  then have q0: "0 < q" using assms by (simp add: q_def zero_less_divide_iff)
  have cq: "of_int c - 1 < q" "q \<le> of_int c" by (simp_all add: c_def) linarith+
  have "q < of_int c" using cq False by (metis order_le_less q_def)
  have aq: "of_int a = q * of_int b" using b by (simp add: q_def)
  have gap1: "of_int a + 1 \<le> (of_int (c * b) :: rat)"
  proof -
    have "(of_int a :: rat) < of_int (c * b)" using \<open>q < of_int c\<close> b by (simp add: aq)
    then have "a + 1 \<le> c * b" by (simp only: of_int_less_iff)
    then show ?thesis by (metis of_int_1 of_int_add of_int_le_iff)
  qed
  have gap2: "(of_int ((c - 1) * b) :: rat) + 1 \<le> of_int a"
  proof -
    have "(of_int ((c - 1) * b) :: rat) < of_int a" using cq(1) b by (simp add: aq)
    then have "(c - 1) * b + 1 \<le> a" by (simp only: of_int_less_iff)
    then show ?thesis by (metis of_int_1 of_int_add of_int_le_iff)
  qed
  have "q * of_int b < of_int p" using assms(2) by (simp flip: aq)
  then have "q / of_int p * of_int b < 1" using p_pos by (simp add: field_simps)
  moreover have "\<bar>rnd q - q\<bar> * of_int b \<le> q / of_int p * of_int b"
    using rnd_error[OF q0] b by (intro mult_right_mono) auto
  ultimately have err: "\<bar>(rnd q - q) * of_int b\<bar> < 1" using b by (simp add: abs_mult)
  have "rnd q * of_int b - q * of_int b < 1" "q * of_int b - rnd q * of_int b < 1"
    using err by (simp_all add: left_diff_distrib abs_less_iff)
  moreover have "q * of_int b + 1 \<le> of_int c * of_int b" "of_int (c - 1) * of_int b + 1 \<le> q * of_int b"
    using gap1 gap2 by (simp_all only: aq of_int_mult)
  ultimately have "rnd q * of_int b < of_int c * of_int b" "of_int (c - 1) * of_int b < rnd q * of_int b"
    by linarith+
  then have "rnd q < of_int c" "of_int (c - 1) < rnd q" using b by (metis mult_less_cancel_right_pos)+
  then have "\<lceil>rnd q\<rceil> = c" by (intro ceiling_unique) auto
  then show ?thesis by (simp add: c_def q_def)
qed

end

interpretation binary64: rounding fl "2 ^ 53"
  by unfold_locales (use fl_error fl_int in auto)

section \<open>The Python operations\<close>

text \<open>\<open>a / b\<close> on integers, \<open>math.ceil(a / b)\<close>.\<close>

definition true_div :: "int \<Rightarrow> int \<Rightarrow> rat res" where
  "true_div a b = (if b = 0 then Inl ZeroDivisionError else Inr (fl (of_int a / of_int b)))"

definition ceil_div :: "int \<Rightarrow> int \<Rightarrow> int" where
  "ceil_div a b = \<lceil>fl (of_int a / of_int b)\<rceil>"

text \<open>\<open>round(x, n)\<close> as the integer of \<open>n\<close>-th decimals that it shows.\<close>

definition round_digits :: "rat \<Rightarrow> nat \<Rightarrow> int" where
  "round_digits x n = round_half_even (x * 10 ^ n)"

text \<open>\<open>statistics.mean\<close> of integers: exact when integral, else the nearest float.\<close>

definition mean_int :: "int list \<Rightarrow> rat res" where
  "mean_int xs = (if xs = [] then Inl StatisticsError else
     let n = int (length xs); t = sum_list xs in
     Inr (if t mod n = 0 then of_int (t div n) else fl (of_int t / of_int n)))"

text \<open>The ceiling taken on floats is integer division rounded up.\<close>

lemma ceil_div_exact:
  assumes "0 \<le> a" and "a < 2 ^ 53" and "0 < b"
  shows "ceil_div a b = (a + b - 1) div b"
proof -
  have "ceil_div a b = \<lceil>of_int a / of_int b :: rat\<rceil>"
    unfolding ceil_div_def by (rule binary64.ceiling_quotient[OF assms])
  also have "\<dots> = (a + b - 1) div b"
  proof (rule ceiling_unique)
    have "(a + b - 1) div b * b + (a + b - 1) mod b = a + b - 1" by (rule div_mult_mod_eq)
    moreover have "0 \<le> (a + b - 1) mod b" "(a + b - 1) mod b < b" using assms(3) by simp_all
    ultimately have "((a + b - 1) div b - 1) * b < a" "a \<le> (a + b - 1) div b * b"
      unfolding left_diff_distrib by linarith+
    then have "(of_int (((a + b - 1) div b) - 1) * of_int b :: rat) < of_int a"
      and "(of_int a :: rat) \<le> of_int ((a + b - 1) div b) * of_int b"
      by (simp_all only: of_int_less_iff of_int_le_iff flip: of_int_mult)
    then show "of_int ((a + b - 1) div b) - 1 < (of_int a / of_int b :: rat)"
      and "(of_int a / of_int b :: rat) \<le> of_int ((a + b - 1) div b)"
      using assms(3) by (simp_all add: field_simps)
  qed
  finally show ?thesis .
qed

lemma ceil_div_le_iff:
  assumes "0 \<le> a" and "a < 2 ^ 53" and "0 < b"
  shows "ceil_div a b \<le> k \<longleftrightarrow> a \<le> k * b"
proof -
  have "ceil_div a b = \<lceil>of_int a / of_int b :: rat\<rceil>"
    unfolding ceil_div_def by (rule binary64.ceiling_quotient[OF assms])
  also have "\<dots> \<le> k \<longleftrightarrow> (of_int a :: rat) \<le> of_int (k * b)"
    using assms(3) by (simp add: ceiling_le_iff pos_divide_le_eq)
  also have "\<dots> \<longleftrightarrow> a \<le> k * b" by (simp only: of_int_le_iff)
  finally show ?thesis .
qed

text \<open>
  Rounding the float mean of at most five integers is rounding their exact mean: a mean
  that is half an integer is a float, and any other is further from the halves than the
  rounding error.
\<close>

lemma fl_half:
  assumes "0 \<le> c" and "c < 2 ^ 53"
  shows "fl (of_int c / 2) = of_int c / 2"
proof (cases "c = 0")
  case True
  then show ?thesis by (simp add: fl_def)
next
  case False
  then have c: "0 < c" using assms(1) by simp
  define e where "e = ulp_exp (of_int c / 2)"
  have "(of_int c :: rat) < 2 ^ 53" using assms(2) by (metis of_int_less_iff of_int_numeral of_int_power)
  then have "(of_int c / 2 :: rat) < 2 ^ 52" by simp
  then have "e < 0" using ulp_exp_upper[of "of_int c / 2" 52] c by (simp add: e_def)
  define k where "k = nat (- e - 1)"
  have "nat (- e) = Suc k" using \<open>e < 0\<close> by (simp add: k_def)
  then have p: "pow2 e = 1 / (2 * 2 ^ k)" using \<open>e < 0\<close> by (simp add: pow2_def)
  then have "of_int c / 2 / pow2 e = of_int (c * 2 ^ k)" by simp
  then have "round_half_even (of_int c / 2 / pow2 e) = c * 2 ^ k" by (simp only: round_half_even_int)
  moreover have "of_int (c * 2 ^ k) * pow2 e = of_int c / 2" by (simp add: p)
  ultimately show ?thesis using c by (simp add: fl_def Let_def e_def)
qed

lemma round_half_even_between:
  assumes "of_int lo - 1 / 2 < x" and "x < of_int hi + 1 / 2"
  shows "lo \<le> round_half_even x \<and> round_half_even x \<le> hi"
proof -
  have "\<bar>of_int (round_half_even x) - x\<bar> \<le> 1 / 2" by (rule round_half_even_error)
  then have "(of_int (lo - 1) :: rat) < of_int (round_half_even x)" "(of_int (round_half_even x) :: rat) < of_int (hi + 1)"
    unfolding of_int_diff of_int_add of_int_1 using assms by linarith+
  then show ?thesis by (simp only: of_int_less_iff) linarith
qed

lemma round_float_mean:
  assumes "0 \<le> t" and "0 < n" and "n \<le> 5" and "t < n * 2 ^ 48"
  shows "round_half_even (fl (of_int t / of_int n)) = round_half_even (of_int t / of_int n)"
proof (cases "\<exists>c. (of_int t / of_int n :: rat) = of_int c / 2")
  case True
  then obtain c where c: "(of_int t / of_int n :: rat) = of_int c / 2" by blast
  then have "(of_int (2 * t) :: rat) = of_int (n * c)" using assms(2) by (simp add: field_simps)
  then have nc: "2 * t = n * c" by (simp only: of_int_eq_iff)
  have "0 \<le> c" using nc assms(1,2) by (metis mult_pos_neg not_le mult_nonneg_nonneg zero_le_numeral)
  moreover have "n * c < n * (2 * 2 ^ 48)" using nc assms(4) by linarith
  then have "c < 2 * 2 ^ 48" using assms(2) by (simp only: mult_less_cancel_left_pos)
  ultimately show ?thesis by (simp add: c fl_half)
next
  case False
  define q where "q = (of_int t / of_int n :: rat)"
  define k where "k = round_half_even q"
  have n: "0 < (of_int n :: rat)" "(of_int n :: rat) \<le> 5" using assms(2,3) by simp_all
  have t: "of_int t = q * of_int n" using n by (simp add: q_def)
  have "t \<noteq> 0" using False by (metis div_0 of_int_0)
  then have q0: "0 < q" using assms by (simp add: q_def)
  have "(of_int t :: rat) < of_int (n * 2 ^ 48)" using assms(4) by (simp only: of_int_less_iff)
  then have "q < 2 ^ 48" using n by (simp add: q_def pos_divide_less_eq mult.commute)
  then have err: "\<bar>fl q - q\<bar> < 1 / 32" using fl_error[OF q0] by simp
  have "\<bar>of_int k - q\<bar> \<le> 1 / 2" unfolding k_def by (rule round_half_even_error)
  then have near: "of_int k - 1 / 2 \<le> q" "q \<le> of_int k + 1 / 2" unfolding abs_le_iff by linarith+
  have "2 * t \<noteq> n * (2 * k - 1)" "2 * t \<noteq> n * (2 * k + 1)"
  proof -
    have "(of_int t / of_int n :: rat) = of_int c / 2" if "2 * t = n * c" for c
    proof -
      have "(of_int (2 * t) :: rat) = of_int (n * c)" by (simp only: that)
      then show ?thesis using n by (simp add: field_simps)
    qed
    then show "2 * t \<noteq> n * (2 * k - 1)" "2 * t \<noteq> n * (2 * k + 1)" using False by blast+
  qed
  moreover have "n * (2 * k - 1) \<le> 2 * t" "2 * t \<le> n * (2 * k + 1)"
  proof -
    have "(of_int k - 1 / 2) * of_int n \<le> q * of_int n" "q * of_int n \<le> (of_int k + 1 / 2) * of_int n"
      by (rule mult_right_mono, rule near, use n in simp)+
    then have "(of_int (n * (2 * k - 1)) :: rat) \<le> of_int (2 * t)" "(of_int (2 * t) :: rat) \<le> of_int (n * (2 * k + 1))"
      by (simp_all add: t algebra_simps)
    then show "n * (2 * k - 1) \<le> 2 * t" "2 * t \<le> n * (2 * k + 1)" by (simp_all only: of_int_le_iff)
  qed
  ultimately have "n * (2 * k - 1) + 1 \<le> 2 * t" "2 * t + 1 \<le> n * (2 * k + 1)" by linarith+
  then have "(of_int (n * (2 * k - 1) + 1) :: rat) \<le> of_int (2 * t)" "(of_int (2 * t + 1) :: rat) \<le> of_int (n * (2 * k + 1))"
    by (simp_all only: of_int_le_iff)
  then have "(of_int k - 1 / 2) * of_int n + 1 / 2 \<le> q * of_int n" "q * of_int n + 1 / 2 \<le> (of_int k + 1 / 2) * of_int n"
    by (simp_all add: t algebra_simps)
  moreover have "1 / 10 * of_int n \<le> (1 / 2 :: rat)" using n by simp
  ultimately have "(of_int k - 1 / 2 + 1 / 10) * of_int n \<le> q * of_int n" "(q + 1 / 10) * of_int n \<le> (of_int k + 1 / 2) * of_int n"
    unfolding distrib_right by linarith+
  then have "of_int k - 1 / 2 + 1 / 10 \<le> q" "q + 1 / 10 \<le> of_int k + 1 / 2"
    using n(1) by (simp_all only: mult_le_cancel_right_pos)
  then have "of_int k - 1 / 2 < fl q" "fl q < of_int k + 1 / 2" using err unfolding abs_less_iff by linarith+
  then have "round_half_even (fl q) = k" using round_half_even_between[of k "fl q" k] by linarith
  then show ?thesis by (simp add: k_def q_def)
qed

text \<open>\<open>round(statistics.mean(xs))\<close>: the exact mean rounded to even, within the range.\<close>

lemma mean_round_exact:
  assumes "mean_int xs = Inr m" and "length xs \<le> 5" and "\<And>x. x \<in> set xs \<Longrightarrow> lo \<le> x \<and> x \<le> hi"
    and "0 \<le> lo" and "hi < 2 ^ 48"
  shows "round_digits m 0 = round_half_even (of_int (sum_list xs) / of_int (int (length xs)))
    \<and> lo \<le> round_digits m 0 \<and> round_digits m 0 \<le> hi"
proof -
  define n where "n = int (length xs)"
  define t where "t = sum_list xs"
  have n: "0 < n" "n \<le> 5" and m: "m = (if t mod n = 0 then of_int (t div n) else fl (of_int t / of_int n))"
    using assms(1,2) by (auto simp: mean_int_def n_def t_def Let_def split: if_splits)
  have bounds: "n * lo \<le> t \<and> t \<le> n * hi"
    using assms(3) unfolding n_def t_def
    by (induction xs) (auto simp: algebra_simps add_mono)
  have "0 \<le> n * lo" using n assms(4) by simp
  then have "0 \<le> t" using bounds by linarith
  moreover have "n * hi < n * 2 ^ 48" using n assms(5) by (simp only: mult_less_cancel_left_pos)
  then have "t < n * 2 ^ 48" using bounds by linarith
  ultimately have r: "round_digits m 0 = round_half_even (of_int t / of_int n)"
    using round_float_mean[of t n] n by (auto simp: m round_digits_def elim!: dvdE simp flip: dvd_eq_mod_eq_0)
  have "(of_int (n * lo) :: rat) \<le> of_int t" "(of_int t :: rat) \<le> of_int (n * hi)"
    using bounds by (simp_all only: of_int_le_iff)
  then have "of_int lo \<le> (of_int t / of_int n :: rat)" "(of_int t / of_int n :: rat) \<le> of_int hi"
    using n by (simp_all add: field_simps)
  then have "lo \<le> round_half_even (of_int t / of_int n) \<and> round_half_even (of_int t / of_int n) \<le> hi"
    by (intro round_half_even_between) linarith+
  then show ?thesis using r by (simp add: n_def t_def)
qed

end
