(* ===== verification/Compressibility.thy ===== *)
theory Compressibility
  imports Base64 Py_Float Effects Json Sizes
begin

text \<open>
  \<open>phase3/compressibility.py\<close>: how much the three compressors of RFC 8879 save on each
  chain, and where the saving comes from.  The compressors are parameters (functions of
  the input and the level), as is the field extraction of the \<open>cryptography\<close> package.
\<close>

section \<open>Compressors\<close>

record compressors =
  zlib_compress :: "bytes \<Rightarrow> nat \<Rightarrow> bytes"
  brotli_compress :: "bytes \<Rightarrow> nat \<Rightarrow> bytes"
  zstd_compress :: "bytes \<Rightarrow> nat \<Rightarrow> bytes"

definition chains_c :: "string list" where
  "chains_c = [''ecdsa'', ''mldsa44'', ''mldsa65'', ''mldsa87'', ''slhroot'', ''mixed'', ''catalyst'', ''composite'']"

definition cert_blocks :: "string \<Rightarrow> bytes list res" where
  "cert_blocks pem = traverse b64decode (pem_findall (ascii pem))"

definition der_payload :: "string \<Rightarrow> string \<Rightarrow> bytes res" where
  "der_payload name pem = (let blocks = pem_findall (ascii pem) in
     if blocks = [] then Inl (SystemExit (''no certificates found in '' @ name))
     else rbind (traverse b64decode blocks) (\<lambda>ders. Inr (concat ders)))"

definition compress_all :: "compressors \<Rightarrow> bytes \<Rightarrow> (string, nat) dict" where
  "compress_all c payload =
     [(''zlib'', length (zlib_compress c payload 9)), (''brotli'', length (brotli_compress c payload 11)),
      (''zstd'', length (zstd_compress c payload 22))]"

definition best_size :: "compressors \<Rightarrow> bytes \<Rightarrow> nat" where
  "best_size c payload = (let d = compress_all c payload in Min (set (map snd d)))"

text \<open>\<open>min(comp, key=comp.get)\<close>: the first of the smallest.\<close>

definition best_algo :: "(string, nat) dict \<Rightarrow> string" where
  "best_algo d = fst (min_key snd (hd d) (tl d))"

record decomposition =
  saved_per_cert :: "int list"
  saved_within_certs :: int
  saved_across_certs :: int

definition decompose :: "compressors \<Rightarrow> bytes list \<Rightarrow> decomposition" where
  "decompose c certs =
     (let alone = map (\<lambda>x. int (length x) - int (best_size c x)) certs;
          together = sum_list (map (\<lambda>x. int (length x)) certs) - int (best_size c (concat certs))
      in \<lparr>saved_per_cert = alone, saved_within_certs = sum_list alone,
          saved_across_certs = together - sum_list alone\<rparr>)"

section \<open>Rows\<close>

record chain_row =
  cr_chain :: string
  cr_cert_sizes :: "int list"
  cr_raw :: int
  cr_comp :: "(string, nat) dict"
  cr_best_algo :: string
  cr_best :: int
  cr_saved :: int
  cr_saved_pct :: int
  cr_split :: decomposition

text \<open>One round of \<open>main\<close>'s loop; the percentage is kept in tenths.\<close>

definition measure_chain :: "compressors \<Rightarrow> string \<Rightarrow> string \<Rightarrow> string \<Rightarrow> chain_row res" where
  "measure_chain c name location pem =
     rbind (cert_blocks pem) (\<lambda>certs.
     rbind (der_payload location pem) (\<lambda>payload.
     let comp = compress_all c payload; algo = best_algo comp in
     rbind (getitem comp algo) (\<lambda>best.
     let saved = int (length payload) - int best in
     rbind (true_div (100 * saved) (int (length payload))) (\<lambda>pct.
     Inr \<lparr>cr_chain = name, cr_cert_sizes = map (\<lambda>x. int (length x)) certs, cr_raw = int (length payload),
          cr_comp = comp, cr_best_algo = algo, cr_best = int best, cr_saved = saved,
          cr_saved_pct = round_digits pct 1, cr_split = decompose c certs\<rparr>))))"

definition json_nats :: "(string, nat) dict \<Rightarrow> (string \<times> json) list" where
  "json_nats d = map (\<lambda>(k, v). (k, JInt (int v))) d"

definition chain_json :: "chain_row \<Rightarrow> json" where
  "chain_json r = JObj ([(''chain'', JStr (cr_chain r)), (''certs'', JInt (int (length (cr_cert_sizes r)))),
       (''cert_sizes'', JList (map JInt (cr_cert_sizes r))), (''raw'', JInt (cr_raw r))]
     @ json_nats (cr_comp r)
     @ [(''best_algo'', JStr (cr_best_algo r)), (''best'', JInt (cr_best r)), (''saved'', JInt (cr_saved r)),
       (''saved_pct'', JDec (cr_saved_pct r) 1),
       (''saved_per_cert'', JList (map JInt (saved_per_cert (cr_split r)))),
       (''saved_within_certs'', JInt (saved_within_certs (cr_split r))),
       (''saved_across_certs'', JInt (saved_across_certs (cr_split r)))])"

record field_row =
  fr_chain :: string
  fr_field :: string
  fr_raw :: int
  fr_comp :: "(string, nat) dict"
  fr_best :: int
  fr_delta :: int

definition measure_field :: "compressors \<Rightarrow> string \<Rightarrow> string \<Rightarrow> bytes \<Rightarrow> field_row" where
  "measure_field c name field blob =
     (let comp = compress_all c blob; best = int (Min (set (map snd comp))) in
      \<lparr>fr_chain = name, fr_field = field, fr_raw = int (length blob), fr_comp = comp, fr_best = best,
       fr_delta = best - int (length blob)\<rparr>)"

text \<open>
  \<open>measure_fields\<close>: \<open>leaf\<close> is the package's view of the first certificate, its
  signature and its DER public key; \<open>findall(...)[0]\<close> raises when there is none.
\<close>

definition measure_fields :: "compressors \<Rightarrow> (bytes \<Rightarrow> (bytes \<times> bytes) res) \<Rightarrow> (string \<Rightarrow> string option)
    \<Rightarrow> field_row list res" where
  "measure_fields c leaf pem_of =
     rbind (traverse (\<lambda>name. case pem_of name of None \<Rightarrow> Inr []
       | Some pem \<Rightarrow> (case pem_findall (ascii pem) of [] \<Rightarrow> Inl IndexError
         | b # _ \<Rightarrow> rbind (b64decode b) (\<lambda>der. rbind (leaf der) (\<lambda>(sig, spki).
             Inr [measure_field c name ''signature'' sig, measure_field c name ''spki'' spki]))))
       [''mldsa44'', ''mldsa65'', ''mldsa87'']) (\<lambda>rss. Inr (concat rss))"

definition field_json :: "field_row \<Rightarrow> json" where
  "field_json f = JObj ([(''chain'', JStr (fr_chain f)), (''field'', JStr (fr_field f)), (''raw'', JInt (fr_raw f))]
     @ json_nats (fr_comp f) @ [(''best'', JInt (fr_best f)), (''delta'', JInt (fr_delta f))])"

section \<open>The saving is accounted for\<close>

lemma best_size_min: "best_size c p = snd (min_key snd (hd (compress_all c p)) (tl (compress_all c p)))"
proof -
  let ?d = "compress_all c p"
  have d: "hd ?d # tl ?d = ?d" by (simp add: compress_all_def)
  have "Min (set (map snd ?d)) = snd (min_key snd (hd ?d) (tl ?d))"
  proof (rule Min_eqI)
    fix y assume "y \<in> set (map snd ?d)"
    then obtain x where "x \<in> set ?d" "y = snd x" by auto
    then show "snd (min_key snd (hd ?d) (tl ?d)) \<le> y"
      using min_key_le[of x "hd ?d" "tl ?d" snd] d by simp
  next
    have "min_key snd (hd ?d) (tl ?d) \<in> set ?d" using min_key_mem[of snd "hd ?d" "tl ?d"] d by simp
    then show "snd (min_key snd (hd ?d) (tl ?d)) \<in> set (map snd ?d)" by simp
  qed simp
  then show ?thesis by (simp add: best_size_def Let_def)
qed

lemma getitem_best_algo: "getitem (compress_all c p) (best_algo (compress_all c p)) = Inr (best_size c p)"
proof -
  let ?d = "compress_all c p"
  have "distinct (map fst ?d)" by (simp add: compress_all_def)
  moreover have "min_key snd (hd ?d) (tl ?d) \<in> set ?d"
    using min_key_mem[of snd "hd ?d" "tl ?d"] by (simp add: compress_all_def)
  ultimately have "map_of ?d (fst (min_key snd (hd ?d) (tl ?d))) = Some (snd (min_key snd (hd ?d) (tl ?d)))"
    by (intro map_of_is_SomeI) auto
  then show ?thesis by (simp add: res_simps best_algo_def best_size_min)
qed

lemma cert_blocks_payload: "cert_blocks pem = Inr certs \<Longrightarrow> der_payload name pem = Inr payload \<Longrightarrow> payload = concat certs"
  by (auto simp: cert_blocks_def der_payload_def Let_def res_simps split: if_splits)

lemma measure_chain_Inr:
  assumes "measure_chain c name location pem = Inr r"
  obtains certs where "cert_blocks pem = Inr certs" "concat certs \<noteq> []"
    "cr_raw r = int (length (concat certs))" "cr_best r = int (best_size c (concat certs))"
    "cr_saved r = cr_raw r - cr_best r" "cr_split r = decompose c certs"
    "cr_cert_sizes r = map (\<lambda>x. int (length x)) certs"
    "cr_saved_pct r = round_digits (fl (of_int (100 * cr_saved r) / of_int (cr_raw r))) 1"
    "cr_best_algo r = best_algo (compress_all c (concat certs))" "cr_comp r = compress_all c (concat certs)"
    "cr_chain r = name"
proof -
  from assms obtain certs payload where *: "cert_blocks pem = Inr certs" "der_payload location pem = Inr payload"
    by (auto simp: measure_chain_def res_simps Let_def)
  have p: "payload = concat certs" using * by (rule cert_blocks_payload)
  from assms show thesis
    by (intro that[of certs])
      (auto simp: measure_chain_def * p Let_def getitem_best_algo true_div_def split: if_splits)
qed

lemma decompose_total:
  "saved_within_certs (decompose c certs) + saved_across_certs (decompose c certs)
     = int (length (concat certs)) - int (best_size c (concat certs))"
proof -
  have "sum_list (map (\<lambda>x. int (length x)) certs) = int (length (concat certs))"
    by (induction certs) auto
  then show ?thesis by (simp add: decompose_def Let_def)
qed

lemma decompose_single: "saved_across_certs (decompose c [x]) = 0"
  by (simp add: decompose_def Let_def)

section \<open>The generated table\<close>

definition chain_line :: "chain_row \<Rightarrow> string res" where
  "chain_line r =
     rbind (getitem (cr_comp r) ''zlib'') (\<lambda>zl.
     rbind (getitem (cr_comp r) ''brotli'') (\<lambda>br.
     rbind (getitem (cr_comp r) ''zstd'') (\<lambda>zs.
     Inr (''| '' @ cr_chain r @ '' | '' @ str_nat (length (cr_cert_sizes r)) @ '' | '' @ commas (cr_raw r) @ '' | ''
       @ commas (int zl) @ '' | '' @ commas (int br) @ '' | '' @ commas (int zs) @ '' | ''
       @ commas (cr_saved r) @ '' ('' @ dec_string (cr_saved_pct r) 1 @ ''%, '' @ cr_best_algo r @ '') |''))))"

definition split_line :: "chain_row \<Rightarrow> string" where
  "split_line r = (let sizes = join '' + '' (map commas (cr_cert_sizes r));
     per = join '' + '' (map str_int (saved_per_cert (cr_split r))) in
     ''| '' @ cr_chain r @ '' | '' @ sizes @ '' | '' @ str_int (saved_within_certs (cr_split r)) @ '' ('' @ per
       @ '') | '' @ str_int (saved_across_certs (cr_split r)) @ '' | '' @ commas (cr_saved r) @ '' |'')"

definition field_line :: "field_row \<Rightarrow> string res" where
  "field_line f =
     rbind (getitem (fr_comp f) ''zlib'') (\<lambda>zl.
     rbind (getitem (fr_comp f) ''brotli'') (\<lambda>br.
     rbind (getitem (fr_comp f) ''zstd'') (\<lambda>zs.
     Inr (''| '' @ fr_chain f @ '' | '' @ fr_field f @ '' | '' @ commas (fr_raw f) @ '' | '' @ commas (int zl)
       @ '' | '' @ commas (int br) @ '' | '' @ commas (int zs) @ '' | '' @ plus_d (fr_delta f) @ '' |''))))"

definition compression_md :: "chain_row list \<Rightarrow> field_row list \<Rightarrow> string list res" where
  "compression_md rows frows =
     rbind (traverse chain_line rows) (\<lambda>ls.
     rbind (traverse field_line frows) (\<lambda>fs. Inr (
       [''# Certificate compression against post-quantum chains'',
        '''',
        ''Generated by `phase3/compressibility.py` from `results/bundles/`; do not'',
        ''hand-edit. Payload is the concatenated DER certificate_list a TLS 1.3'',
        ''server sends (leaf followed by intermediate). Every algorithm runs at its'',
        ''maximum level, so these are upper bounds on what compression can save.'',
        '''',
        ''| Chain | Certs | Raw bytes | zlib | brotli | zstd | Best saving |'',
        ''|---|---|---|---|---|---|---|'']
       @ ls @
       ['''',
        ''## Where the saving comes from'',
        '''',
        ''The same total, split into what compresses inside each certificate (X.509'',
        ''boilerplate) and what compresses only when certificates are sent together'',
        ''(the issuer name in the leaf repeating the subject name in the'',
        ''intermediate). Neither term scales with key or signature size.'',
        '''',
        ''| Chain | Cert sizes | Saved within certs | Saved across certs | Total |'',
        ''|---|---|---|---|---|'']
       @ map split_line rows @
       ['''',
        ''## The post-quantum fields on their own'',
        '''',
        ''The tables above show the saving does not scale with signature size.'',
        ''Here is why, with the X.509 structure stripped away: the ML-DSA'',
        ''signature and public key compressed by themselves. Every algorithm'',
        ''returns more bytes than it was given. Compressor framing is the only'',
        ''thing there is to add to input that has no redundancy in it.'',
        '''',
        ''| Chain | Field | Raw bytes | zlib | brotli | zstd | Best |'',
        ''|---|---|---|---|---|---|---|'']
       @ fs @
       ['''', ''Reproduce:'', '''',
        ''```'', ''python3 -m venv phase3/.venv'',
        ''phase3/.venv/bin/pip install brotli zstandard cryptography'',
        ''phase3/.venv/bin/python phase3/compressibility.py'', ''```''])))"

section \<open>The script\<close>

definition bundle_pem :: "string \<Rightarrow> path" where
  "bundle_pem name = [''results'', ''bundles'', name, ''chain.pem'']"

definition measure_bundle :: "compressors \<Rightarrow> string \<Rightarrow> string \<Rightarrow> ('x world_scheme, chain_row list) eff" where
  "measure_bundle c repo name = ebind (exists_file (bundle_pem name)) (\<lambda>ex.
     if \<not> ex
     then eseq (print (''skip '' @ name @ '': no bundle (run runners/harness.py first)'')) (ret [])
     else ebind (read_file (bundle_pem name)) (\<lambda>pem.
       ebind (lift (measure_chain c name (abs_path repo (bundle_pem name)) pem)) (\<lambda>r. ret [r])))"

definition chain_summary :: "chain_row \<Rightarrow> string" where
  "chain_summary r = pad_right 10 (cr_chain r) @ '' raw='' @ pad_left 6 (str_int (cr_raw r)) @ '' best=''
     @ pad_left 6 (str_int (cr_best r)) @ '' ('' @ cr_best_algo r @ '') saved=''
     @ pad_left 6 (str_int (cr_saved r)) @ '' ('' @ dec_string (cr_saved_pct r) 1 @ ''%)''"

definition field_summary :: "field_row \<Rightarrow> string" where
  "field_summary f = pad_right 10 (fr_chain f) @ '' '' @ pad_right 9 (fr_field f) @ '' raw=''
     @ pad_left 5 (str_int (fr_raw f)) @ '' best='' @ pad_left 5 (str_int (fr_best f)) @ '' delta='' @ plus_d (fr_delta f)"

definition compress_main :: "compressors \<Rightarrow> (bytes \<Rightarrow> (bytes \<times> bytes) res) \<Rightarrow> string \<Rightarrow> ('x world_scheme, unit) eff" where
  "compress_main c leaf repo =
     ebind (emap (measure_bundle c repo) chains_c) (\<lambda>rss.
     let rows = concat rss in
     ebind (gets (\<lambda>s name. files s (bundle_pem name))) (\<lambda>pem_of.
     ebind (lift (measure_fields c leaf pem_of)) (\<lambda>frows.
     eseq (write_file [''phase3'', ''compression.json''] (dumps_indent 0 (JObj [(''chains'', JList (map chain_json rows)),
         (''fields'', JList (map field_json frows))]) @ [CHR 0x0A])) (
     ebind (lift (compression_md rows frows)) (\<lambda>md.
     eseq (write_file [''phase3'', ''COMPRESSION.md''] (join [CHR 0x0A] md @ [CHR 0x0A])) (
     eseq (foreach (\<lambda>r. print (chain_summary r)) rows) (
     eseq (print '''') (
     eseq (foreach (\<lambda>f. print (field_summary f)) frows) (
     print ([CHR 0x0A] @ str_nat (length rows) @ '' chains -> phase3/compression.json, phase3/COMPRESSION.md''))))))))))"

section \<open>Properties\<close>

text \<open>A PEM bundle as text: one block per certificate, base64 in lines of 64.\<close>

definition pem_bundle :: "bytes list \<Rightarrow> string" where
  "pem_bundle certs = text_of (concat (map pem_block (map pem_body certs)))"

lemma pem_bundle_blocks: "pem_findall (ascii (pem_bundle certs)) = map pem_body certs"
  unfolding pem_bundle_def ascii_text_of by (rule pem_findall_blocks) (auto simp: pem_text_body)

lemma traverse_pem_body: "traverse b64decode (map pem_body certs) = Inr certs"
  by (induction certs) (simp_all add: b64decode_pem_body)

lemma cert_blocks_bundle: "cert_blocks (pem_bundle certs) = Inr certs"
  by (simp add: cert_blocks_def pem_bundle_blocks traverse_pem_body)

lemma measure_chain_total:
  assumes "cert_blocks pem = Inr certs" and "concat certs \<noteq> []"
  shows "\<exists>r. measure_chain c name location pem = Inr r"
proof -
  have "pem_findall (ascii pem) \<noteq> []"
    using assms by (auto simp: cert_blocks_def)
  then have "der_payload location pem = Inr (concat certs)"
    using assms(1) by (simp add: der_payload_def cert_blocks_def Let_def)
  then show ?thesis
    using assms by (auto simp: measure_chain_def Let_def getitem_best_algo true_div_def)
qed

text \<open>
  C25: the payload that is compressed is exactly the certificates.  From a bundle of PEM
  blocks, wrapped base64 with markers, the regular expression and the decoder recover
  the DER bytes of every certificate in order, and an empty bundle is refused.
\<close>

theorem payload_of_bundle:
  "der_payload location (pem_bundle certs) =
     (if certs = [] then Inl (SystemExit (''no certificates found in '' @ location)) else Inr (concat certs))"
  by (simp add: der_payload_def Let_def pem_bundle_blocks traverse_pem_body)

text \<open>What the chosen algorithm attains: the best size, which no compressor undercuts.\<close>

lemma best_algorithm:
  assumes "measure_chain c name location pem = Inr r"
  shows "map_of (cr_comp r) (cr_best_algo r) = Some (nat (cr_best r))"
    and "map_of (cr_comp r) k = Some n \<Longrightarrow> cr_best r \<le> int n"
proof -
  from assms obtain certs where r: "cr_best r = int (best_size c (concat certs))"
      "cr_best_algo r = best_algo (compress_all c (concat certs))" "cr_comp r = compress_all c (concat certs)"
    by (rule measure_chain_Inr)
  show "map_of (cr_comp r) (cr_best_algo r) = Some (nat (cr_best r))"
    using r getitem_best_algo[of c "concat certs"] by (simp add: res_simps)
  show "map_of (cr_comp r) k = Some n \<Longrightarrow> cr_best r \<le> int n"
  proof -
    assume "map_of (cr_comp r) k = Some n"
    then have "n \<in> set (map snd (compress_all c (concat certs)))"
      using map_of_SomeD[of "cr_comp r" k n] by (force simp: r(3))
    then have "best_size c (concat certs) \<le> n" unfolding best_size_def Let_def by (intro Min_le) auto
    then show ?thesis by (simp add: r(1))
  qed
qed

text \<open>
  C34: the saving is accounted for.  What a chain saves is the raw size minus the best
  compressed size, which is attained by the algorithm that is named and undercut by no
  other; the part within the certificates, one figure for each, and the part across them
  add up to it, and a chain of one certificate saves nothing across.
\<close>

theorem saving_accounted:
  assumes "measure_chain c name location pem = Inr r"
  shows "saved_within_certs (cr_split r) + saved_across_certs (cr_split r) = cr_saved r
    \<and> cr_saved r = cr_raw r - cr_best r \<and> cr_raw r = sum_list (cr_cert_sizes r)
    \<and> saved_within_certs (cr_split r) = sum_list (saved_per_cert (cr_split r))
    \<and> length (saved_per_cert (cr_split r)) = length (cr_cert_sizes r)
    \<and> (length (cr_cert_sizes r) = 1 \<longrightarrow> saved_across_certs (cr_split r) = 0)
    \<and> map_of (cr_comp r) (cr_best_algo r) = Some (nat (cr_best r))
    \<and> (\<forall>k n. map_of (cr_comp r) k = Some n \<longrightarrow> cr_best r \<le> int n)"
proof -
  from assms obtain certs where r: "cr_raw r = int (length (concat certs))" "cr_best r = int (best_size c (concat certs))"
      "cr_saved r = cr_raw r - cr_best r" "cr_split r = decompose c certs"
      "cr_cert_sizes r = map (\<lambda>x. int (length x)) certs"
    by (rule measure_chain_Inr)
  have "sum_list (map (\<lambda>x. int (length x)) certs) = int (length (concat certs))"
    by (induction certs) auto
  moreover have "saved_across_certs (decompose c certs) = 0" if "length certs = 1"
    using that decompose_single by (cases certs) auto
  ultimately show ?thesis
    using r decompose_total[of c certs] best_algorithm[OF assms] by (simp add: decompose_def Let_def)
qed

definition sample_compressors :: compressors where
  "sample_compressors = \<lparr>zlib_compress = (\<lambda>b l. 1 # 2 # b), brotli_compress = (\<lambda>b l. take (length b div l) b),
     zstd_compress = (\<lambda>b l. b)\<rparr>"

lemma sample_chain:
  "\<exists>r. measure_chain sample_compressors ''x'' ''p'' (pem_bundle [[1, 2, 3, 4], [5, 6]]) = Inr r"
  by (rule measure_chain_total[OF cert_blocks_bundle]) simp

theorem saving_accounted_witness:
  "\<exists>r. measure_chain sample_compressors ''x'' ''p'' (pem_bundle [[1, 2, 3, 4], [5, 6]]) = Inr r
     \<and> saved_within_certs (cr_split r) + saved_across_certs (cr_split r) = cr_saved r"
proof -
  obtain r where "measure_chain sample_compressors ''x'' ''p'' (pem_bundle [[1, 2, 3, 4], [5, 6]]) = Inr r"
    using sample_chain by blast
  then show ?thesis using saving_accounted by blast
qed

end
