(* ===== verification/Servers.thy ===== *)
theory Servers
  imports Effects
begin

text \<open>
  Child processes and the port they listen on, as \<open>runners/harness.py\<close> and
  \<open>phase3/transport.py\<close> use them: start, wait for the port, terminate, wait for exit.
  \<open>running\<close> holds the processes that may be up: started, and not known to have ended,
  which only a successful \<open>wait\<close> tells.  \<open>terminate\<close> sends a signal and ends nothing by
  itself.  Whether a process exits within the time of \<open>wait\<close> is the environment's choice.
  \<open>trace\<close> is the order of events.
\<close>

datatype proc = SServer string | Dumpcap string

datatype event =
    Spawned proc "string list"
  | Terminated proc
  | Reaped proc
  | Ran string string string
  | Called "string list"

record pworld = world +
  running :: "proc list"
  trace :: "event list"

text \<open>
  \<open>subprocess.Popen(argv)\<close>: \<open>spawn\<close> tells whether the program can be started; an
  exception (no such program, no permission) comes before anything runs.
\<close>

type_synonym spawner = "string list \<Rightarrow> unit res"

definition popen :: "spawner \<Rightarrow> proc \<Rightarrow> string list \<Rightarrow> ('x pworld_scheme, unit) eff" where
  "popen spawn p argv = ebind (lift (spawn argv)) (\<lambda>_.
     modify (\<lambda>s. s\<lparr>running := running s @ [p], trace := trace s @ [Spawned p argv]\<rparr>))"

text \<open>A command that is run to its end, as \<open>subprocess.run\<close> does.\<close>

definition call :: "string list \<Rightarrow> ('x pworld_scheme, unit) eff" where
  "call argv = modify (\<lambda>s. s\<lparr>trace := trace s @ [Called argv]\<rparr>)"

definition terminate :: "proc \<Rightarrow> ('x pworld_scheme, unit) eff" where
  "terminate p = modify (\<lambda>s. s\<lparr>trace := trace s @ [Terminated p]\<rparr>)"

text \<open>\<open>proc.wait(timeout=5)\<close>: a process that has not exited in time stays and raises.\<close>

definition wait_exit :: "(proc \<Rightarrow> bool) \<Rightarrow> proc \<Rightarrow> ('x pworld_scheme, unit) eff" where
  "wait_exit exits p = (if exits p
     then modify (\<lambda>s. s\<lparr>running := remove1 p (running s), trace := trace s @ [Reaped p]\<rparr>)
     else throw (TimeoutExpired ''wait''))"

text \<open>\<open>proc.terminate(); proc.wait(timeout=5)\<close>.\<close>

definition stop_proc :: "(proc \<Rightarrow> bool) \<Rightarrow> proc \<Rightarrow> ('x pworld_scheme, unit) eff" where
  "stop_proc exits p = eseq (terminate p) (wait_exit exits p)"

text \<open>
  The value of an option on a command line, and an \<open>openssl s_server\<close> that serves a
  bundle: the leaf with its key, and the intermediate below it.
\<close>

fun flag_value :: "string \<Rightarrow> string list \<Rightarrow> string option" where
  "flag_value k (a # v # rest) = (if a = k then Some v else flag_value k (v # rest))"
| "flag_value k _ = None"

definition serves :: "string \<Rightarrow> path \<Rightarrow> string list \<Rightarrow> bool" where
  "serves repo b argv \<longleftrightarrow> take 2 argv = [''openssl'', ''s_server'']
     \<and> flag_value ''-cert'' argv = Some (abs_path repo (b @ [''leaf.crt'']))
     \<and> flag_value ''-key'' argv = Some (abs_path repo (b @ [''leaf.key'']))
     \<and> flag_value ''-cert_chain'' argv = Some (abs_path repo (b @ [''int.crt'']))"

lemma abs_path_no_option [simp]: "CHR ''/'' \<notin> set k \<Longrightarrow> abs_path repo p \<noteq> k"
  by (auto simp: abs_path_def)

lemmas proc_defs [eff_simps] = popen_def call_def terminate_def wait_exit_def stop_proc_def

lemma popen_run [run_simps]: "popen spawn p argv s = (Inr u, t) \<longleftrightarrow> spawn argv = Inr ()
    \<and> t = s\<lparr>running := running s @ [p], trace := trace s @ [Spawned p argv]\<rparr>"
  by (auto simp: eff_simps split: sum.splits)

lemma popen_fails: "popen spawn p argv s = (Inl e, t) \<longleftrightarrow> spawn argv = Inl e \<and> t = s"
  by (auto simp: eff_simps split: sum.splits)

lemma call_run [run_simps]: "call argv s = (Inr u, t) \<longleftrightarrow> t = s\<lparr>trace := trace s @ [Called argv]\<rparr>"
  by (auto simp: eff_simps)

section \<open>Waiting for the port\<close>

text \<open>
  \<open>wait_port\<close>, in milliseconds.  Attempt \<open>i\<close> is whether the connection succeeds and
  how long it takes beyond the 100 ms slept after a failure; \<open>time.time()\<close> is taken as a
  clock that does not run backwards.
\<close>

function wait_until :: "(nat \<Rightarrow> bool \<times> nat) \<Rightarrow> nat \<Rightarrow> nat \<Rightarrow> nat \<Rightarrow> bool" where
  "wait_until attempt stop now i =
     (if now < stop
      then (if fst (attempt i) then True
            else wait_until attempt stop (now + snd (attempt i) + 100) (Suc i))
      else False)"
  by pat_completeness auto
termination
  by (relation "measure (\<lambda>(attempt, stop, now, i). stop - now)") auto

declare wait_until.simps [simp del]

definition wait_port :: "(nat \<Rightarrow> bool \<times> nat) \<Rightarrow> nat \<Rightarrow> bool" where
  "wait_port attempt timeout = wait_until attempt timeout 0 0"

text \<open>When attempt \<open>i\<close> starts if all before it failed.\<close>

definition start_time :: "(nat \<Rightarrow> bool \<times> nat) \<Rightarrow> nat \<Rightarrow> nat" where
  "start_time attempt i = sum_list (map (\<lambda>k. snd (attempt k) + 100) [0..<i])"

lemma start_time_Suc: "start_time attempt (Suc i) = start_time attempt i + snd (attempt i) + 100"
  by (simp add: start_time_def)

lemma start_time_ge: "100 * i \<le> start_time attempt i"
  by (induction i) (auto simp: start_time_Suc start_time_def)

lemma start_time_mono: "i \<le> j \<Longrightarrow> start_time attempt i \<le> start_time attempt j"
  by (induction j rule: dec_induct) (auto simp: start_time_Suc)

lemma wait_until_iff:
  "wait_until attempt stop (start_time attempt i) i
     \<longleftrightarrow> (\<exists>k\<ge>i. start_time attempt k < stop \<and> fst (attempt k))"
proof (induction "stop - start_time attempt i" arbitrary: i rule: less_induct)
  case less
  let ?t = "start_time attempt"
  show ?case
  proof (cases "?t i < stop")
    case False
    then have "\<not> ?t k < stop" if "i \<le> k" for k using start_time_mono[OF that, of attempt] by simp
    then show ?thesis using False by (subst wait_until.simps) auto
  next
    case True
    then have ih: "wait_until attempt stop (?t (Suc i)) (Suc i)
        \<longleftrightarrow> (\<exists>k\<ge>Suc i. ?t k < stop \<and> fst (attempt k))"
      by (intro less.hyps) (simp add: start_time_Suc)
    have "wait_until attempt stop (?t i) i
        \<longleftrightarrow> fst (attempt i) \<or> wait_until attempt stop (?t (Suc i)) (Suc i)"
      using True by (subst wait_until.simps) (simp add: start_time_Suc add.assoc)
    moreover have "(\<exists>k\<ge>i. P k) \<longleftrightarrow> P i \<or> (\<exists>k\<ge>Suc i. P k)" for P
      by (metis Suc_leD le_antisym not_less_eq_eq order_refl)
    ultimately show ?thesis using ih True by simp
  qed
qed

section \<open>One server at a time\<close>

text \<open>
  The protocol of a run as a relation on event sequences: from the server that is in
  service (started and not told to stop), if any, to the one that is afterwards.  A
  server is started only when none is in service, a runner is handed \<open>-\<close> only then, and
  otherwise runs against the chain's own server.
\<close>

inductive serving :: "proc option \<Rightarrow> event list \<Rightarrow> proc option \<Rightarrow> bool" where
  stop: "serving p [] p"
| spawn: "serving (Some p) es q \<Longrightarrow> serving None (Spawned p argv # es) q"
| run_offline: "serving None es q \<Longrightarrow> serving None (Ran c chain ''-'' # es) q"
| run_served: "addr \<noteq> ''-'' \<Longrightarrow> serving (Some (SServer chain)) es q
    \<Longrightarrow> serving (Some (SServer chain)) (Ran c chain addr # es) q"
| terminated: "serving None es q \<Longrightarrow> serving (Some p) (Terminated p # es) q"
| reaped: "serving None es q \<Longrightarrow> serving None (Reaped p # es) q"
| called: "serving p es q \<Longrightarrow> serving p (Called argv # es) q"

lemma serving_append: "serving p xs q \<Longrightarrow> serving q ys r \<Longrightarrow> serving p (xs @ ys) r"
  by (induction rule: serving.induct) (auto intro: serving.intros)

lemma serving_concat: "(\<And>es. es \<in> set ess \<Longrightarrow> serving None es None) \<Longrightarrow> serving None (concat ess) None"
  by (induction ess) (auto intro: serving.intros serving_append)

text \<open>The processes that may be up after a sequence of events: started and not waited for.\<close>

fun alive :: "proc list \<Rightarrow> event list \<Rightarrow> proc list" where
  "alive ps [] = ps"
| "alive ps (Spawned p argv # es) = alive (ps @ [p]) es"
| "alive ps (Reaped p # es) = alive (remove1 p ps) es"
| "alive ps (_ # es) = alive ps es"

lemma alive_append: "alive ps (xs @ ys) = alive (alive ps xs) ys"
  by (induction ps xs rule: alive.induct) simp_all

text \<open>A condition on every event and the processes that may be up when it happens.\<close>

fun watched :: "(proc list \<Rightarrow> event \<Rightarrow> bool) \<Rightarrow> proc list \<Rightarrow> event list \<Rightarrow> bool" where
  "watched Q ps [] = True"
| "watched Q ps (e # es) = (Q ps e \<and> watched Q (alive ps [e]) es)"

lemma watched_append: "watched Q ps (xs @ ys) \<longleftrightarrow> watched Q ps xs \<and> watched Q (alive ps xs) ys"
proof (induction Q ps xs rule: watched.induct)
  case (2 Q ps e es)
  have "alive ps (e # es) = alive (alive ps [e]) es" using alive_append[of ps "[e]" es] by simp
  then show ?case using 2 by simp
qed simp

lemma watched_at: "watched Q ps (xs @ e # ys) \<Longrightarrow> Q (alive ps xs) e"
  by (simp add: watched_append)

lemma watched_concat:
  "(\<And>es. es \<in> set ess \<Longrightarrow> watched Q [] es \<and> alive [] es = []) \<Longrightarrow>
     watched Q [] (concat ess) \<and> alive [] (concat ess) = []"
  by (induction ess) (simp_all add: watched_append alive_append)

section \<open>Properties\<close>

text \<open>
  C36: waiting for the port.  \<open>wait_port\<close> returns true exactly when one of its attempts
  that starts before the five seconds are over succeeds, and as every failed attempt
  costs at least the 100 ms it sleeps, at most 50 attempts are made: it always returns.
\<close>

theorem wait_port_exact:
  "wait_port attempt 5000 \<longleftrightarrow> (\<exists>k<50. start_time attempt k < 5000 \<and> fst (attempt k))"
proof -
  have "start_time attempt 0 = 0" by (simp add: start_time_def)
  then have "wait_port attempt 5000 \<longleftrightarrow> (\<exists>k. start_time attempt k < 5000 \<and> fst (attempt k))"
    using wait_until_iff[of attempt 5000 0] by (simp add: wait_port_def)
  moreover have "k < 50" if "start_time attempt k < 5000" for k
    using start_time_ge[of k attempt] that by simp
  ultimately show ?thesis by blast
qed

end
