(* ===== verification/Redact.thy ===== *)
theory Redact
  imports Effects
begin

text \<open>
  \<open>str.replace\<close> and the redaction built on it (\<open>redact\<close> in \<open>runners/harness.py\<close>, and
  the same call in \<open>phase3/transport.py\<close>): every occurrence of the checkout's absolute
  path becomes \<open><repo>\<close>.  For an absolute path without \<open><\<close> nothing of the form of the
  path is left, and a second redaction changes nothing.
\<close>

section \<open>str.replace\<close>

text \<open>
  Leftmost, non-overlapping occurrences of \<open>o # os\<close>; an empty pattern is found before
  every character and at the end.
\<close>

fun replace_ne :: "'a \<Rightarrow> 'a list \<Rightarrow> 'a list \<Rightarrow> 'a list \<Rightarrow> 'a list" where
  "replace_ne p ps new [] = []"
| "replace_ne p ps new (c # cs) =
     (if prefix (p # ps) (c # cs) then new @ replace_ne p ps new (drop (length ps) cs)
      else c # replace_ne p ps new cs)"

definition py_replace :: "'a list \<Rightarrow> 'a list \<Rightarrow> 'a list \<Rightarrow> 'a list" where
  "py_replace old new s = (case old of
     [] \<Rightarrow> new @ concat (map (\<lambda>c. c # new) s)
   | p # ps \<Rightarrow> replace_ne p ps new s)"

definition occurs :: "'a list \<Rightarrow> 'a list \<Rightarrow> bool" where
  "occurs pat s \<longleftrightarrow> (\<exists>i. prefix pat (drop i s))"

lemma occurs_iff_sublist: "occurs pat s \<longleftrightarrow> sublist pat s"
proof
  assume "occurs pat s"
  then obtain i t where "drop i s = pat @ t" by (auto simp: occurs_def prefix_def)
  then have "s = take i s @ pat @ t" by (metis append_take_drop_id)
  then show "sublist pat s" by (metis sublist_appendI)
next
  assume "sublist pat s"
  then obtain a b where "s = a @ pat @ b" by (auto simp: sublist_def)
  then have "prefix pat (drop (length a) s)" by simp
  then show "occurs pat s" unfolding occurs_def by blast
qed

lemma occurs_Cons: "occurs pat (c # s) \<longleftrightarrow> prefix pat (c # s) \<or> occurs pat s"
  by (simp add: occurs_iff_sublist sublist_Cons_right)

lemma not_occurs_Nil: "pat \<noteq> [] \<Longrightarrow> \<not> occurs pat []"
  by (auto simp: occurs_def)

lemma replace_ne_id: "\<not> occurs (p # ps) s \<Longrightarrow> replace_ne p ps new s = s"
  by (induction s) (auto simp: occurs_Cons)

text \<open>
  A prefix of replaced text that avoids the first character of \<open>new\<close> was there before.
\<close>

lemma prefix_replace_ne:
  "n \<notin> set q \<Longrightarrow> prefix q (replace_ne p ps (n # ns) s) \<Longrightarrow> prefix q s"
proof (induction p ps "n # ns" s arbitrary: q rule: replace_ne.induct)
  case (2 p ps c cs)
  show ?case
  proof (cases q)
    case (Cons a r)
    show ?thesis
    proof (cases "prefix (p # ps) (c # cs)")
      case True
      with "2.prems" Cons show ?thesis by simp
    next
      case False
      then have "replace_ne p ps (n # ns) (c # cs) = c # replace_ne p ps (n # ns) cs"
        by (simp only: replace_ne.simps if_False)
      with "2.prems" "2.hyps"(2)[OF False, of r] Cons show ?thesis by simp
    qed
  qed simp
qed simp

lemma occurs_append_free:
  "p \<notin> set new \<Longrightarrow> occurs (p # ps) (new @ s) \<longleftrightarrow> occurs (p # ps) s"
  by (induction new) (auto simp: occurs_Cons)

lemma replace_ne_removes:
  "n \<notin> set (p # ps) \<Longrightarrow> p \<notin> set (n # ns) \<Longrightarrow> \<not> occurs (p # ps) (replace_ne p ps (n # ns) s)"
proof (induction p ps "n # ns" s rule: replace_ne.induct)
  case (2 p ps c cs)
  show ?case
  proof (cases "prefix (p # ps) (c # cs)")
    case True
    then have "replace_ne p ps (n # ns) (c # cs) = (n # ns) @ replace_ne p ps (n # ns) (drop (length ps) cs)"
      by (simp only: replace_ne.simps if_True)
    then show ?thesis
      using occurs_append_free[OF "2.prems"(2), of ps] "2.hyps"(1)[OF True "2.prems"] by simp
  next
    case False
    then have "\<not> prefix (p # ps) (c # replace_ne p ps (n # ns) cs)"
      using prefix_replace_ne[of n ps p ps ns cs] "2.prems"(1) by auto
    moreover have "replace_ne p ps (n # ns) (c # cs) = c # replace_ne p ps (n # ns) cs"
      using False by (simp only: replace_ne.simps if_False)
    ultimately show ?thesis
      using "2.hyps"(2)[OF False "2.prems"] by (simp only: occurs_Cons) simp
  qed
qed (simp add: not_occurs_Nil)

section \<open>The redaction\<close>

definition repo_mark :: string where
  "repo_mark = ''<repo>''"

definition redact :: "string \<Rightarrow> string \<Rightarrow> string" where
  "redact root_str text = py_replace root_str repo_mark text"

definition absolute :: "string \<Rightarrow> bool" where
  "absolute r \<longleftrightarrow> (\<exists>rest. r = CHR ''/'' # rest) \<and> CHR ''<'' \<notin> set r"

lemma redact_removes: "absolute r \<Longrightarrow> \<not> occurs r (redact r text)"
proof -
  assume "absolute r"
  then obtain rest where r: "r = CHR ''/'' # rest" "CHR ''<'' \<notin> set r"
    by (auto simp: absolute_def)
  have "\<not> occurs (CHR ''/'' # rest) (replace_ne (CHR ''/'') rest (CHR ''<'' # ''repo>'') text)"
    by (rule replace_ne_removes) (use r in auto)
  then show ?thesis by (simp add: r(1) redact_def py_replace_def repo_mark_def)
qed

lemma redact_unchanged: "r \<noteq> [] \<Longrightarrow> \<not> occurs r t \<Longrightarrow> redact r t = t"
  by (cases r) (auto simp: redact_def py_replace_def replace_ne_id)

lemma redact_idem: "absolute r \<Longrightarrow> redact r (redact r t) = redact r t"
  using redact_removes[of r t] by (intro redact_unchanged) (auto simp: absolute_def)

text \<open>
  Nothing but the path is touched: putting the path back for the mark gives the text
  again, where the text did not hold the mark itself.
\<close>

lemma replace_ne_restore:
  "n \<notin> set ns \<Longrightarrow> \<not> occurs (n # ns) s \<Longrightarrow>
     replace_ne n ns (p # ps) (replace_ne p ps (n # ns) s) = s"
proof (induction p ps "n # ns" s rule: replace_ne.induct)
  case (2 p ps c cs)
  show ?case
  proof (cases "prefix (p # ps) (c # cs)")
    case True
    then obtain t where t: "cs = ps @ t" "c = p" by (auto simp: prefix_def)
    have "\<not> occurs (n # ns) (drop (length ps) cs)"
      using "2.prems"(2) by (auto simp: occurs_def) (metis drop_drop drop_Suc_Cons)
    then have "replace_ne n ns (p # ps) (replace_ne p ps (n # ns) t) = t"
      using "2.hyps"(1)[OF True "2.prems"(1)] t by simp
    moreover have "replace_ne p ps (n # ns) (c # cs) = (n # ns) @ replace_ne p ps (n # ns) t"
      using True by (simp only: replace_ne.simps if_True) (simp add: t)
    ultimately show ?thesis by (simp add: t)
  next
    case False
    then have eq: "replace_ne p ps (n # ns) (c # cs) = c # replace_ne p ps (n # ns) cs"
      by (simp only: replace_ne.simps if_False)
    have free: "\<not> occurs (n # ns) cs" "\<not> prefix (n # ns) (c # cs)"
      using "2.prems"(2) by (simp_all only: occurs_Cons de_Morgan_disj simp_thms)
    then have "\<not> prefix (n # ns) (c # replace_ne p ps (n # ns) cs)"
      using prefix_replace_ne[OF "2.prems"(1), of p ps ns cs] by auto
    then have "replace_ne n ns (p # ps) (c # replace_ne p ps (n # ns) cs)
        = c # replace_ne n ns (p # ps) (replace_ne p ps (n # ns) cs)"
      by (simp only: replace_ne.simps if_False)
    then show ?thesis using "2.hyps"(2)[OF False "2.prems"(1) free(1)] by (simp only: eq)
  qed
qed simp

lemma redact_restore:
  assumes "r \<noteq> []" and "\<not> occurs repo_mark t"
  shows "py_replace repo_mark r (redact r t) = t"
  using assms replace_ne_restore[of "CHR ''<''" "''repo>''" t "hd r" "tl r"]
  by (cases r) (simp_all add: py_replace_def redact_def repo_mark_def)

section \<open>Properties\<close>

text \<open>
  C24: redaction removes the path and nothing else.  After \<open>redact\<close> the checkout's
  absolute path occurs nowhere in the text, not even across what was replaced, and
  redacting again changes nothing; putting the path back in place of the mark gives the
  original text when it did not hold the mark, and a text without the path is returned
  as it is.
\<close>

theorem redact_complete:
  assumes "absolute r"
  shows "\<not> occurs r (redact r t) \<and> redact r (redact r t) = redact r t
    \<and> (if occurs repo_mark t then True else py_replace repo_mark r (redact r t) = t)
    \<and> (if occurs r t then True else redact r t = t)"
proof -
  have "r \<noteq> []" using assms by (auto simp: absolute_def)
  then show ?thesis
    using redact_removes[OF assms] redact_idem[OF assms] redact_restore[of r t] redact_unchanged[of r t] by simp
qed

theorem redact_complete_witness:
  "\<not> occurs ''/home/u/repo'' (redact ''/home/u/repo'' ''error at /home/u/repo/leaf.crt'')
   \<and> py_replace repo_mark ''/r'' (redact ''/r'' ''x/r/y'') = ''x/r/y''"
  using redact_complete[of "''/home/u/repo''" "''error at /home/u/repo/leaf.crt''"] redact_complete[of "''/r''" "''x/r/y''"]
  by (simp add: absolute_def occurs_Cons not_occurs_Nil repo_mark_def)

end
