(* ===== verification/Transport.thy ===== *)
theory Transport
  imports Servers Redact Json
begin

text \<open>
  \<open>phase3/transport.py\<close>: capture a handshake, decrypt it with the key log and attribute
  its bytes to handshake messages.  \<open>tshark\<close>, \<open>openssl\<close> and \<open>dumpcap\<close> are the
  environment: what they print, which files they leave, whether they exit in time.
  Process handling is that of theory \<open>Servers\<close>.
\<close>

section \<open>Reading tshark's fields\<close>

definition hs_names :: "(int, string) dict" where
  "hs_names = [(1, ''ClientHello''), (2, ''ServerHello''), (4, ''NewSessionTicket''),
     (8, ''EncryptedExtensions''), (11, ''Certificate''), (13, ''CertificateRequest''),
     (15, ''CertificateVerify''), (20, ''Finished''), (25, ''CompressedCertificate'')]"

type_synonym tshark_row = "string list list"

definition column_values :: "string \<Rightarrow> string list" where
  "column_values c = (if c = [] then [] else split_on (CHR '','') c)"

definition tshark_rows :: "string \<Rightarrow> tshark_row list" where
  "tshark_rows stdout = map (\<lambda>l. map column_values (split_on (CHR 0x09) l))
     (filter (\<lambda>l. strip l \<noteq> []) (splitlines stdout))"

definition three_columns :: "tshark_row \<Rightarrow> (string list \<times> string list \<times> string list) res" where
  "three_columns row = (case row of a # b # c # _ \<Rightarrow> Inr (a, b, c) | _ \<Rightarrow> Inl IndexError)"

datatype side = Server | Client

instantiation side :: enum
begin

definition enum_side :: "side list" where
  "enum_side = [Server, Client]"

definition enum_all_side :: "(side \<Rightarrow> bool) \<Rightarrow> bool" where
  "enum_all_side P \<longleftrightarrow> P Server \<and> P Client"

definition enum_ex_side :: "(side \<Rightarrow> bool) \<Rightarrow> bool" where
  "enum_ex_side P \<longleftrightarrow> P Server \<or> P Client"

lemma side_univ: "(UNIV :: side set) = {Server, Client}"
  using side.exhaust by auto

instance
  by standard (simp_all add: side_univ enum_side_def enum_all_side_def enum_ex_side_def)

end

definition port_str :: string where
  "port_str = ''14435''"

definition side_of :: "string list \<Rightarrow> side" where
  "side_of srcport = (if srcport \<noteq> [] \<and> hd srcport = port_str then Server else Client)"

section \<open>Attributing bytes\<close>

definition hs_name :: "string \<Rightarrow> string res" where
  "hs_name t = rbind (py_int t) (\<lambda>n. Inr (get_default hs_names n (''type'' @ t)))"

text \<open>\<open>d[k] = d.get(k, 0) + v\<close>.\<close>

definition dict_add :: "'k \<Rightarrow> int \<Rightarrow> ('k, int) dict \<Rightarrow> ('k, int) dict" where
  "dict_add k v d = dict_set k (get_default d k 0 + v) d"

record messages =
  server_msgs :: "(string, int) dict"
  client_msgs :: "(string, int) dict"

definition msgs_of :: "side \<Rightarrow> messages \<Rightarrow> (string, int) dict" where
  "msgs_of w m = (case w of Server \<Rightarrow> server_msgs m | Client \<Rightarrow> client_msgs m)"

definition add_message :: "side \<Rightarrow> string \<Rightarrow> int \<Rightarrow> messages \<Rightarrow> messages" where
  "add_message w k v m = (case w of
     Server \<Rightarrow> m\<lparr>server_msgs := dict_add k v (server_msgs m)\<rparr>
   | Client \<Rightarrow> m\<lparr>client_msgs := dict_add k v (client_msgs m)\<rparr>)"

fun add_pairs :: "side \<Rightarrow> (string \<times> string) list \<Rightarrow> messages \<Rightarrow> messages res" where
  "add_pairs w [] m = Inr m"
| "add_pairs w ((t, ln) # ps) m =
     rbind (hs_name t) (\<lambda>name. rbind (py_int ln) (\<lambda>v. add_pairs w ps (add_message w name v m)))"

definition message_row :: "tshark_row \<Rightarrow> messages \<Rightarrow> messages res" where
  "message_row row m = rbind (three_columns row) (\<lambda>(srcport, types, lengths).
     add_pairs (side_of srcport) (zip types lengths) m)"

fun rfold :: "('a \<Rightarrow> 's \<Rightarrow> 's res) \<Rightarrow> 'a list \<Rightarrow> 's \<Rightarrow> 's res" where
  "rfold f [] s = Inr s"
| "rfold f (x # xs) s = rbind (f x s) (rfold f xs)"

definition attribute_messages :: "tshark_row list \<Rightarrow> messages res" where
  "attribute_messages rows = rfold message_row rows \<lparr>server_msgs = [], client_msgs = []\<rparr>"

record records =
  server_recs :: "int list"
  client_recs :: "int list"
  server_tcp :: int
  client_tcp :: int

definition record_row :: "tshark_row \<Rightarrow> records \<Rightarrow> records res" where
  "record_row row r = rbind (three_columns row) (\<lambda>(srcport, tcplen, reclens).
     rbind (case tcplen of [] \<Rightarrow> Inr 0 | x # _ \<Rightarrow> py_int x) (\<lambda>n.
     rbind (traverse py_int reclens) (\<lambda>ls. Inr (case side_of srcport of
       Server \<Rightarrow> r\<lparr>server_tcp := server_tcp r + n, server_recs := server_recs r @ ls\<rparr>
     | Client \<Rightarrow> r\<lparr>client_tcp := client_tcp r + n, client_recs := client_recs r @ ls\<rparr>))))"

definition collect_records :: "tshark_row list \<Rightarrow> records res" where
  "collect_records rows = rfold record_row rows
     \<lparr>server_recs = [], client_recs = [], server_tcp = 0, client_tcp = 0\<rparr>"

definition flight_bytes :: "(string, int) dict \<Rightarrow> int" where
  "flight_bytes srv = sum_list (map snd (filter (\<lambda>kv. fst kv \<noteq> ''NewSessionTicket'') srv))"

fun max_default :: "int list \<Rightarrow> int" where
  "max_default [] = 0"
| "max_default (x # xs) = Max (set (x # xs))"

record capture =
  cp_server_messages :: "(string, int) dict"
  cp_client_messages :: "(string, int) dict"
  cp_flight :: int
  cp_server_records :: "int list"
  cp_client_records :: "int list"
  cp_largest :: int
  cp_server_tcp :: int
  cp_client_tcp :: int
  cp_compressed :: bool

definition capture_of :: "messages \<Rightarrow> records \<Rightarrow> capture" where
  "capture_of m r = (let srv = server_msgs m in
     \<lparr>cp_server_messages = srv, cp_client_messages = client_msgs m, cp_flight = flight_bytes srv,
      cp_server_records = server_recs r, cp_client_records = client_recs r,
      cp_largest = max_default (server_recs r), cp_server_tcp = server_tcp r, cp_client_tcp = client_tcp r,
      cp_compressed = (map_of srv ''CompressedCertificate'' \<noteq> None)\<rparr>)"

section \<open>The environment of one capture\<close>

record capture_env =
  ce_spawn :: spawner
  ce_attempt :: "string \<Rightarrow> string \<Rightarrow> nat \<Rightarrow> bool \<times> nat"
  ce_exits :: "proc \<Rightarrow> bool"
  ce_client :: "string list \<Rightarrow> event list \<Rightarrow> (string \<times> string) res"
  ce_left :: "string \<Rightarrow> string \<Rightarrow> (path \<times> string) list"
  ce_tshark :: "string list \<Rightarrow> (path \<Rightarrow> string option) \<Rightarrow> string res"

text \<open>The command lines.\<close>

definition tshark_args :: "string \<Rightarrow> path \<Rightarrow> path \<Rightarrow> string \<Rightarrow> string list \<Rightarrow> string list" where
  "tshark_args repo pcap keylog display cols =
     [''tshark'', ''-r'', abs_path repo pcap, ''-o'', ''tls.keylog_file:'' @ abs_path repo keylog,
      ''-Y'', display, ''-T'', ''fields''] @ concat (map (\<lambda>f. [''-e'', f]) cols)"

definition capture_server_args :: "string \<Rightarrow> path \<Rightarrow> path \<Rightarrow> string list \<Rightarrow> string list" where
  "capture_server_args repo b keylog extra =
     [''openssl'', ''s_server'', ''-accept'', port_str, ''-quiet'',
      ''-cert'', abs_path repo (b @ [''leaf.crt'']), ''-key'', abs_path repo (b @ [''leaf.key'']),
      ''-cert_chain'', abs_path repo (b @ [''int.crt'']), ''-keylogfile'', abs_path repo keylog] @ extra"

definition dumpcap_args :: "string \<Rightarrow> path \<Rightarrow> string list" where
  "dumpcap_args repo pcap =
     [''dumpcap'', ''-i'', ''lo'', ''-f'', ''tcp port '' @ port_str, ''-w'', abs_path repo pcap, ''-q'']"

definition client_args :: "string \<Rightarrow> path \<Rightarrow> string list" where
  "client_args repo b =
     [''openssl'', ''s_client'', ''-connect'', ''127.0.0.1:'' @ port_str,
      ''-servername'', ''matrix.test'', ''-CAfile'', abs_path repo (b @ [''root.crt''])]"

text \<open>
  \<open>tshark\<close> reads the files that are there when it runs; its exit code is not looked at,
  so that only a program that cannot be started raises.
\<close>

definition tshark_fields :: "capture_env \<Rightarrow> string \<Rightarrow> path \<Rightarrow> path \<Rightarrow> string \<Rightarrow> string list
    \<Rightarrow> ('x pworld_scheme, tshark_row list) eff" where
  "tshark_fields env repo pcap keylog display cols =
     (let argv = tshark_args repo pcap keylog display cols in
      eseq (call argv) (
      ebind (gets files) (\<lambda>fs.
      ebind (lift (ce_tshark env argv fs)) (\<lambda>stdout. ret (tshark_rows stdout)))))"

definition message_cols :: "string list" where
  "message_cols = [''tcp.srcport'', ''tls.handshake.type'', ''tls.handshake.length'']"

definition record_cols :: "string list" where
  "record_cols = [''tcp.srcport'', ''tcp.len'', ''tls.record.length'']"

definition analyze :: "capture_env \<Rightarrow> string \<Rightarrow> path \<Rightarrow> path \<Rightarrow> path \<Rightarrow> ('x pworld_scheme, capture) eff" where
  "analyze env repo pcap keylog ev =
     ebind (tshark_fields env repo pcap keylog ''tls.handshake.type'' message_cols) (\<lambda>rows.
     ebind (lift (attribute_messages rows)) (\<lambda>m.
     ebind (tshark_fields env repo pcap keylog ''tcp.len > 0'' record_cols) (\<lambda>rows.
     ebind (lift (collect_records rows)) (\<lambda>r.
     eseq (write_file (ev @ [''records.txt''])
       (''server records: '' @ join '', '' (map str_int (server_recs r)) @ [CHR 0x0A]
        @ ''client records: '' @ join '', '' (map str_int (client_recs r)) @ [CHR 0x0A]))
     (ret (capture_of m r))))))"

section \<open>One capture\<close>

datatype outcome = Failed string | Captured capture

definition bundle_path :: "string \<Rightarrow> path" where
  "bundle_path chain = [''results'', ''bundles'', chain]"

definition pcap_path :: "path \<Rightarrow> path" where
  "pcap_path ev = ev @ [''capture.pcap'']"

definition keylog_path :: "path \<Rightarrow> path" where
  "keylog_path ev = ev @ [''keys.log'']"

text \<open>The evidence directory is there and holds no capture and no key log of an earlier run.\<close>

definition capture_setup :: "path \<Rightarrow> ('x world_scheme, unit) eff" where
  "capture_setup ev = eseq (mkdir ev) (
     eseq (unlink_missing_ok (pcap_path ev)) (unlink_missing_ok (keylog_path ev)))"

text \<open>
  The body of the \<open>try\<close> once the capture process is up: the client and its output.  What
  the processes leave on disk (\<open>ce_left\<close>) is there whether the client succeeds or
  raises.  Pauses (\<open>time.sleep\<close>) have no effect on the state.
\<close>

definition capture_body :: "capture_env \<Rightarrow> string \<Rightarrow> string \<Rightarrow> string \<Rightarrow> path
    \<Rightarrow> ('x pworld_scheme, unit) eff" where
  "capture_body env repo chain mode ev =
     eseq (modify (\<lambda>s. s\<lparr>files := files s ++ map_of (ce_left env chain mode)\<rparr>)) (
     eseq (call (client_args repo (bundle_path chain))) (
     ebind (gets trace) (\<lambda>es.
     ebind (lift (ce_client env (client_args repo (bundle_path chain)) es)) (\<lambda>(stdout, stderr).
     write_file (ev @ [''client.txt'']) (redact repo (stdout @ stderr))))))"

text \<open>The \<open>finally\<close> block; \<open>cap\<close> tells whether the capture process was started.\<close>

definition capture_cleanup :: "capture_env \<Rightarrow> string \<Rightarrow> bool \<Rightarrow> ('x pworld_scheme, unit) eff" where
  "capture_cleanup env chain cap =
     eseq (if cap then stop_proc (ce_exits env) (Dumpcap chain) else ret ())
          (stop_proc (ce_exits env) (SServer chain))"

text \<open>The \<open>try\<close> statement from the start of the capture process on.\<close>

definition capture_try :: "capture_env \<Rightarrow> string \<Rightarrow> string \<Rightarrow> string \<Rightarrow> path
    \<Rightarrow> ('x pworld_scheme, unit) eff" where
  "capture_try env repo chain mode ev s =
     (case popen (ce_spawn env) (Dumpcap chain) (dumpcap_args repo (pcap_path ev)) s of
        (Inl e, t) \<Rightarrow> efinally (throw e) (capture_cleanup env chain False) t
      | (Inr _, t) \<Rightarrow> efinally (capture_body env repo chain mode ev) (capture_cleanup env chain True) t)"

definition capture_read :: "capture_env \<Rightarrow> string \<Rightarrow> path \<Rightarrow> ('x pworld_scheme, outcome) eff" where
  "capture_read env repo ev =
     ebind (exists_file (pcap_path ev)) (\<lambda>p. ebind (exists_file (keylog_path ev)) (\<lambda>k.
       if \<not> p \<or> \<not> k then ret (Failed ''capture or keylog missing'')
       else ebind (analyze env repo (pcap_path ev) (keylog_path ev) ev) (\<lambda>c. ret (Captured c))))"

definition capture_serve :: "capture_env \<Rightarrow> string \<Rightarrow> string \<Rightarrow> string \<Rightarrow> path
    \<Rightarrow> ('x pworld_scheme, outcome) eff" where
  "capture_serve env repo chain mode ev =
     (if \<not> wait_port (ce_attempt env chain mode) 5000
      then efinally (ret (Failed ''server did not start'')) (capture_cleanup env chain False)
      else eseq (capture_try env repo chain mode ev) (capture_read env repo ev))"

definition capture_one :: "capture_env \<Rightarrow> string \<Rightarrow> string \<Rightarrow> string \<Rightarrow> string list \<Rightarrow> path
    \<Rightarrow> ('x pworld_scheme, outcome) eff" where
  "capture_one env repo chain mode extra ev =
     eseq (capture_setup ev) (
     eseq (popen (ce_spawn env) (SServer chain)
       (capture_server_args repo (bundle_path chain) (keylog_path ev) extra))
     (capture_serve env repo chain mode ev))"

section \<open>The script\<close>

definition transport_chains :: "string list" where
  "transport_chains = [''ecdsa'', ''mldsa44'', ''mldsa65'', ''mldsa87'', ''slhroot'', ''mixed'', ''catalyst'']"

definition transport_modes :: "(string, string list) dict" where
  "transport_modes = [(''compression'', []), (''no-compression'', [''-no_tx_cert_comp''])]"

record result =
  rs_outcome :: outcome
  rs_chain :: string
  rs_mode :: string

definition ints_json :: "(string, int) dict \<Rightarrow> json" where
  "ints_json d = JObj (map (\<lambda>(k, v). (k, JInt v)) d)"

definition result_json :: "result \<Rightarrow> json" where
  "result_json r = JObj ((case rs_outcome r of
       Failed e \<Rightarrow> [(''error'', JStr e)]
     | Captured c \<Rightarrow> [(''server_messages'', ints_json (cp_server_messages c)),
         (''client_messages'', ints_json (cp_client_messages c)),
         (''server_flight_handshake_bytes'', JInt (cp_flight c)),
         (''server_records'', JList (map JInt (cp_server_records c))),
         (''client_records'', JList (map JInt (cp_client_records c))),
         (''largest_server_record'', JInt (cp_largest c)),
         (''server_tcp_bytes'', JInt (cp_server_tcp c)), (''client_tcp_bytes'', JInt (cp_client_tcp c)),
         (''compressed'', JBool (cp_compressed c))])
     @ [(''chain'', JStr (rs_chain r)), (''mode'', JStr (rs_mode r))])"

text \<open>\<open>get("Certificate") or get("CompressedCertificate", 0)\<close>: a zero counts as absent.\<close>

definition cert_bytes :: "(string, int) dict \<Rightarrow> int" where
  "cert_bytes srv = (case map_of srv ''Certificate'' of
     Some v \<Rightarrow> if v \<noteq> 0 then v else get_default srv ''CompressedCertificate'' 0
   | None \<Rightarrow> get_default srv ''CompressedCertificate'' 0)"

definition result_line :: "result \<Rightarrow> string" where
  "result_line r = pad_right 10 (rs_chain r) @ '' '' @ pad_right 15 (rs_mode r) @ '' '' @
     (case rs_outcome r of Failed e \<Rightarrow> ''ERROR: '' @ e
      | Captured c \<Rightarrow> ''cert='' @ pad_left 6 (str_int (cert_bytes (cp_server_messages c)))
          @ '' cv='' @ pad_left 5 (str_int (get_default (cp_server_messages c) ''CertificateVerify'' 0))
          @ '' flight='' @ pad_left 6 (str_int (cp_flight c))
          @ '' maxrec='' @ pad_left 6 (str_int (cp_largest c))
          @ '' '' @ (if cp_compressed c then ''compressed'' else ''''))"

definition evidence_path :: "string \<Rightarrow> string \<Rightarrow> path" where
  "evidence_path chain mode = [''phase3'', ''evidence'', chain, mode]"

definition run_capture :: "capture_env \<Rightarrow> string \<Rightarrow> string \<Rightarrow> string \<times> string list
    \<Rightarrow> ('x pworld_scheme, result) eff" where
  "run_capture env repo chain mx = (case mx of (mode, extra) \<Rightarrow>
     ebind (capture_one env repo chain mode extra (evidence_path chain mode)) (\<lambda>o'.
     let r = \<lparr>rs_outcome = o', rs_chain = chain, rs_mode = mode\<rparr> in
     eseq (print (result_line r)) (ret r)))"

definition run_chain :: "capture_env \<Rightarrow> string \<Rightarrow> string \<Rightarrow> ('x pworld_scheme, result list) eff" where
  "run_chain env repo chain =
     ebind (exists_file (bundle_path chain @ [''leaf.key''])) (\<lambda>key.
     if \<not> key then eseq (print (''skip '' @ chain @ '': no leaf key, cannot serve'')) (ret [])
     else emap (run_capture env repo chain) transport_modes)"

definition transport_main :: "capture_env \<Rightarrow> string \<Rightarrow> ('x pworld_scheme, unit) eff" where
  "transport_main env repo =
     ebind (emap (run_chain env repo) transport_chains) (\<lambda>rss.
     let results = concat rss in
     eseq (write_file [''phase3'', ''transport.json''] (dumps_indent 0 (JList (map result_json results)) @ [CHR 0x0A]))
     (print ([CHR 0x0A] @ str_nat (length results)
        @ '' captures -> phase3/transport.json, evidence in phase3/evidence/'')))"

text \<open>What runs as a program: nothing without \<open>dumpcap\<close> on the path.\<close>

definition transport_script :: "bool \<Rightarrow> capture_env \<Rightarrow> string \<Rightarrow> ('x pworld_scheme, unit) eff" where
  "transport_script has_dumpcap env repo = (if has_dumpcap then transport_main env repo
     else throw (SystemExit ''dumpcap not found (install wireshark and join the wireshark group)''))"

section \<open>Every byte is attributed once\<close>

text \<open>
  The reference: the list of (direction, message name, length) entries that the rows
  name, in order.  Attribution adds them up.
\<close>

definition pair_entry :: "side \<Rightarrow> string \<times> string \<Rightarrow> (side \<times> string \<times> int) res" where
  "pair_entry w p = rbind (hs_name (fst p)) (\<lambda>name. rbind (py_int (snd p)) (\<lambda>v. Inr (w, name, v)))"

definition row_entries :: "tshark_row \<Rightarrow> (side \<times> string \<times> int) list res" where
  "row_entries row = rbind (three_columns row) (\<lambda>(srcport, types, lengths).
     traverse (pair_entry (side_of srcport)) (zip types lengths))"

definition all_entries :: "tshark_row list \<Rightarrow> (side \<times> string \<times> int) list res" where
  "all_entries rows = rbind (traverse row_entries rows) (\<lambda>ess. Inr (concat ess))"

fun tally :: "(side \<times> string \<times> int) list \<Rightarrow> messages \<Rightarrow> messages" where
  "tally [] m = m"
| "tally ((w, k, v) # es) m = tally es (add_message w k v m)"

lemma tally_append: "tally (xs @ ys) m = tally ys (tally xs m)"
  by (induction xs m rule: tally.induct) auto

lemma add_pairs_tally: "add_pairs w ps m = rbind (traverse (pair_entry w) ps) (\<lambda>es. Inr (tally es m))"
  by (induction w ps m rule: add_pairs.induct) (simp_all add: pair_entry_def rbind_assoc cong: rbind_cong)

lemma message_row_tally: "message_row row m = rbind (row_entries row) (\<lambda>es. Inr (tally es m))"
  by (simp add: message_row_def row_entries_def rbind_assoc add_pairs_tally split_def)

lemma rfold_message_row:
  "rfold message_row rows m = rbind (all_entries rows) (\<lambda>es. Inr (tally es m))"
  by (induction rows arbitrary: m) (simp_all add: all_entries_def message_row_tally rbind_assoc tally_append)

lemma attribute_messages_tally:
  "attribute_messages rows = rbind (all_entries rows) (\<lambda>es. Inr (tally es \<lparr>server_msgs = [], client_msgs = []\<rparr>))"
  by (simp add: attribute_messages_def rfold_message_row)

definition entry_sum :: "(side \<Rightarrow> string \<Rightarrow> bool) \<Rightarrow> (side \<times> string \<times> int) list \<Rightarrow> int" where
  "entry_sum P es = sum_list (map (\<lambda>(w, k, v). if P w k then v else 0) es)"

lemma entry_sum_simps [simp]: "entry_sum P [] = 0"
  "entry_sum P ((w, k, v) # es) = (if P w k then v else 0) + entry_sum P es"
  by (simp_all add: entry_sum_def)

lemma entry_sum_total: "(\<Sum>w\<in>UNIV. entry_sum (\<lambda>w' k. w' = w) es) = sum_list (map (\<lambda>(w, k, v). v) es)"
proof (induction es)
  case (Cons e es)
  obtain w k v where e: "e = (w, k, v)" by (cases e)
  then show ?case using Cons by (cases w) (simp_all add: side_univ)
qed (simp add: side_univ)

lemma get_default_add: "get_default (dict_add k v d) k' 0 = get_default d k' 0 + (if k' = k then v else 0)"
  by (simp add: get_default_def dict_add_def update_conv')

definition value_sum :: "('k \<Rightarrow> bool) \<Rightarrow> ('k, int) dict \<Rightarrow> int" where
  "value_sum P d = sum_list (map snd (filter (\<lambda>kv. P (fst kv)) d))"

lemma value_sum_update:
  "distinct (map fst d) \<Longrightarrow> value_sum P (dict_set k x d) = value_sum P d + (if P k then x - get_default d k 0 else 0)"
proof (induction d)
  case (Cons kv d)
  then show ?case
    by (cases kv) (auto simp: value_sum_def get_default_def map_of_eq_None_iff split: option.splits
        dest!: map_of_SomeD intro: rev_image_eqI)
qed (simp add: value_sum_def get_default_def)

lemma value_sum_add: "distinct (map fst d) \<Longrightarrow> value_sum P (dict_add k v d) = value_sum P d + (if P k then v else 0)"
  by (simp add: dict_add_def value_sum_update)

lemma dict_add_distinct: "distinct (map fst d) \<Longrightarrow> distinct (map fst (dict_add k v d))"
  by (simp add: dict_add_def distinct_update)

lemma msgs_of_add: "msgs_of w (add_message w' k v m) = (if w = w' then dict_add k v (msgs_of w m) else msgs_of w m)"
  by (cases w; cases w') (simp_all add: msgs_of_def add_message_def)

lemma add_message_distinct:
  "distinct (map fst (msgs_of w m)) \<Longrightarrow> distinct (map fst (msgs_of w (add_message w' k v m)))"
  by (auto simp: msgs_of_add dict_add_distinct)

lemma tally_distinct: "distinct (map fst (msgs_of w m)) \<Longrightarrow> distinct (map fst (msgs_of w (tally es m)))"
  by (induction es m rule: tally.induct) (simp_all add: add_message_distinct)

lemma tally_get: "get_default (msgs_of w (tally es m)) k 0
    = get_default (msgs_of w m) k 0 + entry_sum (\<lambda>w' k'. w' = w \<and> k' = k) es"
  by (induction es m rule: tally.induct) (auto simp: msgs_of_add get_default_add)

lemma tally_sum: "distinct (map fst (msgs_of w m)) \<Longrightarrow> value_sum P (msgs_of w (tally es m))
    = value_sum P (msgs_of w m) + entry_sum (\<lambda>w' k'. w' = w \<and> P k') es"
proof (induction es m rule: tally.induct)
  case (2 w' k v es m)
  have "value_sum P (msgs_of w (add_message w' k v m))
      = value_sum P (msgs_of w m) + (if w' = w \<and> P k then v else 0)"
    using "2.prems" by (auto simp: msgs_of_add value_sum_add)
  then show ?case using 2 by (simp add: add_message_distinct)
qed simp

lemma flight_value_sum: "flight_bytes srv = value_sum (\<lambda>k. k \<noteq> ''NewSessionTicket'') srv"
  by (simp add: flight_bytes_def value_sum_def)

lemma attribute_messages_sums:
  assumes "attribute_messages rows = Inr m"
  shows "\<exists>es. all_entries rows = Inr es
    \<and> (\<forall>w k. get_default (msgs_of w m) k 0 = entry_sum (\<lambda>w' k'. w' = w \<and> k' = k) es)
    \<and> (\<forall>w P. value_sum P (msgs_of w m) = entry_sum (\<lambda>w' k'. w' = w \<and> P k') es)
    \<and> (\<forall>w. distinct (map fst (msgs_of w m)))"
proof -
  let ?e = "\<lparr>server_msgs = [], client_msgs = []\<rparr>"
  from assms obtain es where es: "all_entries rows = Inr es" "m = tally es ?e"
    by (auto simp: attribute_messages_tally res_simps)
  have e: "msgs_of w ?e = []" for w by (cases w) (simp_all add: msgs_of_def)
  have z: "get_default ([] :: (string, int) dict) k 0 = 0" "value_sum P ([] :: (string, int) dict) = 0" for k P
    by (simp_all add: get_default_def value_sum_def)
  show ?thesis
    by (rule exI[of _ es]) (simp add: es tally_get tally_sum tally_distinct e z)
qed

section \<open>Processes are stopped\<close>

definition same_running :: "'x pworld_scheme \<Rightarrow> 'x pworld_scheme \<Rightarrow> bool" where
  "same_running s t \<longleftrightarrow> mset (running s) = mset (running t)"

interpretation tidy: frame same_running
  by unfold_locales (auto simp: same_running_def)

lemma tidy_world_ops: "same_running s (snd (mkdir p s))" "same_running s (snd (read_file p s))"
    "same_running s (snd (write_file p c s))" "same_running s (snd (exists_file p s))"
    "same_running s (snd (print l s))" "same_running s (snd (unlink_missing_ok p s))"
    "same_running s (snd (call argv s))"
  by (auto simp: same_running_def eff_simps split: option.splits)

lemma capture_setup_tidy: "same_running s (snd (capture_setup ev s))"
  unfolding capture_setup_def by (intro tidy.closed tidy_world_ops)

lemma tshark_fields_tidy: "same_running s (snd (tshark_fields env repo pcap keylog display cols s))"
  unfolding tshark_fields_def Let_def by (intro tidy.closed tidy_world_ops)

lemma analyze_tidy: "same_running s (snd (analyze env repo pcap keylog ev s))"
  unfolding analyze_def by (intro tidy.closed tidy_world_ops tshark_fields_tidy)

lemma capture_read_tidy: "same_running s (snd (capture_read env repo ev s))"
proof -
  have "same_running t (snd ((if c then ret (Failed e)
      else ebind (analyze env repo p k ev) (\<lambda>c. ret (Captured c))) t))" for c e p k and t :: "'a pworld_scheme"
    by (cases c) (simp_all only: if_True if_False, (intro tidy.closed analyze_tidy)+)
  then show ?thesis unfolding capture_read_def by (intro tidy.closed tidy_world_ops)
qed

lemma capture_body_running: "running (snd (capture_body env repo chain mode ev s)) = running s"
  by (auto simp: capture_body_def eff_simps split: sum.splits prod.splits)

lemma capture_cleanup_effect:
  "fst (capture_cleanup env chain cap s) =
     (if cap \<and> \<not> ce_exits env (Dumpcap chain) \<or> \<not> ce_exits env (SServer chain)
      then Inl (TimeoutExpired ''wait'') else Inr ())"
  "running (snd (capture_cleanup env chain cap s)) =
     (if cap \<and> \<not> ce_exits env (Dumpcap chain) then running s
      else let ps = (if cap then remove1 (Dumpcap chain) (running s) else running s) in
        if ce_exits env (SServer chain) then remove1 (SServer chain) ps else ps)"
  by (auto simp: capture_cleanup_def eff_simps)

lemma efinally_running: "running (snd (efinally m g s)) = running (snd (g (snd (m s))))"
  by (auto simp: efinally_def split: prod.splits sum.splits)

lemma efinally_failed: "fst (g (snd (m s))) = Inl e \<Longrightarrow> fst (efinally m g s) = Inl e"
  by (auto simp: efinally_def split: prod.splits)

text \<open>
  What may be up after the \<open>try\<close> statement: the capture process when it was started and
  does not exit in time (\<open>cap_stays\<close>), and the server unless it was waited for.
\<close>

definition cap_starts :: "capture_env \<Rightarrow> string \<Rightarrow> path \<Rightarrow> bool" where
  "cap_starts env repo ev \<longleftrightarrow> ce_spawn env (dumpcap_args repo (pcap_path ev)) = Inr ()"

definition cap_stays :: "capture_env \<Rightarrow> string \<Rightarrow> string \<Rightarrow> path \<Rightarrow> bool" where
  "cap_stays env repo chain ev \<longleftrightarrow> cap_starts env repo ev \<and> \<not> ce_exits env (Dumpcap chain)"

lemma capture_try_running:
  "mset (running (snd (capture_try env repo chain mode ev s))) =
     (if cap_stays env repo chain ev then mset (running s) + {#Dumpcap chain#}
      else if ce_exits env (SServer chain) then mset (running s) - {#SServer chain#} else mset (running s))"
  by (cases "ce_spawn env (dumpcap_args repo (pcap_path ev))")
    (simp_all add: capture_try_def cap_stays_def cap_starts_def popen_def ebind_def lift_def modify_def efinally_running
      capture_cleanup_effect capture_body_running throw_def Let_def)

lemma capture_try_raises:
  assumes "cap_stays env repo chain ev \<or> \<not> ce_exits env (SServer chain)"
  shows "fst (capture_try env repo chain mode ev s) = Inl (TimeoutExpired ''wait'')"
  using assms
  by (cases "ce_spawn env (dumpcap_args repo (pcap_path ev))")
    (simp_all add: capture_try_def cap_stays_def cap_starts_def popen_def ebind_def lift_def modify_def,
      (intro efinally_failed, auto simp: capture_cleanup_effect)+)

text \<open>The case in which the clean-up is cut short.\<close>

definition capture_hangs :: "capture_env \<Rightarrow> string \<Rightarrow> string \<Rightarrow> string \<Rightarrow> path \<Rightarrow> bool" where
  "capture_hangs env repo chain mode ev \<longleftrightarrow> wait_port (ce_attempt env chain mode) 5000 \<and> cap_stays env repo chain ev"

lemma capture_serve_running:
  "mset (running (snd (capture_serve env repo chain mode ev s))) =
     (if capture_hangs env repo chain mode ev then mset (running s) + {#Dumpcap chain#}
      else if ce_exits env (SServer chain) then mset (running s) - {#SServer chain#} else mset (running s))"
  "capture_hangs env repo chain mode ev \<or> \<not> ce_exits env (SServer chain) \<Longrightarrow>
     fst (capture_serve env repo chain mode ev s) = Inl (TimeoutExpired ''wait'')"
proof -
  obtain r t where t: "capture_try env repo chain mode ev s = (r, t)"
    by (cases "capture_try env repo chain mode ev s")
  note run = capture_try_running[of env repo chain mode ev s, unfolded t snd_conv]
  show "mset (running (snd (capture_serve env repo chain mode ev s))) =
     (if capture_hangs env repo chain mode ev then mset (running s) + {#Dumpcap chain#}
      else if ce_exits env (SServer chain) then mset (running s) - {#SServer chain#} else mset (running s))"
  proof (cases "wait_port (ce_attempt env chain mode) 5000")
    case False
    then show ?thesis
      by (simp add: capture_serve_def capture_hangs_def efinally_running capture_cleanup_effect ret_def)
  next
    case True
    then show ?thesis using run capture_read_tidy[of t env repo ev]
      by (cases r) (simp_all add: capture_serve_def capture_hangs_def eseq_def ebind_def t same_running_def)
  qed
  assume late: "capture_hangs env repo chain mode ev \<or> \<not> ce_exits env (SServer chain)"
  show "fst (capture_serve env repo chain mode ev s) = Inl (TimeoutExpired ''wait'')"
  proof (cases "wait_port (ce_attempt env chain mode) 5000")
    case False
    then have "\<not> ce_exits env (SServer chain)" using late by (simp add: capture_hangs_def)
    then show ?thesis using False
      by (simp add: capture_serve_def) (rule efinally_failed, simp add: capture_cleanup_effect)
  next
    case True
    then have "r = Inl (TimeoutExpired ''wait'')"
      using late capture_try_raises[of env repo chain ev mode s] by (simp add: capture_hangs_def t)
    then show ?thesis using True by (simp add: capture_serve_def eseq_def ebind_def t)
  qed
qed

text \<open>The server is reached when the evidence directory is set up and the server starts.\<close>

definition server_starts :: "capture_env \<Rightarrow> string \<Rightarrow> string \<Rightarrow> string list \<Rightarrow> path \<Rightarrow> 'x world_scheme \<Rightarrow> bool" where
  "server_starts env repo chain extra ev s \<longleftrightarrow> fst (capture_setup ev s) = Inr ()
     \<and> ce_spawn env (capture_server_args repo (bundle_path chain) (keylog_path ev) extra) = Inr ()"

lemma capture_one_running:
  "mset (running (snd (capture_one env repo chain mode extra ev s))) = mset (running s)
     + (if \<not> server_starts env repo chain extra ev s then {#}
        else if capture_hangs env repo chain mode ev then {#Dumpcap chain, SServer chain#}
        else if ce_exits env (SServer chain) then {#} else {#SServer chain#})"
  "server_starts env repo chain extra ev s \<Longrightarrow>
     capture_hangs env repo chain mode ev \<or> \<not> ce_exits env (SServer chain) \<Longrightarrow>
     fst (capture_one env repo chain mode extra ev s) = Inl (TimeoutExpired ''wait'')"
proof -
  let ?args = "capture_server_args repo (bundle_path chain) (keylog_path ev) extra"
  obtain r u where u: "capture_setup ev s = (r, u)" by (cases "capture_setup ev s")
  have run: "mset (running u) = mset (running s)"
    using capture_setup_tidy[of s ev] by (simp add: u same_running_def)
  have skip: "mset (running (snd (capture_one env repo chain mode extra ev s))) = mset (running s)"
    if "\<not> server_starts env repo chain extra ev s"
    using that u run
    by (cases r; cases "ce_spawn env ?args")
      (simp_all add: capture_one_def eseq_def ebind_def server_starts_def popen_def lift_def)
  have split: "capture_one env repo chain mode extra ev s = capture_serve env repo chain mode ev
      (u\<lparr>running := running u @ [SServer chain], trace := trace u @ [Spawned (SServer chain) ?args]\<rparr>)"
    if "server_starts env repo chain extra ev s"
    using that u by (cases r) (simp_all add: capture_one_def eseq_def ebind_def server_starts_def
        popen_def lift_def modify_def)
  show "mset (running (snd (capture_one env repo chain mode extra ev s))) = mset (running s)
     + (if \<not> server_starts env repo chain extra ev s then {#}
        else if capture_hangs env repo chain mode ev then {#Dumpcap chain, SServer chain#}
        else if ce_exits env (SServer chain) then {#} else {#SServer chain#})"
    using skip run by (cases "server_starts env repo chain extra ev s") (simp_all add: split capture_serve_running(1))
  show "server_starts env repo chain extra ev s \<Longrightarrow>
     capture_hangs env repo chain mode ev \<or> \<not> ce_exits env (SServer chain) \<Longrightarrow>
     fst (capture_one env repo chain mode extra ev s) = Inl (TimeoutExpired ''wait'')"
    by (simp add: split capture_serve_running(2))
qed

lemma capture_one_tidy:
  "ce_exits env (Dumpcap chain) \<Longrightarrow> ce_exits env (SServer chain) \<Longrightarrow>
     same_running s (snd (capture_one env repo chain mode extra ev s))"
  by (simp add: same_running_def capture_one_running(1) capture_hangs_def cap_stays_def)

lemma run_chain_tidy:
  assumes "ce_exits env (Dumpcap chain)" and "ce_exits env (SServer chain)"
  shows "same_running s (snd (run_chain env repo chain s))"
proof -
  have run: "same_running t (snd (run_capture env repo chain mx t))" for mx and t :: "'a pworld_scheme"
    unfolding run_capture_def Let_def split_def by (intro tidy.closed capture_one_tidy tidy_world_ops assms)
  have "same_running t (snd ((if c then eseq (print m) (ret []) else emap (run_capture env repo chain) ms) t))"
    for c m ms and t :: "'a pworld_scheme"
    by (cases c) (simp_all only: if_True if_False, (intro tidy.closed tidy_world_ops run)+)
  then show ?thesis unfolding run_chain_def by (intro tidy.closed tidy_world_ops)
qed

lemma transport_main_tidy:
  assumes "\<And>p. ce_exits env p"
  shows "same_running s (snd (transport_main env repo s))"
  unfolding transport_main_def Let_def
  by (intro tidy.closed tidy_world_ops run_chain_tidy assms)

section \<open>Properties\<close>

text \<open>
  C12: every handshake byte is attributed exactly once.  When the rows decode, the count
  kept for a message name of a side is the sum of the lengths of that side's messages
  of that name, the server flight is the sum over all of the server's messages but the
  session tickets, and the counts of both sides together are the bytes of all messages.
\<close>

theorem messages_attributed:
  assumes "attribute_messages rows = Inr m"
  shows "\<exists>es. all_entries rows = Inr es
    \<and> (\<forall>w k. get_default (msgs_of w m) k 0 = entry_sum (\<lambda>w' k'. w' = w \<and> k' = k) es)
    \<and> flight_bytes (server_msgs m) = entry_sum (\<lambda>w k. w = Server \<and> k \<noteq> ''NewSessionTicket'') es
    \<and> (\<forall>r. cp_flight (capture_of m r) = flight_bytes (server_msgs m))
    \<and> (\<Sum>w\<in>UNIV. sum_list (map snd (msgs_of w m))) = sum_list (map (\<lambda>(w, k, v). v) es)"
proof -
  obtain es where es: "all_entries rows = Inr es"
      "\<forall>w k. get_default (msgs_of w m) k 0 = entry_sum (\<lambda>w' k'. w' = w \<and> k' = k) es"
      "\<forall>w P. value_sum P (msgs_of w m) = entry_sum (\<lambda>w' k'. w' = w \<and> P k') es"
    using attribute_messages_sums[OF assms] by blast
  have "flight_bytes (server_msgs m) = value_sum (\<lambda>k. k \<noteq> ''NewSessionTicket'') (msgs_of Server m)"
    by (simp add: flight_value_sum msgs_of_def)
  moreover have "(\<Sum>w\<in>UNIV. sum_list (map snd (msgs_of w m))) = (\<Sum>w\<in>UNIV. entry_sum (\<lambda>w' k'. w' = w \<and> True) es)"
    using es(3)[rule_format, of "\<lambda>_. True"] by (simp add: value_sum_def)
  ultimately show ?thesis using es by (simp add: capture_of_def Let_def entry_sum_total)
qed

definition sample_rows :: "tshark_row list" where
  "sample_rows = [[[''14435''], [''2'', ''8''], [''118'', ''6'']], [[''40000''], [''20''], [''32'']], [[''14435''], [''4''], [''217'']]]"

lemma sample_attribution:
  "attribute_messages sample_rows = Inr \<lparr>server_msgs = [(''ServerHello'', 118), (''EncryptedExtensions'', 6),
     (''NewSessionTicket'', 217)], client_msgs = [(''Finished'', 32)]\<rparr>"
  by code_simp

theorem messages_attributed_witness:
  "\<exists>m es. attribute_messages sample_rows = Inr m \<and> all_entries sample_rows = Inr es \<and> flight_bytes (server_msgs m) = 124
     \<and> flight_bytes (server_msgs m) = entry_sum (\<lambda>w k. w = Server \<and> k \<noteq> ''NewSessionTicket'') es"
proof -
  obtain es where "all_entries sample_rows = Inr es"
      "flight_bytes [(''ServerHello'', 118), (''EncryptedExtensions'', 6), (''NewSessionTicket'', 217)]
         = entry_sum (\<lambda>w k. w = Server \<and> k \<noteq> ''NewSessionTicket'') es"
    using messages_attributed[OF sample_attribution] unfolding messages.simps by blast
  then show ?thesis using sample_attribution by (intro exI conjI) (assumption, assumption, simp_all add: flight_bytes_def)
qed

text \<open>
  C20: what a capture leaves behind.  However \<open>capture_one\<close> ends (no port, a program that
  cannot be started, a failing client, an unreadable capture), it has waited for every
  process it started, with two exceptions, both of which raise \<open>TimeoutExpired\<close>: when
  the capture process was started and does not exit in time, the rest of the \<open>finally\<close>
  block is skipped, and the capture process and the chain's server are left; when only
  the server does not exit in time, the server is left.  When processes exit in time,
  the whole script leaves nothing.
\<close>

theorem capture_stops_processes:
  shows "mset (running (snd (capture_one env repo chain mode extra ev s))) = mset (running s)
      + (if \<not> server_starts env repo chain extra ev s then {#}
         else if capture_hangs env repo chain mode ev then {#Dumpcap chain, SServer chain#}
         else if ce_exits env (SServer chain) then {#} else {#SServer chain#})
    \<and> (server_starts env repo chain extra ev s \<and> (capture_hangs env repo chain mode ev \<or> \<not> ce_exits env (SServer chain))
        \<longrightarrow> fst (capture_one env repo chain mode extra ev s) = Inl (TimeoutExpired ''wait''))
    \<and> ((\<forall>p. ce_exits env p) \<longrightarrow> mset (running (snd (transport_main env repo s))) = mset (running s))"
  using capture_one_running(1)[of env repo chain mode extra ev s] capture_one_running(2)[of env repo chain extra ev s mode]
    transport_main_tidy[of env s repo]
  by (simp add: same_running_def)

definition sample_env :: "bool \<Rightarrow> capture_env" where
  "sample_env ok = \<lparr>ce_spawn = (\<lambda>_. Inr ()), ce_attempt = (\<lambda>_ _ _. (True, 0)), ce_exits = (\<lambda>p. ok),
     ce_client = (\<lambda>_ _. Inr ('''', '''')), ce_left = (\<lambda>_ _. []), ce_tshark = (\<lambda>_ _. Inr '''')\<rparr>"

definition sample_world :: pworld where
  "sample_world = \<lparr>files = (\<lambda>_. None), dirs = {[]}, out = [], running = [], trace = []\<rparr>"

theorem capture_stops_processes_witness:
  "running (snd (transport_main (sample_env True) ''/r'' sample_world)) = []
   \<and> mset (running (snd (capture_one (sample_env False) ''/r'' ''ecdsa'' ''compression'' [] [''e''] sample_world)))
       = {#Dumpcap ''ecdsa'', SServer ''ecdsa''#}"
proof -
  have "server_starts (sample_env False) ''/r'' ''ecdsa'' [] [''e''] sample_world"
    by (simp add: server_starts_def sample_env_def sample_world_def capture_setup_def eff_simps ancestors_def
        pcap_path_def keylog_path_def)
  moreover have "capture_hangs (sample_env False) ''/r'' ''ecdsa'' ''compression'' [''e'']"
    by (simp add: capture_hangs_def cap_stays_def cap_starts_def sample_env_def wait_port_def wait_until.simps)
  ultimately show ?thesis
    using capture_stops_processes[of "sample_env True" "''/r''" "''ecdsa''" "''compression''" "[]" "[]" sample_world]
      capture_stops_processes[of "sample_env False" "''/r''" "''ecdsa''" "''compression''" "[]" "[''e'']" sample_world]
    by (simp add: sample_env_def sample_world_def)
qed

end
