(* ===== verification/Captures.thy ===== *)
theory Captures
  imports Transport
begin

text \<open>
  The protocol of \<open>phase3/transport.py\<close>: which programs a run starts, with which command
  lines, in which order, and which of them are up when another one is run.
\<close>

section \<open>The events of one capture\<close>

definition stop_events :: "proc \<Rightarrow> event list" where
  "stop_events p = [Terminated p, Reaped p]"

definition read_events :: "string \<Rightarrow> path \<Rightarrow> event list" where
  "read_events repo ev =
     [Called (tshark_args repo (pcap_path ev) (keylog_path ev) ''tls.handshake.type'' message_cols),
      Called (tshark_args repo (pcap_path ev) (keylog_path ev) ''tcp.len > 0'' record_cols)]"

definition capture_events :: "string \<Rightarrow> string \<Rightarrow> string list \<Rightarrow> path \<Rightarrow> outcome \<Rightarrow> event list" where
  "capture_events repo chain extra ev o' =
     [Spawned (SServer chain) (capture_server_args repo (bundle_path chain) (keylog_path ev) extra)]
     @ (if o' = Failed ''server did not start'' then stop_events (SServer chain)
        else [Spawned (Dumpcap chain) (dumpcap_args repo (pcap_path ev)), Called (client_args repo (bundle_path chain))]
          @ stop_events (Dumpcap chain) @ stop_events (SServer chain)
          @ (case o' of Failed _ \<Rightarrow> [] | Captured _ \<Rightarrow> read_events repo ev))"

lemma stop_proc_run: "stop_proc exits p s = (Inr (), t) \<Longrightarrow> trace t = trace s @ stop_events p"
  by (auto simp: eff_simps stop_events_def split: if_splits)

lemma efinally_run:
  "efinally m g s = (Inr y, t) \<longleftrightarrow> (\<exists>u. m s = (Inr y, u) \<and> g u = (Inr (), t))"
  by (auto simp: efinally_def split: prod.splits sum.splits)

lemma world_ops_trace:
  "mkdir p s = (Inr (), t) \<Longrightarrow> trace t = trace s" "unlink_missing_ok p s = (Inr (), t) \<Longrightarrow> trace t = trace s"
  "write_file p c s = (Inr (), t) \<Longrightarrow> trace t = trace s" "exists_file p s = (Inr b, t) \<Longrightarrow> t = s"
  "print l s = (Inr (), t) \<Longrightarrow> trace t = trace s" "gets h s = (Inr v, t) \<Longrightarrow> v = h s \<and> t = s"
  by (auto simp: eff_simps split: if_splits)

lemma capture_setup_trace: "capture_setup ev s = (Inr (), t) \<Longrightarrow> trace t = trace s"
  unfolding capture_setup_def by (auto simp only: run_simps dest!: world_ops_trace)

lemma tshark_fields_trace:
  "tshark_fields env repo pcap keylog d cols s = (Inr rows, t) \<Longrightarrow>
     trace t = trace s @ [Called (tshark_args repo pcap keylog d cols)]"
  unfolding tshark_fields_def Let_def by (auto simp: run_simps dest!: world_ops_trace)

lemma analyze_trace:
  assumes "analyze env repo (pcap_path ev) (keylog_path ev) ev s = (Inr c, t)"
  shows "trace t = trace s @ read_events repo ev"
proof -
  from assms obtain rows m u rows' r v where
    "tshark_fields env repo (pcap_path ev) (keylog_path ev) ''tls.handshake.type'' message_cols s = (Inr rows, u)"
    "tshark_fields env repo (pcap_path ev) (keylog_path ev) ''tcp.len > 0'' record_cols u = (Inr rows', v)"
    "trace t = trace v"
    unfolding analyze_def by (auto simp only: run_simps dest!: world_ops_trace(3))
  then show ?thesis by (simp add: read_events_def tshark_fields_trace)
qed

lemma capture_read_trace:
  assumes "capture_read env repo ev s = (Inr o', t)"
  shows "trace t = trace s @ (case o' of Failed _ \<Rightarrow> [] | Captured _ \<Rightarrow> read_events repo ev)
    \<and> o' \<noteq> Failed ''server did not start''"
  using assms unfolding capture_read_def
  by (auto simp: run_simps exists_file_def split: if_splits dest!: analyze_trace)

lemma capture_body_trace:
  "capture_body env repo chain mode ev s = (Inr (), t) \<Longrightarrow>
     trace t = trace s @ [Called (client_args repo (bundle_path chain))]"
  unfolding capture_body_def by (auto simp: run_simps split: prod.splits dest!: world_ops_trace(3,6))

lemma capture_cleanup_trace:
  "capture_cleanup env chain cap s = (Inr (), t) \<Longrightarrow>
     trace t = trace s @ (if cap then stop_events (Dumpcap chain) else []) @ stop_events (SServer chain)"
  unfolding capture_cleanup_def by (cases cap) (auto simp: run_simps dest!: stop_proc_run)

lemma capture_try_trace:
  assumes "capture_try env repo chain mode ev s = (Inr (), t)"
  shows "trace t = trace s @ [Spawned (Dumpcap chain) (dumpcap_args repo (pcap_path ev)),
     Called (client_args repo (bundle_path chain))] @ stop_events (Dumpcap chain) @ stop_events (SServer chain)"
proof -
  from assms obtain u v where
    "popen (ce_spawn env) (Dumpcap chain) (dumpcap_args repo (pcap_path ev)) s = (Inr (), u)"
    "capture_body env repo chain mode ev u = (Inr (), v)" "capture_cleanup env chain True v = (Inr (), t)"
    unfolding capture_try_def by (auto simp: efinally_run throw_run split: prod.splits sum.splits)
  then show ?thesis by (simp add: popen_run capture_body_trace capture_cleanup_trace)
qed

lemma capture_one_trace:
  assumes "capture_one env repo chain mode extra ev s = (Inr o', t)"
  shows "trace t = trace s @ capture_events repo chain extra ev o'"
proof -
  let ?args = "capture_server_args repo (bundle_path chain) (keylog_path ev) extra"
  from assms obtain v u where "capture_setup ev s = (Inr (), v)"
      "popen (ce_spawn env) (SServer chain) ?args v = (Inr (), u)" "capture_serve env repo chain mode ev u = (Inr o', t)"
    unfolding capture_one_def by (auto simp only: run_simps(5-))
  then have u: "trace u = trace s @ [Spawned (SServer chain) ?args]" "capture_serve env repo chain mode ev u = (Inr o', t)"
    by (simp_all add: popen_run capture_setup_trace)
  show ?thesis
  proof (cases "wait_port (ce_attempt env chain mode) 5000")
    case False
    then show ?thesis using u
      by (auto simp: capture_serve_def efinally_run ret_run capture_events_def dest!: capture_cleanup_trace)
  next
    case True
    then obtain v where v: "capture_try env repo chain mode ev u = (Inr (), v)" "capture_read env repo ev v = (Inr o', t)"
      using u(2) by (auto simp: capture_serve_def run_simps)
    then show ?thesis using u(1) capture_try_trace[OF v(1)] capture_read_trace[OF v(2)]
      by (simp add: capture_events_def)
  qed
qed

section \<open>The events of a run\<close>

definition result_events :: "string \<Rightarrow> result \<Rightarrow> event list" where
  "result_events repo r = capture_events repo (rs_chain r) (get_default transport_modes (rs_mode r) [])
     (evidence_path (rs_chain r) (rs_mode r)) (rs_outcome r)"

definition both_modes :: "string \<Rightarrow> result list \<Rightarrow> bool" where
  "both_modes chain rs \<longleftrightarrow> rs = [] \<or>
     map (\<lambda>r. (rs_chain r, rs_mode r)) rs = [(chain, ''compression''), (chain, ''no-compression'')]"

lemma run_capture_trace:
  assumes "run_capture env repo chain (mode, extra) s = (Inr r, t)"
  shows "trace t = trace s @ capture_events repo chain extra (evidence_path chain mode) (rs_outcome r)"
    and "rs_chain r = chain \<and> rs_mode r = mode"
  using assms unfolding run_capture_def Let_def
  by (auto simp: run_simps dest!: capture_one_trace world_ops_trace(5))

lemma run_chain_trace:
  assumes "run_chain env repo chain s = (Inr rs, t)"
  shows "trace t = trace s @ concat (map (result_events repo) rs) \<and> both_modes chain rs"
proof -
  consider "rs = []" "trace t = trace s"
    | "emap (run_capture env repo chain) transport_modes s = (Inr rs, t)"
    using assms unfolding run_chain_def
    by (auto simp: run_simps exists_file_def split: if_splits dest!: world_ops_trace(5))
  then show ?thesis
  proof cases
    case 2
    then obtain a u b where ab: "run_capture env repo chain (''compression'', []) s = (Inr a, u)"
        "run_capture env repo chain (''no-compression'', [''-no_tx_cert_comp'']) u = (Inr b, t)" "rs = [a, b]"
      unfolding transport_modes_def by (auto simp: run_simps)
    then show ?thesis
      using run_capture_trace[OF ab(1)] run_capture_trace[OF ab(2)]
      by (simp add: both_modes_def result_events_def transport_modes_def get_default_def)
  qed (simp add: both_modes_def)
qed

lemma run_chains_trace:
  assumes "emap (run_chain env repo) cs s = (Inr rss, t)"
  shows "trace t = trace s @ concat (map (result_events repo) (concat rss)) \<and> list_all2 both_modes cs rss"
  using assms
proof (induction cs arbitrary: s rss)
  case (Cons c cs)
  from Cons.prems obtain rs u qss where u: "run_chain env repo c s = (Inr rs, u)"
      "emap (run_chain env repo) cs u = (Inr qss, t)" "rss = rs # qss"
    by (auto simp: run_simps)
  then show ?case using run_chain_trace[OF u(1)] Cons.IH[OF u(2)] by simp
qed (simp add: run_simps)

lemma transport_main_trace:
  assumes "transport_main env repo s = (Inr (), t)"
  obtains rss u where "emap (run_chain env repo) transport_chains s = (Inr rss, u)"
    "trace t = trace s @ concat (map (result_events repo) (concat rss))" "list_all2 both_modes transport_chains rss"
proof -
  from assms obtain rss u where u: "emap (run_chain env repo) transport_chains s = (Inr rss, u)" "trace t = trace u"
    unfolding transport_main_def Let_def by (auto simp: run_simps dest!: world_ops_trace(3,5))
  then show thesis using that run_chains_trace[OF u(1)] by simp
qed

section \<open>What is up when\<close>

text \<open>
  A server starts when nothing is up and serves its chain's bundle, the capture process when the server is, the client
  runs against the server of its chain with the capture on, and the capture is read when
  both have ended.
\<close>

fun attended :: "string \<Rightarrow> proc list \<Rightarrow> event \<Rightarrow> bool" where
  "attended repo ps (Spawned (SServer c) argv) = (ps = [] \<and> serves repo (bundle_path c) argv)"
| "attended repo ps (Spawned (Dumpcap c) argv) = (ps = [SServer c])"
| "attended repo ps (Called argv) = (if hd argv = ''tshark'' then ps = []
     else \<exists>c. argv = client_args repo (bundle_path c) \<and> ps = [SServer c, Dumpcap c])"
| "attended repo ps (Terminated p) = (p \<in> set ps)"
| "attended repo ps (Reaped p) = (p \<in> set ps)"
| "attended repo ps (Ran c chain addr) = False"

lemma capture_server_serves: "serves repo b (capture_server_args repo b keylog extra)"
  by (simp add: serves_def capture_server_args_def port_str_def)

lemma read_events_attended: "watched (attended repo) [] (read_events repo ev)" "alive [] (read_events repo ev) = []"
  by (simp_all add: read_events_def tshark_args_def)

lemma capture_events_attended:
  "watched (attended repo) [] (capture_events repo chain extra ev o') \<and> alive [] (capture_events repo chain extra ev o') = []"
proof -
  have "hd (client_args repo (bundle_path chain)) \<noteq> ''tshark''" by (simp add: client_args_def)
  then show ?thesis
    using capture_server_serves[of repo "bundle_path chain" "keylog_path ev" extra]
    by (auto simp: capture_events_def stop_events_def read_events_attended split: outcome.splits)
qed

section \<open>A run\<close>

definition served_world :: pworld where
  "served_world = \<lparr>files = (\<lambda>p. if p = [''results'', ''bundles'', ''ecdsa'', ''leaf.key''] then Some ''key'' else None),
     dirs = {[], [''phase3'']}, out = [], running = [], trace = []\<rparr>"

definition served_env :: capture_env where
  "served_env = (sample_env True)\<lparr>
     ce_left := (\<lambda>chain mode. [([''phase3'', ''evidence'', chain, mode, ''capture.pcap''], ''pcap''),
       ([''phase3'', ''evidence'', chain, mode, ''keys.log''], ''keys'')]),
     ce_tshark := (\<lambda>argv _. Inr (if ''tcp.len > 0'' \<in> set argv then [] else ''14435'' @ [CHR 0x09] @ ''11'' @ [CHR 0x09] @ ''914''))\<rparr>"

text \<open>A chain without a key is skipped, with a line of output.\<close>

definition key_path :: "string \<Rightarrow> path" where
  "key_path c = bundle_path c @ [''leaf.key'']"

definition no_key :: "'x world_scheme \<Rightarrow> string \<Rightarrow> bool" where
  "no_key u c \<longleftrightarrow> files u (key_path c) = None \<and> key_path c \<notin> dirs u"

lemma run_chain_skip:
  "no_key s c \<Longrightarrow> run_chain env repo c s = (Inr [], s\<lparr>out := out s @ [''skip '' @ c @ '': no leaf key, cannot serve'']\<rparr>)"
  by (simp add: run_chain_def no_key_def key_path_def eff_simps)

lemma emap_skip:
  "list_all (no_key s) cs \<Longrightarrow>
     \<exists>t. emap (run_chain env repo) cs s = (Inr (map (\<lambda>_. []) cs), t) \<and> files t = files s \<and> dirs t = dirs s"
proof (induction cs arbitrary: s)
  case (Cons c cs)
  let ?u = "s\<lparr>out := out s @ [''skip '' @ c @ '': no leaf key, cannot serve'']\<rparr>"
  have "list_all (no_key ?u) cs" using Cons.prems by (simp add: no_key_def list_all_iff)
  then obtain t where "emap (run_chain env repo) cs ?u = (Inr (map (\<lambda>_. []) cs), t)" "files t = files s" "dirs t = dirs s"
    using Cons.IH[of ?u] by auto
  then show ?case using Cons.prems by (simp add: run_chain_skip ebind_def ret_def)
qed (simp add: ret_def)

lemma emap_Cons_run:
  "f x s = (Inr y, u) \<Longrightarrow> emap f xs u = (Inr ys, t) \<Longrightarrow> emap f (x # xs) s = (Inr (y # ys), t)"
  by (simp add: ebind_def ret_def)

text \<open>A run in which only the first chain has a key, from the results of that chain.\<close>

definition first_chain_ends :: "capture_env \<Rightarrow> string \<Rightarrow> pworld \<Rightarrow> result list \<Rightarrow> bool" where
  "first_chain_ends env repo s results = (case run_chain env repo ''ecdsa'' s of
       (Inr rs, u) \<Rightarrow> rs = results \<and> [''phase3''] \<in> dirs u \<and> list_all (no_key u) (tl transport_chains)
         \<and> [''phase3'', ''transport.json''] \<notin> dirs u \<and> [''phase3'', ''TRANSPORT.md''] \<notin> dirs u
     | (Inl _, _) \<Rightarrow> False)"

lemma transport_main_ends:
  assumes "first_chain_ends env repo s results"
  shows "\<exists>v t. emap (run_chain env repo) transport_chains s = (Inr (results # map (\<lambda>_. []) (tl transport_chains)), v)
    \<and> transport_main env repo s = (Inr (), t) \<and> [''phase3''] \<in> dirs t \<and> [''phase3'', ''TRANSPORT.md''] \<notin> dirs t"
proof -
  obtain u where u: "run_chain env repo ''ecdsa'' s = (Inr results, u)" "[''phase3''] \<in> dirs u"
      "[''phase3'', ''transport.json''] \<notin> dirs u" "[''phase3'', ''TRANSPORT.md''] \<notin> dirs u"
      "list_all (no_key u) (tl transport_chains)"
    using assms by (auto simp: first_chain_ends_def split: prod.splits sum.splits)
  obtain v where v: "emap (run_chain env repo) (tl transport_chains) u = (Inr (map (\<lambda>_. []) (tl transport_chains)), v)"
      "dirs v = dirs u"
    using emap_skip[OF u(5)] by blast
  have c: "transport_chains = ''ecdsa'' # tl transport_chains" by (simp add: transport_chains_def)
  have run: "emap (run_chain env repo) transport_chains s = (Inr (results # map (\<lambda>_. []) (tl transport_chains)), v)"
    by (subst c) (rule emap_Cons_run[OF u(1) v(1)])
  then show ?thesis using u(2-4) v(2)
    by (simp add: transport_main_def ebind_def eseq_def write_file_def print_def Let_def)
qed

definition served_results :: "result list" where
  "served_results = map (\<lambda>mode. \<lparr>rs_outcome = Captured \<lparr>cp_server_messages = [(''Certificate'', 914)],
     cp_client_messages = [], cp_flight = 914, cp_server_records = [], cp_client_records = [], cp_largest = 0,
     cp_server_tcp = 0, cp_client_tcp = 0, cp_compressed = False\<rparr>, rs_chain = ''ecdsa'', rs_mode = mode\<rparr>)
     [''compression'', ''no-compression'']"

lemma served_first: "first_chain_ends served_env ''/r'' served_world served_results"
  by code_simp

lemma served_run: "fst (transport_main served_env ''/r'' served_world) = Inr ()"
  using transport_main_ends[OF served_first] by auto

section \<open>Properties\<close>

text \<open>
  C3: the protocol of the captures.  A run that ends normally visits the chains in order,
  each skipped or captured in both modes; what it starts and calls is, result by result,
  the server with the bundle's files and the mode's flags, the capture process, the
  client, their ends, and the two readings of the capture.  Whenever the client runs,
  exactly its chain's server and the capture are up, and \<open>tshark\<close> reads after both ended.
\<close>

theorem capture_protocol:
  assumes "transport_main env repo s = (Inr (), t)"
  shows "\<exists>rss u es. emap (run_chain env repo) transport_chains s = (Inr rss, u)
    \<and> list_all2 both_modes transport_chains rss
    \<and> es = concat (map (result_events repo) (concat rss)) \<and> trace t = trace s @ es \<and> alive [] es = []
    \<and> (\<forall>xs e ys. es = xs @ e # ys \<longrightarrow> attended repo (alive [] xs) e)"
proof -
  from assms obtain rss u where u: "emap (run_chain env repo) transport_chains s = (Inr rss, u)"
      "trace t = trace s @ concat (map (result_events repo) (concat rss))" "list_all2 both_modes transport_chains rss"
    by (rule transport_main_trace)
  have "watched (attended repo) [] (concat (map (result_events repo) (concat rss)))
      \<and> alive [] (concat (map (result_events repo) (concat rss))) = []"
    by (rule watched_concat) (auto simp: result_events_def capture_events_attended)
  then show ?thesis using u watched_at by (intro exI conjI allI impI) (assumption | simp | metis)+
qed

theorem capture_protocol_witness:
  "\<exists>es. trace (snd (transport_main served_env ''/r'' served_world)) = es \<and> alive [] es = []
    \<and> (\<forall>xs e ys. es = xs @ e # ys \<longrightarrow> attended ''/r'' (alive [] xs) e)"
proof -
  have "transport_main served_env ''/r'' served_world = (Inr (), snd (transport_main served_env ''/r'' served_world))"
    using served_run by (metis prod.collapse)
  moreover have "trace served_world = []" by (simp add: served_world_def)
  ultimately show ?thesis using capture_protocol[of served_env "''/r''" served_world] by (metis append_Nil)
qed

end
