(* ===== verification/Capture_Success.thy ===== *)
theory Capture_Success
  imports Captures
begin

text \<open>
  When the captures of \<open>phase3/transport.py\<close> succeed: if the programs start, the port
  answers, the processes exit, the client runs, and \<open>tshark\<close> decodes the capture and key
  log that they leave, then a capture ends with the decoded figures, and so does the
  script, for every chain and both modes.
\<close>

section \<open>A healthy environment\<close>

text \<open>What the two readings of a capture give, on the files that are there.\<close>

definition decoded :: "capture_env \<Rightarrow> string \<Rightarrow> path \<Rightarrow> (path \<Rightarrow> string option) \<Rightarrow> capture res" where
  "decoded env repo ev fs =
     rbind (ce_tshark env (tshark_args repo (pcap_path ev) (keylog_path ev) ''tls.handshake.type'' message_cols) fs) (\<lambda>a.
     rbind (attribute_messages (tshark_rows a)) (\<lambda>m.
     rbind (ce_tshark env (tshark_args repo (pcap_path ev) (keylog_path ev) ''tcp.len > 0'' record_cols) fs) (\<lambda>b.
     rbind (collect_records (tshark_rows b)) (\<lambda>r. Inr (capture_of m r)))))"

definition healthy :: "capture_env \<Rightarrow> string \<Rightarrow> string \<Rightarrow> string \<Rightarrow> capture \<Rightarrow> bool" where
  "healthy env repo chain mode c \<longleftrightarrow>
     (let ev = evidence_path chain mode; left = map_of (ce_left env chain mode) in
      (\<forall>argv. ce_spawn env argv = Inr ()) \<and> (\<forall>p. ce_exits env p)
      \<and> wait_port (ce_attempt env chain mode) 5000 \<and> (\<forall>argv es. \<exists>r. ce_client env argv es = Inr r)
      \<and> (\<forall>p. left p \<noteq> None \<longrightarrow> (\<exists>x. p = ev @ [x])) \<and> left (pcap_path ev) \<noteq> None \<and> left (keylog_path ev) \<noteq> None
      \<and> (\<forall>fs. fs (pcap_path ev) = left (pcap_path ev) \<longrightarrow> fs (keylog_path ev) = left (keylog_path ev)
           \<longrightarrow> decoded env repo ev fs = Inr c))"

text \<open>The evidence can be written: no file in the way of a directory, no directory of a file.\<close>

definition clear_evidence :: "'x world_scheme \<Rightarrow> bool" where
  "clear_evidence s \<longleftrightarrow> (\<forall>chain mode. (\<forall>p\<in>set (ancestors (evidence_path chain mode)). files s p = None)
     \<and> (\<forall>x. evidence_path chain mode @ [x] \<notin> dirs s))"

text \<open>Only files directly in the evidence directory change.\<close>

definition evidence_only :: "path \<Rightarrow> 'x world_scheme \<Rightarrow> 'x world_scheme \<Rightarrow> bool" where
  "evidence_only ev s t \<longleftrightarrow> (\<forall>p. (\<forall>x. p \<noteq> ev @ [x]) \<longrightarrow> files t p = files s p)
     \<and> dirs t = dirs s \<union> set (ancestors ev)"

lemma ancestors_length: "p \<in> set (ancestors q) \<Longrightarrow> length p \<le> length q"
  by (auto simp: ancestors_def)

lemma ancestors_self: "q \<in> set (ancestors q)"
  by (auto simp: ancestors_def intro!: image_eqI[of _ _ "length q"])

lemma evidence_length: "length (evidence_path chain mode) = 4"
  by (simp add: evidence_path_def)

lemma clear_evidence_kept:
  assumes "clear_evidence s" and "evidence_only (evidence_path chain mode) s t"
  shows "clear_evidence t"
proof -
  have "p \<noteq> evidence_path chain mode @ [x]" if "p \<in> set (ancestors (evidence_path chain' mode'))" for p chain' mode' x
    using ancestors_length[OF that] by (auto simp: evidence_length)
  moreover have "evidence_path chain' mode' @ [x] \<notin> set (ancestors (evidence_path chain mode))" for chain' mode' x
    using ancestors_length[of "evidence_path chain' mode' @ [x]"] by (fastforce simp: evidence_length)
  ultimately show ?thesis using assms unfolding clear_evidence_def evidence_only_def by (metis UnE)
qed

section \<open>One capture succeeds\<close>

lemma setup_succeeds:
  assumes "clear_evidence s" and "ev = evidence_path chain mode"
  shows "\<exists>t. capture_setup ev s = (Inr (), t) \<and> evidence_only ev s t"
proof -
  have none: "\<not> list_ex (\<lambda>q. files s q \<noteq> None) (ancestors ev)"
    using assms by (auto simp: clear_evidence_def list_ex_iff)
  have "ev @ [x] \<notin> dirs s \<union> set (ancestors ev)" for x
    using assms ancestors_length[of "ev @ [x]" ev] by (auto simp: clear_evidence_def)
  then show ?thesis using none
    by (auto simp: capture_setup_def eseq_def ebind_def mkdir_def unlink_missing_ok_def pcap_path_def keylog_path_def
        evidence_only_def)
qed

text \<open>The state after a write into the evidence directory.\<close>

lemma write_evidence:
  assumes "ev \<in> dirs s" and "ev @ [x] \<notin> dirs s"
  shows "write_file (ev @ [x]) c s = (Inr (), s\<lparr>files := (files s)(ev @ [x] \<mapsto> c)\<rparr>)"
  using assms by (simp add: write_file_def)

lemma body_succeeds:
  assumes h: "healthy env repo chain mode c" and ev: "ev = evidence_path chain mode"
    and d: "ev \<in> dirs s" "\<And>x. ev @ [x] \<notin> dirs s"
  shows "\<exists>t. capture_body env repo chain mode ev s = (Inr (), t) \<and> dirs t = dirs s
    \<and> (\<forall>p. (\<forall>x. p \<noteq> ev @ [x]) \<longrightarrow> files t p = files s p)
    \<and> files t (pcap_path ev) = map_of (ce_left env chain mode) (pcap_path ev)
    \<and> files t (keylog_path ev) = map_of (ce_left env chain mode) (keylog_path ev)"
proof -
  let ?left = "map_of (ce_left env chain mode)"
  have left: "\<forall>p. ?left p \<noteq> None \<longrightarrow> (\<exists>x. p = ev @ [x])" "?left (pcap_path ev) \<noteq> None" "?left (keylog_path ev) \<noteq> None"
    using h by (simp_all add: healthy_def Let_def ev)
  obtain a b where client: "ce_client env (client_args repo (bundle_path chain))
      (trace s @ [Called (client_args repo (bundle_path chain))]) = Inr (a, b)"
    using h unfolding healthy_def Let_def by (metis surj_pair)
  have out: "?left p = None" if "\<forall>x. p \<noteq> ev @ [x]" for p using left(1) that by blast
  show ?thesis
    using d left(2,3) out
    by (auto simp: capture_body_def eseq_def ebind_def modify_def call_def gets_def lift_def client write_evidence
        pcap_path_def keylog_path_def map_add_def split: option.splits)
qed

lemma try_succeeds:
  assumes h: "healthy env repo chain mode c" and ev: "ev = evidence_path chain mode"
    and d: "ev \<in> dirs s" "\<And>x. ev @ [x] \<notin> dirs s"
  shows "\<exists>t. capture_try env repo chain mode ev s = (Inr (), t) \<and> dirs t = dirs s
    \<and> (\<forall>p. (\<forall>x. p \<noteq> ev @ [x]) \<longrightarrow> files t p = files s p)
    \<and> files t (pcap_path ev) = map_of (ce_left env chain mode) (pcap_path ev)
    \<and> files t (keylog_path ev) = map_of (ce_left env chain mode) (keylog_path ev)"
proof -
  let ?args = "dumpcap_args repo (pcap_path ev)"
  let ?u = "s\<lparr>running := running s @ [Dumpcap chain], trace := trace s @ [Spawned (Dumpcap chain) ?args]\<rparr>"
  have env: "ce_spawn env ?args = Inr ()" "\<And>p. ce_exits env p" using h by (simp_all add: healthy_def Let_def)
  have p: "popen (ce_spawn env) (Dumpcap chain) ?args s = (Inr (), ?u)" by (simp add: popen_run env)
  obtain v where v: "capture_body env repo chain mode ev ?u = (Inr (), v)" "dirs v = dirs s"
      "\<forall>p. (\<forall>x. p \<noteq> ev @ [x]) \<longrightarrow> files v p = files s p"
      "files v (pcap_path ev) = map_of (ce_left env chain mode) (pcap_path ev)"
      "files v (keylog_path ev) = map_of (ce_left env chain mode) (keylog_path ev)"
    using body_succeeds[OF h ev, of ?u] d by auto
  obtain w where w: "capture_cleanup env chain True v = (Inr (), w)" "files w = files v" "dirs w = dirs v"
    by (simp add: capture_cleanup_def eff_simps env(2))
  have "capture_try env repo chain mode ev s = (Inr (), w)"
    by (simp add: capture_try_def p efinally_def v(1) w(1))
  then show ?thesis using v w by auto
qed

lemma read_succeeds:
  assumes h: "healthy env repo chain mode c" and ev: "ev = evidence_path chain mode"
    and d: "ev \<in> dirs s" "\<And>x. ev @ [x] \<notin> dirs s"
    and f: "files s (pcap_path ev) = map_of (ce_left env chain mode) (pcap_path ev)"
      "files s (keylog_path ev) = map_of (ce_left env chain mode) (keylog_path ev)"
  shows "\<exists>t. capture_read env repo ev s = (Inr (Captured c), t) \<and> dirs t = dirs s
    \<and> (\<forall>p. (\<forall>x. p \<noteq> ev @ [x]) \<longrightarrow> files t p = files s p)"
proof -
  have there: "files s (pcap_path ev) \<noteq> None" "files s (keylog_path ev) \<noteq> None"
    using h f by (simp_all add: healthy_def Let_def ev)
  have "decoded env repo ev (files s) = Inr c"
    using h f by (simp add: healthy_def Let_def ev)
  then obtain a m b r where dec:
      "ce_tshark env (tshark_args repo (pcap_path ev) (keylog_path ev) ''tls.handshake.type'' message_cols) (files s) = Inr a"
      "attribute_messages (tshark_rows a) = Inr m"
      "ce_tshark env (tshark_args repo (pcap_path ev) (keylog_path ev) ''tcp.len > 0'' record_cols) (files s) = Inr b"
      "collect_records (tshark_rows b) = Inr r" "c = capture_of m r"
    by (auto simp: decoded_def rbind_Inr_iff)
  have "\<exists>t. analyze env repo (pcap_path ev) (keylog_path ev) ev s = (Inr c, t) \<and> dirs t = dirs s
      \<and> (\<forall>p. (\<forall>x. p \<noteq> ev @ [x]) \<longrightarrow> files t p = files s p)"
    using d dec
    by (simp add: analyze_def tshark_fields_def Let_def eseq_def ebind_def call_def modify_def gets_def lift_def ret_def
        write_evidence)
  then obtain t where t: "analyze env repo (pcap_path ev) (keylog_path ev) ev s = (Inr c, t)" "dirs t = dirs s"
      "\<forall>p. (\<forall>x. p \<noteq> ev @ [x]) \<longrightarrow> files t p = files s p" by blast
  have "capture_read env repo ev s = (Inr (Captured c), t)"
    using there by (simp add: capture_read_def ebind_def exists_file_def t(1) ret_def)
  then show ?thesis using t by blast
qed

lemma capture_one_succeeds:
  assumes h: "healthy env repo chain mode c" and clear: "clear_evidence s"
  shows "\<exists>t. capture_one env repo chain mode extra (evidence_path chain mode) s = (Inr (Captured c), t)
    \<and> evidence_only (evidence_path chain mode) s t"
proof -
  define ev where "ev = evidence_path chain mode"
  let ?args = "capture_server_args repo (bundle_path chain) (keylog_path ev) extra"
  obtain u where u: "capture_setup ev s = (Inr (), u)" "evidence_only ev s u"
    using setup_succeeds[OF clear ev_def] by blast
  have d: "ev \<in> dirs u" "\<And>x. ev @ [x] \<notin> dirs u"
    using u(2) clear_evidence_kept[OF clear, of chain mode u] ancestors_self[of ev]
    by (auto simp: evidence_only_def ev_def clear_evidence_def)
  let ?v = "u\<lparr>running := running u @ [SServer chain], trace := trace u @ [Spawned (SServer chain) ?args]\<rparr>"
  have p: "popen (ce_spawn env) (SServer chain) ?args u = (Inr (), ?v)"
    using h by (simp add: popen_run healthy_def Let_def)
  obtain w where w: "capture_try env repo chain mode ev ?v = (Inr (), w)" "dirs w = dirs u"
      "\<forall>p. (\<forall>x. p \<noteq> ev @ [x]) \<longrightarrow> files w p = files u p"
      "files w (pcap_path ev) = map_of (ce_left env chain mode) (pcap_path ev)"
      "files w (keylog_path ev) = map_of (ce_left env chain mode) (keylog_path ev)"
    using try_succeeds[OF h ev_def, of ?v] d by auto
  obtain t where t: "capture_read env repo ev w = (Inr (Captured c), t)" "dirs t = dirs w"
      "\<forall>p. (\<forall>x. p \<noteq> ev @ [x]) \<longrightarrow> files t p = files w p"
    using read_succeeds[OF h ev_def _ _ w(4,5)] d w(2) by auto
  have "wait_port (ce_attempt env chain mode) 5000" using h by (simp add: healthy_def Let_def)
  then have "capture_one env repo chain mode extra ev s = (Inr (Captured c), t)"
    by (simp add: capture_one_def capture_serve_def eseq_def ebind_def u(1) p w(1) t(1))
  moreover have "evidence_only ev s t" using u(2) w t by (auto simp: evidence_only_def)
  ultimately show ?thesis by (auto simp: ev_def)
qed

section \<open>The script succeeds\<close>

text \<open>What a run keeps while it captures: nothing outside the evidence changes.\<close>

definition evidence_root :: path where
  "evidence_root = [''phase3'', ''evidence'']"

definition progress :: "'x world_scheme \<Rightarrow> 'x world_scheme \<Rightarrow> bool" where
  "progress s t \<longleftrightarrow> (clear_evidence s \<longrightarrow> clear_evidence t)
     \<and> (\<forall>p. \<not> prefix evidence_root p \<longrightarrow> files t p = files s p) \<and> dirs s \<subseteq> dirs t
     \<and> (\<forall>p\<in>dirs t. p \<in> dirs s \<or> prefix evidence_root p \<or> prefix p evidence_root)"

interpretation progress: frame progress
  by unfold_locales (auto simp: progress_def)

lemma evidence_prefixes:
  "p \<in> set (ancestors (evidence_path chain mode)) \<Longrightarrow> prefix evidence_root p \<or> prefix p evidence_root"
proof -
  assume "p \<in> set (ancestors (evidence_path chain mode))"
  then have "prefix p (evidence_path chain mode)" by (auto simp: ancestors_def take_is_prefix)
  moreover have "prefix evidence_root (evidence_path chain mode)" by (simp add: evidence_root_def evidence_path_def)
  ultimately show ?thesis by (metis prefix_same_cases)
qed

lemma evidence_progress:
  assumes "evidence_only (evidence_path chain mode) s t"
  shows "progress s t"
proof -
  have pre: "prefix evidence_root (evidence_path chain mode @ [x])" for x by (simp add: evidence_root_def evidence_path_def)
  have f: "files t p = files s p" if "\<not> prefix evidence_root p" for p
  proof -
    have "\<forall>x. p \<noteq> evidence_path chain mode @ [x]" using that pre by auto
    then show ?thesis using assms by (simp add: evidence_only_def)
  qed
  have d: "dirs t = dirs s \<union> set (ancestors (evidence_path chain mode))" using assms by (simp add: evidence_only_def)
  show ?thesis unfolding progress_def
  proof (intro conjI)
    show "clear_evidence s \<longrightarrow> clear_evidence t" using assms clear_evidence_kept by blast
    show "\<forall>p. \<not> prefix evidence_root p \<longrightarrow> files t p = files s p" using f by blast
    show "dirs s \<subseteq> dirs t" using d by blast
    show "\<forall>p\<in>dirs t. p \<in> dirs s \<or> prefix evidence_root p \<or> prefix p evidence_root"
      unfolding d using evidence_prefixes by blast
  qed
qed

lemma print_progress: "progress s (s\<lparr>out := x\<rparr>)"
  by (simp add: progress_def clear_evidence_def)

definition key_there :: "'x world_scheme \<Rightarrow> string \<Rightarrow> bool" where
  "key_there s chain \<longleftrightarrow> files s (bundle_path chain @ [''leaf.key'']) \<noteq> None \<or> bundle_path chain @ [''leaf.key''] \<in> dirs s"

lemma key_there_progress: "progress s t \<Longrightarrow> key_there t chain = key_there s chain"
  by (auto simp: key_there_def progress_def evidence_root_def bundle_path_def)

definition captured :: "(string \<Rightarrow> string \<Rightarrow> capture) \<Rightarrow> string \<Rightarrow> string \<Rightarrow> result" where
  "captured caps chain mode = \<lparr>rs_outcome = Captured (caps chain mode), rs_chain = chain, rs_mode = mode\<rparr>"

lemma run_capture_succeeds:
  assumes "healthy env repo chain mode (caps chain mode)" and "clear_evidence s"
  shows "\<exists>t. run_capture env repo chain (mode, extra) s = (Inr (captured caps chain mode), t) \<and> progress s t"
proof -
  obtain t where t: "capture_one env repo chain mode extra (evidence_path chain mode) s = (Inr (Captured (caps chain mode)), t)"
      "progress s t"
    using capture_one_succeeds[OF assms, of extra] evidence_progress by blast
  then show ?thesis using progress.trans[OF t(2) print_progress]
    by (simp add: run_capture_def ebind_def t(1) eseq_def Let_def print_def ret_def captured_def)
qed

abbreviation modes :: "string list" where
  "modes \<equiv> [''compression'', ''no-compression'']"

lemma run_chain_succeeds:
  assumes "\<And>m. key_there s chain \<Longrightarrow> m \<in> set modes \<Longrightarrow> healthy env repo chain m (caps chain m)"
    and "clear_evidence s"
  shows "\<exists>t. run_chain env repo chain s
      = (Inr (if key_there s chain then map (captured caps chain) modes else []), t) \<and> progress s t"
proof (cases "key_there s chain")
  case False
  then show ?thesis using print_progress
    by (simp add: run_chain_def ebind_def exists_file_def key_there_def eseq_def print_def ret_def)
next
  case True
  have h: "healthy env repo chain ''compression'' (caps chain ''compression'')"
      "healthy env repo chain ''no-compression'' (caps chain ''no-compression'')"
    using assms(1)[OF True] by simp_all
  obtain u where u: "run_capture env repo chain (''compression'', []) s = (Inr (captured caps chain ''compression''), u)" "progress s u"
    using run_capture_succeeds[of env repo chain "''compression''" caps s "[]"] h(1) assms(2) by blast
  then have "clear_evidence u" using assms(2) by (simp add: progress_def)
  then obtain t where t: "run_capture env repo chain (''no-compression'', [''-no_tx_cert_comp'']) u
      = (Inr (captured caps chain ''no-compression''), t)" "progress u t"
    using run_capture_succeeds[of env repo chain "''no-compression''" caps u "[''-no_tx_cert_comp'']"] h(2) by blast
  have "run_chain env repo chain s = (Inr (map (captured caps chain) modes), t)"
    using True by (simp add: run_chain_def ebind_def exists_file_def key_there_def transport_modes_def u(1) t(1) ret_def)
  then show ?thesis using True progress.trans[OF u(2) t(2)] by auto
qed

lemma run_chains_succeed:
  assumes "\<And>c m. c \<in> set cs \<Longrightarrow> key_there s c \<Longrightarrow> m \<in> set modes \<Longrightarrow> healthy env repo c m (caps c m)"
    and "clear_evidence s"
  shows "\<exists>t. emap (run_chain env repo) cs s
      = (Inr (map (\<lambda>c. if key_there s c then map (captured caps c) modes else []) cs), t) \<and> progress s t"
  using assms
proof (induction cs arbitrary: s)
  case (Cons c cs)
  obtain u where u: "run_chain env repo c s = (Inr (if key_there s c then map (captured caps c) modes else []), u)" "progress s u"
    using run_chain_succeeds[of s c env repo caps] Cons.prems by auto
  have "clear_evidence u" using u(2) Cons.prems(2) by (simp add: progress_def)
  then obtain t where "emap (run_chain env repo) cs u
      = (Inr (map (\<lambda>c. if key_there s c then map (captured caps c) modes else []) cs), t)" "progress u t"
    using Cons.IH[of u] Cons.prems(1) key_there_progress[OF u(2)] by auto
  then show ?case using u progress.trans[OF u(2)] by (auto simp: ebind_def ret_def)
qed (simp add: ret_def progress.refl)

lemma transport_main_succeeds:
  assumes "\<And>c m. c \<in> set transport_chains \<Longrightarrow> key_there s c \<Longrightarrow> m \<in> set modes \<Longrightarrow> healthy env repo c m (caps c m)"
    and "clear_evidence s" and "[''phase3''] \<in> dirs s" and "[''phase3'', ''transport.json''] \<notin> dirs s"
  shows "\<exists>rss u t. emap (run_chain env repo) transport_chains s = (Inr rss, u) \<and> transport_main env repo s = (Inr (), t)
    \<and> concat rss = concat (map (\<lambda>c. map (captured caps c) modes) (filter (key_there s) transport_chains))
    \<and> (\<forall>p. \<not> prefix [''phase3''] p \<longrightarrow> files t p = files s p)"
proof -
  let ?rss = "map (\<lambda>c. if key_there s c then map (captured caps c) modes else []) transport_chains"
  obtain u where u: "emap (run_chain env repo) transport_chains s = (Inr ?rss, u)" "progress s u"
    using run_chains_succeed[of transport_chains s env repo caps] assms(1,2) by blast
  have "[''phase3''] \<in> dirs u" "[''phase3'', ''transport.json''] \<notin> dirs u"
    using u(2) assms(3,4) by (auto simp: progress_def evidence_root_def)
  then obtain t where t: "transport_main env repo s = (Inr (), t)"
      "\<forall>p. p \<noteq> [''phase3'', ''transport.json''] \<longrightarrow> files t p = files u p"
    by (simp add: transport_main_def ebind_def u(1) Let_def eseq_def write_file_def print_def)
  have "files t p = files s p" if "\<not> prefix [''phase3''] p" for p
  proof -
    have "p \<noteq> [''phase3'', ''transport.json'']" "\<not> prefix evidence_root p"
      using that by (auto simp: evidence_root_def prefix_def)
    then show ?thesis using t(2) u(2) by (simp add: progress_def)
  qed
  moreover have "concat (map (\<lambda>c. if key_there s c then f c else []) cs) = concat (map f (filter (key_there s) cs))" for f :: "string \<Rightarrow> result list" and cs
    by (induction cs) simp_all
  ultimately show ?thesis using u t(1)
    by - (rule exI[of _ ?rss], rule exI[of _ u], rule exI[of _ t], simp)
qed

section \<open>Four chains\<close>

definition full_figures :: "(string \<times> int \<times> int) list" where
  "full_figures = [(''ecdsa'', 914, 74), (''mldsa44'', 8112, 2424), (''mldsa65'', 11170, 3313), (''mldsa87'', 15086, 4631)]"

definition full_row :: "int \<times> int \<Rightarrow> string" where
  "full_row cv = ''14435'' @ [CHR 0x09] @ ''2,11,15'' @ [CHR 0x09] @ ''1256,'' @ str_int (fst cv) @ '','' @ str_int (snd cv)"

definition full_env :: capture_env where
  "full_env = (sample_env True)\<lparr>
     ce_left := (\<lambda>chain mode. [(pcap_path (evidence_path chain mode), ''pcap''), (keylog_path (evidence_path chain mode), ''keys'')]),
     ce_tshark := (\<lambda>argv _. Inr (if ''tcp.len > 0'' \<in> set argv then [] else
       (case find (\<lambda>(c, _). list_ex (\<lambda>m. argv ! 2 = abs_path ''/r'' (pcap_path (evidence_path c m))) modes) full_figures of
          None \<Rightarrow> [] | Some (_, cv) \<Rightarrow> full_row cv)))\<rparr>"

definition full_world :: pworld where
  "full_world = \<lparr>files = (\<lambda>p. if p \<in> set (map (\<lambda>(c, _). key_path c) full_figures) then Some ''key'' else None),
     dirs = {[], [''phase3'']}, out = [], running = [], trace = []\<rparr>"

definition full_capture :: "int \<Rightarrow> int \<Rightarrow> capture" where
  "full_capture c v = capture_of \<lparr>server_msgs = [(''ServerHello'', 1256), (''Certificate'', c), (''CertificateVerify'', v)],
     client_msgs = []\<rparr> \<lparr>server_recs = [], client_recs = [], server_tcp = 0, client_tcp = 0\<rparr>"

definition full_caps :: "string \<Rightarrow> string \<Rightarrow> capture" where
  "full_caps chain mode = (case map_of full_figures chain of Some (c, v) \<Rightarrow> full_capture c v | None \<Rightarrow> full_capture 0 0)"

lemma splitlines_aux_free:
  "(\<And>c. c \<in> set s \<Longrightarrow> \<not> is_newline c) \<Longrightarrow> cur \<noteq> [] \<or> s \<noteq> [] \<Longrightarrow> splitlines_aux cur s = [rev cur @ s]"
  by (induction cur s rule: splitlines_aux.induct) (simp_all, force simp: is_newline_def)

lemma digit_not_break: "is_digit c \<or> c = CHR ''-'' \<Longrightarrow> \<not> is_newline c \<and> c \<noteq> CHR 0x09 \<and> c \<noteq> CHR '',''"
  by (auto simp: is_digit_def is_newline_def)

lemma full_rows: "tshark_rows (full_row (c, v)) = [[[''14435''], [''2'', ''11'', ''15''], [''1256'', str_int c, str_int v]]]"
proof -
  have num: "\<not> is_newline x \<and> x \<noteq> CHR 0x09 \<and> x \<noteq> CHR '',''" if "x \<in> set (str_int i)" for x i
    using digit_not_break str_int_chars[OF that] by blast
  then have free: "CHR 0x09 \<notin> set (str_int i)" "CHR '','' \<notin> set (str_int i)" for i by blast+
  have "\<not> is_newline x" if "x \<in> set (full_row (c, v))" for x
    using that num by (auto simp: full_row_def is_newline_def)
  then have "splitlines (full_row (c, v)) = [full_row (c, v)]"
    unfolding splitlines_def by (subst splitlines_aux_free) (simp_all add: full_row_def)
  moreover have "strip (full_row (c, v)) \<noteq> []"
    by (simp add: full_row_def strip_def is_space_def)
  moreover have "split_on (CHR 0x09) (full_row (c, v)) = [''14435'', ''2,11,15'', ''1256,'' @ str_int c @ '','' @ str_int v]"
    by (simp add: full_row_def split_on_free free)
  moreover have "split_on (CHR '','') (''1256,'' @ str_int c @ '','' @ str_int v) = [''1256'', str_int c, str_int v]"
    by (simp add: split_on_append[of _ "str_int c", simplified] split_on_free free)
  ultimately show ?thesis by (simp add: tshark_rows_def column_values_def)
qed

lemma full_attribution:
  "attribute_messages (tshark_rows (full_row (c, v))) = Inr \<lparr>server_msgs = [(''ServerHello'', 1256),
     (''Certificate'', c), (''CertificateVerify'', v)], client_msgs = []\<rparr>"
proof -
  have "hs_name ''2'' = Inr ''ServerHello''" "hs_name ''11'' = Inr ''Certificate''" "hs_name ''15'' = Inr ''CertificateVerify''"
      "py_int ''1256'' = Inr 1256"
    by code_simp+
  then show ?thesis
    by (simp add: full_rows attribute_messages_def message_row_def three_columns_def side_of_def port_str_def
        add_message_def dict_add_def get_default_def py_int_str)
qed

lemma full_find:
  "c \<in> set (map fst full_figures) \<Longrightarrow> m \<in> set modes \<Longrightarrow>
     find (\<lambda>(c', _). list_ex (\<lambda>m'. abs_path ''/r'' (pcap_path (evidence_path c m))
       = abs_path ''/r'' (pcap_path (evidence_path c' m'))) modes) full_figures = map_option (Pair c) (map_of full_figures c)"
  by (auto simp: full_figures_def abs_path_def path_str_def pcap_path_def evidence_path_def)

lemma full_decoded:
  assumes "c \<in> set (map fst full_figures)" and "m \<in> set modes"
  shows "decoded full_env ''/r'' (evidence_path c m) fs = Inr (full_caps c m)"
proof -
  obtain a v where av: "map_of full_figures c = Some (a, v)" "(a, v) \<in> set (map snd full_figures)"
    using assms(1) by (auto simp: full_figures_def)
  have two: "tshark_args ''/r'' p k d cols ! 2 = abs_path ''/r'' p" for p k d cols by (simp add: tshark_args_def)
  have "''tcp.len > 0'' \<notin> set (tshark_args ''/r'' (pcap_path (evidence_path c m)) (keylog_path (evidence_path c m))
      ''tls.handshake.type'' message_cols)"
    by (auto simp: tshark_args_def message_cols_def abs_path_def)
  moreover have "''tcp.len > 0'' \<in> set (tshark_args ''/r'' p k ''tcp.len > 0'' cols)" for p k cols
    by (simp add: tshark_args_def)
  moreover have "attribute_messages (tshark_rows (full_row (a, v))) = Inr \<lparr>server_msgs = [(''ServerHello'', 1256),
     (''Certificate'', a), (''CertificateVerify'', v)], client_msgs = []\<rparr>"
    by (rule full_attribution)
  moreover have "collect_records (tshark_rows []) = Inr \<lparr>server_recs = [], client_recs = [], server_tcp = 0, client_tcp = 0\<rparr>"
    by code_simp
  ultimately show ?thesis
    using full_find[OF assms]
    by (simp add: decoded_def full_env_def two av(1) full_caps_def full_capture_def)
qed

lemma full_key_there: "key_there full_world c \<longleftrightarrow> c \<in> set (map fst full_figures)"
  by (auto simp: key_there_def full_world_def key_path_def full_figures_def bundle_path_def)

lemma full_healthy:
  assumes "key_there full_world c" and "m \<in> set modes"
  shows "healthy full_env ''/r'' c m (full_caps c m)"
proof -
  have "decoded full_env ''/r'' (evidence_path c m) fs = Inr (full_caps c m)" for fs
    using full_decoded assms by (simp add: full_key_there)
  then show ?thesis
    by (auto simp: healthy_def Let_def full_env_def sample_env_def pcap_path_def keylog_path_def
        wait_port_def wait_until.simps split: if_splits)
qed

lemma full_clear: "clear_evidence full_world"
  by (auto simp: clear_evidence_def full_world_def full_figures_def key_path_def bundle_path_def evidence_path_def ancestors_def)

lemma full_keys: "filter (key_there full_world) transport_chains = [''ecdsa'', ''mldsa44'', ''mldsa65'', ''mldsa87'']"
  by (simp add: full_key_there full_figures_def transport_chains_def)

section \<open>Properties\<close>

text \<open>
  C8: the captures of a healthy environment all succeed.  When every program starts and
  exits, the ports answer, the client runs and \<open>tshark\<close> decodes what the processes left,
  for every chain with a key in both modes, and nothing is in the way of the evidence,
  the script ends normally, and its results are, chain by chain in both modes, exactly
  the captures that were decoded.
\<close>

theorem captures_succeed:
  assumes "\<And>c m. c \<in> set transport_chains \<Longrightarrow> key_there s c \<Longrightarrow> m \<in> set modes \<Longrightarrow> healthy env repo c m (caps c m)"
    and "clear_evidence s" and "[''phase3''] \<in> dirs s" and "[''phase3'', ''transport.json''] \<notin> dirs s"
  shows "\<exists>rss u t. emap (run_chain env repo) transport_chains s = (Inr rss, u) \<and> transport_main env repo s = (Inr (), t)
    \<and> concat rss = concat (map (\<lambda>c. map (captured caps c) modes) (filter (key_there s) transport_chains))"
  using transport_main_succeeds[OF assms] by blast

theorem captures_succeed_witness:
  "\<exists>rss u. emap (run_chain full_env ''/r'') transport_chains full_world = (Inr rss, u) \<and> length (concat rss) = 8
    \<and> fst (transport_main full_env ''/r'' full_world) = Inr ()"
proof -
  have "[''phase3''] \<in> dirs full_world" "[''phase3'', ''transport.json''] \<notin> dirs full_world" by (simp_all add: full_world_def)
  from captures_succeed[of full_world full_env "''/r''" full_caps, OF full_healthy full_clear this] show ?thesis
    by (fastforce simp: full_keys)
qed

end
