(* ===== verification/Json_Read.thy ===== *)
theory Json_Read
  imports Json
begin

text \<open>
  \<open>json.loads\<close>: a recursive-descent reader with the length of its input as fuel, and
  the proof that it reads back what \<open>json.dumps\<close> writes, compact or indented.  The
  middle is the relation \<open>renders\<close>: a text is a rendering of a value when it differs
  from the compact one at most by white space between tokens.  Numbers with an exponent,
  \<open>NaN\<close> and the infinities are rejected; the program never writes them.
\<close>

section \<open>The reader\<close>

definition json_error :: err where
  "json_error = JSONDecodeError ''Expecting value''"

definition is_ws :: "char \<Rightarrow> bool" where
  "is_ws c \<longleftrightarrow> c = CHR '' '' \<or> c = CHR 0x09 \<or> c = CHR 0x0A \<or> c = CHR 0x0D"

definition skip_ws :: "string \<Rightarrow> string" where
  "skip_ws s = dropWhile is_ws s"

definition hex_val :: "char \<Rightarrow> nat option" where
  "hex_val c = (let n = of_char c :: nat in
     if 48 \<le> n \<and> n \<le> 57 then Some (n - 48)
     else if 97 \<le> n \<and> n \<le> 102 then Some (n - 87)
     else if 65 \<le> n \<and> n \<le> 70 then Some (n - 55) else None)"

definition unescape :: "char \<Rightarrow> char option" where
  "unescape c = (if c = CHR 0x22 \<or> c = CHR 0x5C \<or> c = CHR ''/'' then Some c
     else if c = CHR ''n'' then Some (CHR 0x0A) else if c = CHR ''r'' then Some (CHR 0x0D)
     else if c = CHR ''t'' then Some (CHR 0x09) else if c = CHR ''b'' then Some (CHR 0x08)
     else if c = CHR ''f'' then Some (CHR 0x0C) else None)"

text \<open>A string after its opening quote; code points from 256 on are outside the model.\<close>

definition add_char :: "char \<Rightarrow> (string \<times> string) res \<Rightarrow> (string \<times> string) res" where
  "add_char c r = rbind r (\<lambda>(s, rest). Inr (c # s, rest))"

fun hex4 :: "string \<Rightarrow> char option" where
  "hex4 [a, b, c, d] = (case (hex_val a, hex_val b, hex_val c, hex_val d) of
     (Some p, Some q, Some x, Some y) \<Rightarrow> if p = 0 \<and> q = 0 then Some (char_of (16 * x + y)) else None
   | _ \<Rightarrow> None)"
| "hex4 _ = None"

function json_string :: "string \<Rightarrow> (string \<times> string) res" where
  "json_string s = (case s of [] \<Rightarrow> Inl json_error
     | c # r \<Rightarrow>
        if c = CHR 0x22 then Inr ([], r)
        else if c = CHR 0x5C then (case r of [] \<Rightarrow> Inl json_error
          | e # t \<Rightarrow> if e = CHR ''u'' then (case hex4 (take 4 t) of None \<Rightarrow> Inl json_error
                 | Some d \<Rightarrow> add_char d (json_string (drop 4 t)))
              else (case unescape e of None \<Rightarrow> Inl json_error | Some d \<Rightarrow> add_char d (json_string t)))
        else if (of_char c :: nat) < 32 then Inl json_error
        else add_char c (json_string r))"
  by pat_completeness auto
termination by (relation "measure length") auto

declare json_string.simps [simp del]

definition digits_of :: "string \<Rightarrow> string \<times> string" where
  "digits_of s = (takeWhile is_digit s, dropWhile is_digit s)"

text \<open>\<open>-?(0|[1-9][0-9]*)(\.[0-9]+)?\<close>.\<close>

text \<open>A decimal in its canonical form: no zero at the end but the first fractional digit.\<close>

fun dec_norm :: "int \<Rightarrow> nat \<Rightarrow> int \<times> nat" where
  "dec_norm m (Suc (Suc k)) = (if m mod 10 = 0 then dec_norm (m div 10) (Suc k) else (m, Suc (Suc k)))"
| "dec_norm m k = (m, k)"

definition decimal :: "int \<Rightarrow> nat \<Rightarrow> json" where
  "decimal m k = JDec (fst (dec_norm m k)) (snd (dec_norm m k))"

definition json_number :: "string \<Rightarrow> (json \<times> string) res" where
  "json_number s = (let neg = (s \<noteq> [] \<and> hd s = CHR ''-''); t = (if neg then tl s else s);
     ds = fst (digits_of t); rest = snd (digits_of t);
     whole = (if ds \<noteq> [] \<and> hd ds = CHR ''0'' then [CHR ''0''] else ds);
     after = (if ds \<noteq> [] \<and> hd ds = CHR ''0'' then tl ds @ rest else rest);
     sign = (if neg then -1 else 1) in
     if ds = [] then Inl json_error
     else if after \<noteq> [] \<and> hd after = CHR ''.'' \<and> fst (digits_of (tl after)) \<noteq> []
     then (let f = fst (digits_of (tl after)); u = snd (digits_of (tl after)) in
        if u \<noteq> [] \<and> hd u \<in> set ''eE'' then Inl json_error
        else Inr (decimal (sign * int (parse_digits 0 (whole @ f))) (length f), u))
     else if after \<noteq> [] \<and> hd after \<in> set ''eE'' then Inl json_error
     else Inr (JInt (sign * int (parse_digits 0 whole)), after))"

fun json_value :: "nat \<Rightarrow> string \<Rightarrow> (json \<times> string) res"
  and json_items :: "nat \<Rightarrow> string \<Rightarrow> (json list \<times> string) res"
  and json_members :: "nat \<Rightarrow> string \<Rightarrow> ((string \<times> json) list \<times> string) res" where
  "json_value 0 s = Inl json_error"
| "json_value (Suc n) s = (case s of [] \<Rightarrow> Inl json_error
     | c # r \<Rightarrow>
        if c = CHR 0x22 then rbind (json_string r) (\<lambda>(t, u). Inr (JStr t, u))
        else if c = CHR ''['' then (case skip_ws r of [] \<Rightarrow> Inl json_error
          | d # u \<Rightarrow> if d = CHR '']'' then Inr (JList [], u)
              else rbind (json_items n (d # u)) (\<lambda>(xs, v). Inr (JList xs, v)))
        else if c = CHR ''{'' then (case skip_ws r of [] \<Rightarrow> Inl json_error
          | d # u \<Rightarrow> if d = CHR ''}'' then Inr (JObj [], u)
              else rbind (json_members n (d # u)) (\<lambda>(xs, v). Inr (JObj (dict_of xs), v)))
        else if prefix ''null'' s then Inr (JNull, drop 4 s)
        else if prefix ''true'' s then Inr (JBool True, drop 4 s)
        else if prefix ''false'' s then Inr (JBool False, drop 5 s)
        else json_number s)"
| "json_items 0 s = Inl json_error"
| "json_items (Suc n) s = rbind (json_value n s) (\<lambda>(x, r). case skip_ws r of [] \<Rightarrow> Inl json_error
     | c # t \<Rightarrow> if c = CHR '']'' then Inr ([x], t)
        else if c = CHR '','' then rbind (json_items n (skip_ws t)) (\<lambda>(xs, u). Inr (x # xs, u))
        else Inl json_error)"
| "json_members 0 s = Inl json_error"
| "json_members (Suc n) s = (case s of [] \<Rightarrow> Inl json_error
     | q # r \<Rightarrow> if q \<noteq> CHR 0x22 then Inl json_error
        else rbind (json_string r) (\<lambda>(k, r1). case skip_ws r1 of [] \<Rightarrow> Inl json_error
          | col # r2 \<Rightarrow> if col \<noteq> CHR '':'' then Inl json_error
             else rbind (json_value n (skip_ws r2)) (\<lambda>(x, r3). case skip_ws r3 of [] \<Rightarrow> Inl json_error
               | c # t \<Rightarrow> if c = CHR ''}'' then Inr ([(k, x)], t)
                  else if c = CHR '','' then rbind (json_members n (skip_ws t)) (\<lambda>(xs, u). Inr ((k, x) # xs, u))
                  else Inl json_error)))"

definition loads :: "string \<Rightarrow> json res" where
  "loads s = rbind (json_value (Suc (length s)) (skip_ws s)) (\<lambda>(v, r).
     if skip_ws r = [] then Inr v else Inl (JSONDecodeError ''Extra data''))"

section \<open>Strings\<close>

lemma json_string_simps:
  "json_string (CHR 0x22 # r) = Inr ([], r)"
  "unescape e = Some d \<Longrightarrow> json_string (CHR 0x5C # e # t) = add_char d (json_string t)"
  "hex4 [a, b, c, x] = Some d \<Longrightarrow> json_string (CHR 0x5C # CHR ''u'' # a # b # c # x # t) = add_char d (json_string t)"
  "c \<noteq> CHR 0x22 \<Longrightarrow> c \<noteq> CHR 0x5C \<Longrightarrow> 32 \<le> (of_char c :: nat) \<Longrightarrow> json_string (c # r) = add_char c (json_string r)"
  by (subst json_string.simps; auto simp: unescape_def split: if_splits)+

lemma hex_val_digit: "d < 16 \<Longrightarrow> hex_val (hex_digit d) = Some d"
proof -
  assume "d < 16"
  then have "d \<in> {0,1,2,3,4,5,6,7,8,9,10,11,12,13,14,15}" by (simp only: insert_iff empty_iff) arith
  then show ?thesis by (auto simp: hex_digit_def hex_val_def)
qed

lemma of_char_lt: "(of_char c :: nat) < 256"
  using nat_of_char_less_256[of c] by simp

lemma hex4_escape:
  "hex4 [CHR ''0'', CHR ''0'', hex_digit (of_char c div 16), hex_digit (of_char c mod 16)] = Some c"
proof -
  have "(of_char c :: nat) div 16 < 16" using of_char_lt[of c] by (simp add: div_less_iff_less_mult)
  moreover have "16 * (of_char c div 16) + of_char c mod 16 = (of_char c :: nat)" by simp
  ultimately show ?thesis by (simp add: hex_val_digit) (simp add: hex_val_def)
qed

lemma json_string_escape: "json_string (escape_char c @ t) = add_char c (json_string t)"
  unfolding escape_char_def
  by (auto simp: json_string_simps(1,2,4) json_string_simps(3)[OF hex4_escape] unescape_def)

lemma json_string_quote: "json_string (concat (map escape_char s) @ CHR 0x22 # t) = Inr (s, t)"
  by (induction s) (simp_all add: json_string_simps json_string_escape add_char_def)

section \<open>Numbers\<close>

text \<open>What may follow a value: the end, white space or a delimiter.\<close>

definition delimited :: "string \<Rightarrow> bool" where
  "delimited s \<longleftrightarrow> (case s of [] \<Rightarrow> True | c # _ \<Rightarrow> is_ws c \<or> c \<in> set '',]}'')"

lemma delimited_head:
  assumes "delimited s" and "s \<noteq> []"
  shows "\<not> is_digit (hd s)" "hd s \<noteq> CHR ''.''" "hd s \<noteq> CHR ''e''" "hd s \<noteq> CHR ''E''"
  using assms by (auto simp: delimited_def is_ws_def is_digit_def split: list.splits)

lemma takeWhile_digits:
  "(\<And>c. c \<in> set ds \<Longrightarrow> is_digit c) \<Longrightarrow> t = [] \<or> \<not> is_digit (hd t) \<Longrightarrow> digits_of (ds @ t) = (ds, t)"
  by (cases t) (auto simp: digits_of_def takeWhile_append dropWhile_append)

lemma str_nat_head:
  "hd (str_nat n) = CHR ''0'' \<Longrightarrow> str_nat n = ''0''"
proof (induction n rule: str_nat.induct)
  case (1 n)
  show ?case
  proof (cases "n < 10")
    case True
    then have s: "str_nat n = [digit n]" by (subst str_nat.simps) simp
    then have "digit n = CHR ''0''" using 1 by simp
    then show ?thesis by (simp add: s)
  next
    case False
    then have s: "str_nat n = str_nat (n div 10) @ [digit (n mod 10)]" by (subst str_nat.simps) simp
    then have "str_nat (n div 10) = ''0''" using 1 False by simp
    then have "parse_digits 0 (str_nat (n div 10)) = parse_digits 0 ''0''" by (rule arg_cong)
    then have "n div 10 = 0" by (simp add: digit_val_def)
    then show ?thesis using False by simp
  qed
qed

lemma json_number_int:
  assumes "delimited rest"
  shows "json_number (str_int i @ rest) = Inr (JInt i, rest)"
proof -
  have nodot: "rest = [] \<or> \<not> is_digit (hd rest)" "\<not> (rest \<noteq> [] \<and> hd rest = CHR ''.'')"
      "\<not> (rest \<noteq> [] \<and> hd rest \<in> set ''eE'')"
    using delimited_head[OF assms] by auto
  have ds: "digits_of (str_nat n @ rest) = (str_nat n, rest)" for n
    by (rule takeWhile_digits) (use str_nat_digits nodot in auto)
  have hd: "hd (str_nat n @ rest) \<noteq> CHR ''-''" for n
    using str_nat_digits[of "hd (str_nat n)" n] is_digit_not_special(3) by auto
  have whole: "(if str_nat n \<noteq> [] \<and> hd (str_nat n) = CHR ''0'' then [CHR ''0''] else str_nat n) = str_nat n"
      "(if str_nat n \<noteq> [] \<and> hd (str_nat n) = CHR ''0'' then tl (str_nat n) @ rest else rest) = rest" for n
    using str_nat_head[of n] by auto
  have core: "json_number (sg @ str_nat n @ rest) = Inr (JInt (if sg = [] then int n else - int n), rest)"
    if "sg = [] \<or> sg = ''-''" for sg n
  proof -
    define t where "t = str_nat n @ rest"
    have t: "t \<noteq> []" "hd t \<noteq> CHR ''-''" "digits_of t = (str_nat n, rest)"
      using hd ds by (simp_all add: t_def)
    have neg: "(sg @ t \<noteq> [] \<and> hd (sg @ t) = CHR ''-'') = (sg \<noteq> [])"
        "(if sg \<noteq> [] then tl (sg @ t) else sg @ t) = t"
      using that t by auto
    show ?thesis
      unfolding t_def[symmetric] json_number_def Let_def neg t(3) fst_conv snd_conv whole
      using nodot(2,3) by (cases "rest = []") auto
  qed
  show ?thesis using core[of "[]" "nat i"] core[of "''-''" "nat (- i)"] by (simp add: str_int_def)
qed

text \<open>Decimals: a canonical one is written with exactly its \<open>k\<close> fractional digits.\<close>

definition dec_ok :: "int \<Rightarrow> nat \<Rightarrow> bool" where
  "dec_ok m k \<longleftrightarrow> k = 1 \<or> 2 \<le> k \<and> m mod 10 \<noteq> 0"

lemma dec_norm_ok: "0 < k \<Longrightarrow> dec_ok (fst (dec_norm m k)) (snd (dec_norm m k))"
  by (induction m k rule: dec_norm.induct) (auto simp: dec_ok_def)

lemma decimal_ok: "dec_ok m k \<Longrightarrow> decimal m k = JDec m k"
  by (cases "(m, k)" rule: dec_norm.cases) (auto simp: dec_ok_def decimal_def)

definition frac_digits :: "nat \<Rightarrow> nat \<Rightarrow> string" where
  "frac_digits n k = replicate (k - length (str_nat (n mod 10 ^ k))) (CHR ''0'') @ str_nat (n mod 10 ^ k)"

lemma length_str_nat: "n < 10 ^ k \<Longrightarrow> 0 < k \<Longrightarrow> length (str_nat n) \<le> k"
proof (induction n arbitrary: k rule: str_nat.induct)
  case (1 n)
  show ?case
  proof (cases "n < 10")
    case False
    then have "k \<noteq> 1" using 1(2) by auto
    then obtain j where k: "k = Suc j" "0 < j" using 1(3) by (cases k) auto
    then have "length (str_nat (n div 10)) \<le> j" using 1(1)[OF False, of j] 1(2) by auto
    then show ?thesis using False k by (subst str_nat.simps) simp
  qed (use 1 in \<open>subst str_nat.simps, simp\<close>)
qed

lemma last_str_nat: "last (str_nat n) = digit (n mod 10)"
  by (subst str_nat.simps) simp

lemma digit_zero: "d < 10 \<Longrightarrow> digit d = CHR ''0'' \<longleftrightarrow> d = 0"
  using digit_val_digit[of d] by (auto simp: digit_val_def digit_def)

lemma parse_digits_shift: "parse_digits a xs = a * 10 ^ length xs + parse_digits 0 xs"
proof (induction xs arbitrary: a)
  case (Cons c cs)
  from Cons[of "10 * a + digit_val c"] Cons[of "digit_val c"] show ?case by (simp add: algebra_simps)
qed simp

lemma parse_zeros: "parse_digits 0 (replicate j (CHR ''0'')) = 0"
  by (induction j) (simp_all add: digit_val_def)

lemma frac_digits:
  assumes "0 < k"
  shows "length (frac_digits n k) = k" "c \<in> set (frac_digits n k) \<Longrightarrow> is_digit c"
    "parse_digits a (frac_digits n k) = a * 10 ^ k + n mod 10 ^ k"
    "last (frac_digits n k) = digit (n mod 10)"
proof -
  have len: "length (str_nat (n mod 10 ^ k)) \<le> k" by (rule length_str_nat) (use assms in auto)
  then show length: "length (frac_digits n k) = k" by (simp add: frac_digits_def)
  have "parse_digits 0 (frac_digits n k) = n mod 10 ^ k"
    by (simp add: frac_digits_def parse_digits_append parse_zeros)
  then show "parse_digits a (frac_digits n k) = a * 10 ^ k + n mod 10 ^ k"
    by (subst parse_digits_shift) (simp add: length)
  show "c \<in> set (frac_digits n k) \<Longrightarrow> is_digit c"
    by (auto simp: frac_digits_def is_digit_def dest: str_nat_digits)
  have "n mod 10 ^ k mod 10 = n mod 10" using assms by (cases k) (auto simp: mod_mod_cancel)
  then show "last (frac_digits n k) = digit (n mod 10)" by (simp add: frac_digits_def last_str_nat)
qed

lemma strip_zeros_id: "length s = 1 \<or> last s \<noteq> CHR ''0'' \<Longrightarrow> strip_zeros s = s"
proof (induction s rule: strip_zeros.induct)
  case (3 c d s)
  then have l: "last (d # s) \<noteq> CHR ''0''" by simp
  then have "\<not> list_all (\<lambda>x. x = CHR ''0'') (d # s)" using last_in_set[of "d # s"] by (auto simp: list_all_iff)
  then show ?case using 3(1) l by (simp only: strip_zeros.simps if_False simp_thms)
qed simp_all

lemma nat_abs_mod: "m mod 10 \<noteq> 0 \<Longrightarrow> nat \<bar>m\<bar> mod 10 \<noteq> 0"
  for m :: int
proof
  assume m: "m mod 10 \<noteq> 0" and "nat \<bar>m\<bar> mod 10 = 0"
  then have "10 dvd nat \<bar>m\<bar>" by (simp add: mod_eq_0_iff_dvd)
  then have "int 10 dvd int (nat \<bar>m\<bar>)" by (simp only: int_dvd_int_iff)
  then show False using m by (simp add: mod_eq_0_iff_dvd)
qed

lemma dec_string_frac:
  assumes "dec_ok m k"
  shows "dec_string m k = (if m < 0 then ''-'' else []) @ str_nat (nat \<bar>m\<bar> div 10 ^ k) @ CHR ''.'' # frac_digits (nat \<bar>m\<bar>) k"
proof -
  have k: "0 < k" using assms by (auto simp: dec_ok_def)
  have "length (frac_digits (nat \<bar>m\<bar>) k) = 1 \<or> last (frac_digits (nat \<bar>m\<bar>) k) \<noteq> CHR ''0''"
    using assms frac_digits(1,4)[OF k, where n = "nat \<bar>m\<bar>"] nat_abs_mod[of m] digit_zero[of "nat \<bar>m\<bar> mod 10"]
    by (auto simp: dec_ok_def)
  then show ?thesis
    using k by (simp add: dec_string_def Let_def strip_zeros_id frac_digits_def[symmetric])
qed

lemma dec_string_chars:
  "dec_ok m k \<Longrightarrow> c \<in> set (dec_string m k) \<Longrightarrow> is_digit c \<or> c = CHR ''-'' \<or> c = CHR ''.''"
  using frac_digits(2)[of k c "nat \<bar>m\<bar>"]
  by (auto simp: dec_string_frac dec_ok_def split: if_splits dest: str_nat_digits)

lemma json_number_dec:
  assumes "delimited rest" and "dec_ok m k"
  shows "json_number (dec_string m k @ rest) = Inr (JDec m k, rest)"
proof -
  define q F where "q = nat \<bar>m\<bar> div 10 ^ k" and "F = frac_digits (nat \<bar>m\<bar>) k"
  have k: "0 < k" using assms(2) by (auto simp: dec_ok_def)
  have F: "F \<noteq> []" "length F = k" "parse_digits q F = nat \<bar>m\<bar>"
    using frac_digits(1,3)[OF k, where n = "nat \<bar>m\<bar>"] k by (auto simp: F_def q_def div_mult_mod_eq)
  have ds: "digits_of (F @ rest) = (F, rest)"
    by (rule takeWhile_digits) (use frac_digits(2)[OF k] delimited_head[OF assms(1)] in \<open>auto simp: F_def\<close>)
  define t where "t = str_nat q @ CHR ''.'' # F @ rest"
  have hd: "hd (str_nat q) \<noteq> CHR ''-''"
    using str_nat_digits[of "hd (str_nat q)" q] is_digit_not_special(3) by auto
  have t: "t \<noteq> []" "hd t \<noteq> CHR ''-''" using hd by (simp_all add: t_def)
  have dt: "digits_of t = (str_nat q, CHR ''.'' # F @ rest)"
    unfolding t_def by (rule takeWhile_digits) (auto simp: is_digit_def dest: str_nat_digits)
  have whole: "(if str_nat q \<noteq> [] \<and> hd (str_nat q) = CHR ''0'' then [CHR ''0''] else str_nat q) = str_nat q"
      "(if str_nat q \<noteq> [] \<and> hd (str_nat q) = CHR ''0'' then tl (str_nat q) @ u else u) = u" for u
    using str_nat_head[of q] by auto
  have val: "parse_digits 0 (str_nat q @ F) = nat \<bar>m\<bar>" using F(3) by (simp add: parse_digits_append)
  have exp: "\<not> (rest \<noteq> [] \<and> hd rest \<in> set ''eE'')" using delimited_head[OF assms(1)] by auto
  have core: "json_number (sg @ t) = Inr (decimal (if sg = [] then \<bar>m\<bar> else - \<bar>m\<bar>) k, rest)"
    if "sg = [] \<or> sg = ''-''" for sg
  proof -
    have neg: "(sg @ t \<noteq> [] \<and> hd (sg @ t) = CHR ''-'') = (sg \<noteq> [])"
        "(if sg \<noteq> [] then tl (sg @ t) else sg @ t) = t"
      using that t by auto
    show ?thesis
      unfolding json_number_def Let_def neg dt fst_conv snd_conv whole
      using F(1,2) exp by (simp add: ds val)
  qed
  have "dec_string m k @ rest = (if m < 0 then ''-'' else []) @ t"
    by (simp add: dec_string_frac[OF assms(2)] t_def q_def F_def)
  then show ?thesis
    using core[of "[]"] core[of "''-''"] decimal_ok[OF assms(2)] by simp
qed

section \<open>Renderings\<close>

text \<open>
  The texts that render a value: the tokens in order, with any white space between
  them.  A list or object rendering holds everything behind its opening bracket.
\<close>

definition white :: "string \<Rightarrow> bool" where
  "white w \<longleftrightarrow> list_all is_ws w"

inductive renders :: "json \<Rightarrow> string \<Rightarrow> bool"
  and renders_items :: "json list \<Rightarrow> string \<Rightarrow> bool"
  and renders_members :: "(string \<times> json) list \<Rightarrow> string \<Rightarrow> bool" where
  r_null: "renders JNull ''null''"
| r_true: "renders (JBool True) ''true''"
| r_false: "renders (JBool False) ''false''"
| r_int: "renders (JInt i) (str_int i)"
| r_dec: "dec_ok m k \<Longrightarrow> renders (JDec m k) (dec_string m k)"
| r_str: "renders (JStr s) (quote s)"
| r_nil: "renders (JList []) ''[]''"
| r_list: "white w \<Longrightarrow> renders_items (x # xs) t \<Longrightarrow> renders (JList (x # xs)) (''['' @ w @ t)"
| r_empty: "renders (JObj []) ''{}''"
| r_obj: "white w \<Longrightarrow> renders_members (kv # kvs) t \<Longrightarrow> distinct (map fst (kv # kvs))
    \<Longrightarrow> renders (JObj (kv # kvs)) (''{'' @ w @ t)"
| r_last_item: "renders x s \<Longrightarrow> white w \<Longrightarrow> renders_items [x] (s @ w @ '']'')"
| r_item: "renders x s \<Longrightarrow> white w \<Longrightarrow> renders_items (y # ys) t
    \<Longrightarrow> renders_items (x # y # ys) (s @ '','' @ w @ t)"
| r_last_member: "renders x s \<Longrightarrow> white w \<Longrightarrow> renders_members [(k, x)] (quote k @ '': '' @ s @ w @ ''}'')"
| r_member: "renders x s \<Longrightarrow> white w \<Longrightarrow> renders_members (y # ys) t
    \<Longrightarrow> renders_members ((k, x) # y # ys) (quote k @ '': '' @ s @ '','' @ w @ t)"

definition value_start :: "string \<Rightarrow> bool" where
  "value_start s \<longleftrightarrow> s \<noteq> [] \<and> \<not> is_ws (hd s) \<and> hd s \<notin> set '']}''"

definition number_start :: "string \<Rightarrow> bool" where
  "number_start s \<longleftrightarrow> s \<noteq> [] \<and> (is_digit (hd s) \<or> hd s = CHR ''-'')"

lemma number_starts: "number_start (str_int i)" "dec_ok m k \<Longrightarrow> number_start (dec_string m k)"
proof -
  have n: "str_nat q \<noteq> []" "is_digit (hd (str_nat q))" for q
    using str_nat_digits[of "hd (str_nat q)" q] by simp_all
  show "number_start (str_int i)" using n by (simp add: number_start_def str_int_def)
  show "dec_ok m k \<Longrightarrow> number_start (dec_string m k)" using n by (simp add: number_start_def dec_string_frac)
qed

lemma number_start:
  assumes "number_start s"
  shows "value_start s" "hd s \<noteq> CHR 0x22" "hd s \<noteq> CHR ''[''" "hd s \<noteq> CHR ''{''"
    "hd s \<noteq> CHR ''n''" "hd s \<noteq> CHR ''t''" "hd s \<noteq> CHR ''f''"
  using assms by (auto simp: number_start_def value_start_def is_ws_def is_digit_def)

lemma skip_white: "white w \<Longrightarrow> skip_ws (w @ s) = skip_ws s"
  by (induction w) (auto simp: white_def skip_ws_def)

lemma skip_start: "value_start s \<Longrightarrow> skip_ws (s @ t) = s @ t"
  by (cases s) (auto simp: value_start_def skip_ws_def)

lemma value_start_append: "value_start s \<Longrightarrow> value_start (s @ t)"
  by (cases s) (auto simp: value_start_def)

lemma renders_start:
  "renders v s \<Longrightarrow> value_start s"
  "renders_items xs s \<Longrightarrow> value_start s"
  "renders_members ms s \<Longrightarrow> value_start s \<and> hd s = CHR 0x22"
  by (induction rule: renders_renders_items_renders_members.inducts)
    (auto simp: number_start(1)[OF number_starts(1)] number_start(1)[OF number_starts(2)] value_start_append quote_def, auto simp: value_start_def is_ws_def)

lemma delimited_white: "white w \<Longrightarrow> c \<in> set '',]}'' \<Longrightarrow> delimited (w @ c # s)"
  by (cases w) (auto simp: delimited_def white_def)

lemma delimited_cons: "c \<in> set '',]}'' \<Longrightarrow> delimited (c # s)"
  by (simp add: delimited_def)

lemma skip_close: "white w \<Longrightarrow> c \<in> set '',]}'' \<Longrightarrow> skip_ws (w @ c # s) = c # s"
  by (subst skip_white) (auto simp: skip_ws_def is_ws_def)

lemma json_string_quoted: "json_string (tl (quote s) @ t) = Inr (s, t)"
  using json_string_quote[of s t] by (simp add: quote_def)

lemma quote_cons: "quote s = CHR 0x22 # tl (quote s)"
  by (simp add: quote_def)

section \<open>Reading a rendering\<close>

lemma json_value_string:
  "json_value (Suc n) (quote s @ rest) = Inr (JStr s, rest)"
  using json_string_quoted[of s rest] by (subst quote_cons) (simp add: res_simps)

lemma json_value_number:
  assumes "number_start s" and "json_number (s @ rest) = Inr r"
  shows "json_value (Suc n) (s @ rest) = Inr r"
proof -
  obtain c u where "s = c # u"
    using assms(1) by (cases s) (auto simp: number_start_def)
  then show ?thesis
    using number_start[OF assms(1)] assms(2) by simp
qed

lemmas json_value_numbers =
  json_value_number[OF number_starts(1) json_number_int] json_value_number[OF number_starts(2) json_number_dec]

lemma json_value_open:
  "value_start t \<Longrightarrow> white w \<Longrightarrow> json_items n (t @ rest) = Inr (xs, rest)
    \<Longrightarrow> json_value (Suc n) ((''['' @ w @ t) @ rest) = Inr (JList xs, rest)"
  "value_start t \<Longrightarrow> white w \<Longrightarrow> json_members n (t @ rest) = Inr (ms, rest)
    \<Longrightarrow> json_value (Suc n) ((''{'' @ w @ t) @ rest) = Inr (JObj (dict_of ms), rest)"
  by (cases t; auto simp: skip_white skip_start[of "_ # _", simplified] value_start_def res_simps)+

lemma json_items_step:
  "json_value n (s @ w @ CHR '']'' # rest) = Inr (x, w @ CHR '']'' # rest) \<Longrightarrow> white w
    \<Longrightarrow> json_items (Suc n) ((s @ w @ '']'') @ rest) = Inr ([x], rest)"
  "json_value n (s @ CHR '','' # w @ t @ rest) = Inr (x, CHR '','' # w @ t @ rest) \<Longrightarrow> white w
    \<Longrightarrow> value_start t \<Longrightarrow> json_items n (t @ rest) = Inr (xs, rest)
    \<Longrightarrow> json_items (Suc n) ((s @ '','' @ w @ t) @ rest) = Inr (x # xs, rest)"
  using skip_close[of w "CHR '']''" rest] skip_close[of "[]" "CHR '',''" "w @ t @ rest"]
    skip_white[of w "t @ rest"] skip_start[of t rest]
  by (simp_all add: res_simps white_def)

lemma json_members_step:
  "json_value n (s @ w @ CHR ''}'' # rest) = Inr (x, w @ CHR ''}'' # rest) \<Longrightarrow> white w \<Longrightarrow> value_start s
    \<Longrightarrow> json_members (Suc n) ((quote k @ '': '' @ s @ w @ ''}'') @ rest) = Inr ([(k, x)], rest)"
  "json_value n (s @ CHR '','' # w @ t @ rest) = Inr (x, CHR '','' # w @ t @ rest) \<Longrightarrow> white w
    \<Longrightarrow> value_start s \<Longrightarrow> value_start t \<Longrightarrow> json_members n (t @ rest) = Inr (xs, rest)
    \<Longrightarrow> json_members (Suc n) ((quote k @ '': '' @ s @ '','' @ w @ t) @ rest) = Inr ((k, x) # xs, rest)"
proof -
  have sp: "skip_ws (CHR '' '' # u) = skip_ws u" and colon: "skip_ws (CHR '':'' # u) = CHR '':'' # u" for u
    by (simp_all add: skip_ws_def is_ws_def)
  have q: "json_string (tl (quote k) @ u) = Inr (k, u)" for u by (rule json_string_quoted)
  show "json_value n (s @ w @ CHR ''}'' # rest) = Inr (x, w @ CHR ''}'' # rest) \<Longrightarrow> white w \<Longrightarrow> value_start s
    \<Longrightarrow> json_members (Suc n) ((quote k @ '': '' @ s @ w @ ''}'') @ rest) = Inr ([(k, x)], rest)"
    using skip_close[of w "CHR ''}''" rest] skip_start[of s "w @ CHR ''}'' # rest"]
    by (subst quote_cons) (simp add: q sp colon res_simps)
  show "json_value n (s @ CHR '','' # w @ t @ rest) = Inr (x, CHR '','' # w @ t @ rest) \<Longrightarrow> white w
    \<Longrightarrow> value_start s \<Longrightarrow> value_start t \<Longrightarrow> json_members n (t @ rest) = Inr (xs, rest)
    \<Longrightarrow> json_members (Suc n) ((quote k @ '': '' @ s @ '','' @ w @ t) @ rest) = Inr ((k, x) # xs, rest)"
    using skip_close[of "[]" "CHR '',''" "w @ t @ rest"] skip_start[of s "CHR '','' # w @ t @ rest"]
      skip_white[of w "t @ rest"] skip_start[of t rest]
    by (subst quote_cons) (simp add: q sp colon res_simps white_def)
qed

lemma dict_fill_append: "distinct (map fst (d @ ps)) \<Longrightarrow> dict_fill d ps = d @ ps"
proof (induction d ps rule: dict_fill.induct)
  case (2 d k v ps)
  have "k \<notin> fst ` set d" using 2(2) by auto
  then have "dict_set k v d = d @ [(k, v)]" by (induction d) auto
  then show ?case using 2 by simp
qed simp

lemma dict_of_self: "distinct (map fst ps) \<Longrightarrow> dict_of ps = ps"
  by (simp add: dict_of_def dict_fill_append)

lemma json_value_atom:
  "json_value (Suc n) (''null'' @ rest) = Inr (JNull, rest)"
  "json_value (Suc n) (''true'' @ rest) = Inr (JBool True, rest)"
  "json_value (Suc n) (''false'' @ rest) = Inr (JBool False, rest)"
  "json_value (Suc n) (''[]'' @ rest) = Inr (JList [], rest)"
  "json_value (Suc n) (''{}'' @ rest) = Inr (JObj [], rest)"
  by (simp_all add: skip_ws_def is_ws_def)

lemma suc_fuel: "length s < n \<Longrightarrow> \<exists>m. n = Suc m"
  by (cases n) auto

text \<open>Any fuel above the length of the rendering is enough, whatever follows it.\<close>

lemma renders_read:
  "renders v s \<Longrightarrow> length s < n \<Longrightarrow> delimited rest \<Longrightarrow> json_value n (s @ rest) = Inr (v, rest)"
  "renders_items xs t \<Longrightarrow> length t < n \<Longrightarrow> json_items n (t @ rest) = Inr (xs, rest)"
  "renders_members ms t \<Longrightarrow> length t < n \<Longrightarrow> json_members n (t @ rest) = Inr (ms, rest)"
proof (induction arbitrary: n rest and n rest and n rest rule: renders_renders_items_renders_members.inducts)
  case (r_int i)
  then show ?case using suc_fuel[OF r_int(1)] json_value_numbers(1) by metis
next
  case (r_dec m k)
  then obtain j where j: "n = Suc j" using suc_fuel by blast
  show ?case unfolding j by (rule json_value_numbers(2)) (use r_dec in auto)
next
  case (r_str s)
  then show ?case using suc_fuel[OF r_str(1)] json_value_string by metis
next
  case (r_list w x xs t)
  then obtain m where m: "n = Suc m" "length t < m" by (cases n) auto
  show ?case unfolding m(1)
    by (rule json_value_open(1)) (use r_list m renders_start in auto)
next
  case (r_obj w kv kvs t)
  then obtain m where m: "n = Suc m" "length t < m" by (cases n) auto
  have "json_value (Suc m) ((''{'' @ w @ t) @ rest) = Inr (JObj (dict_of (kv # kvs)), rest)"
    by (rule json_value_open(2)) (use r_obj m renders_start in auto)
  then show ?case unfolding m(1) dict_of_self[OF r_obj(3)] .
next
  case (r_last_item x s w)
  then obtain m where m: "n = Suc m" "length s < m" by (cases n) auto
  show ?case unfolding m(1)
    by (rule json_items_step(1)) (use r_last_item m delimited_white in auto)
next
  case (r_item x s w y ys t)
  then obtain m where m: "n = Suc m" "length s < m" "length t < m" by (cases n) auto
  show ?case unfolding m(1)
    by (rule json_items_step(2)) (use r_item m delimited_cons renders_start in auto)
next
  case (r_last_member x s w k)
  then obtain m where m: "n = Suc m" "length s < m" by (cases n) auto
  show ?case unfolding m(1)
    by (rule json_members_step(1)) (use r_last_member m delimited_white renders_start in auto)
next
  case (r_member x s w y ys t k)
  then obtain m where m: "n = Suc m" "length s < m" "length t < m" by (cases n) auto
  show ?case unfolding m(1)
    by (rule json_members_step(2)) (use r_member m delimited_cons renders_start in auto)
next
  case r_null
  then show ?case using suc_fuel[OF r_null(1)] json_value_atom(1) by metis
next
  case r_true
  then show ?case using suc_fuel[OF r_true(1)] json_value_atom(2) by metis
next
  case r_false
  then show ?case using suc_fuel[OF r_false(1)] json_value_atom(3) by metis
next
  case r_nil
  then show ?case using suc_fuel[OF r_nil(1)] json_value_atom(4) by metis
next
  case r_empty
  then show ?case using suc_fuel[OF r_empty(1)] json_value_atom(5) by metis
qed

text \<open>A whole document: white space may surround the value.\<close>

lemma loads_rendering:
  assumes "renders v s" and "white w"
  shows "loads (s @ w) = Inr v"
proof -
  have "delimited w" using assms(2) by (cases w) (auto simp: white_def delimited_def)
  then have "json_value (Suc (length (s @ w))) (s @ w) = Inr (v, w)"
    by (intro renders_read(1)[OF assms(1)]) auto
  moreover have "skip_ws w = []" using skip_white[OF assms(2), of "[]"] by (simp add: skip_ws_def)
  ultimately show ?thesis
    using skip_start[OF renders_start(1)[OF assms(1)], of w] by (simp add: loads_def res_simps)
qed

section \<open>What the writers produce\<close>

text \<open>
  Values the reader gives back as they are: decimals in canonical form (of the spellings
  of an equal number the one that is written) and no object with a key twice, which a
  Python dict cannot have.
\<close>

fun json_ok :: "json \<Rightarrow> bool" where
  "json_ok (JDec m k) = dec_ok m k"
| "json_ok (JList xs) = list_all json_ok xs"
| "json_ok (JObj kvs) = (distinct (map fst kvs) \<and> list_all (\<lambda>(k, v). json_ok v) kvs)"
| "json_ok _ = True"

lemma renders_items_join:
  "\<lbrakk>xs \<noteq> []; \<And>x. x \<in> set xs \<Longrightarrow> renders x (f x); white w; white z\<rbrakk>
    \<Longrightarrow> renders_items xs (join ('','' @ w) (map f xs) @ z @ '']'')"
proof (induction xs rule: list_nonempty_induct)
  case (single x)
  from r_last_item[of x "f x" z] single show ?case by simp
next
  case (cons x xs)
  then obtain y ys where xs: "xs = y # ys" by (cases xs) auto
  show ?case using r_item[OF _ cons(4), of x "f x" y ys "join ('','' @ w) (map f xs) @ z @ '']''"] cons
    by (simp add: xs)
qed

lemma renders_members_join:
  "\<lbrakk>ms \<noteq> []; \<And>k x. (k, x) \<in> set ms \<Longrightarrow> renders x (f x); white w; white z\<rbrakk>
    \<Longrightarrow> renders_members ms (join ('','' @ w) (map (\<lambda>(k, v). quote k @ '': '' @ f v) ms) @ z @ ''}'')"
proof (induction ms rule: list_nonempty_induct)
  case (single m)
  obtain k x where m: "m = (k, x)" by (cases m)
  from r_last_member[of x "f x" z k] single show ?case by (simp add: m)
next
  case (cons m ms)
  obtain k x where m: "m = (k, x)" by (cases m)
  from cons obtain y ys where ms: "ms = y # ys" by (cases ms) auto
  have all: "renders x (f x)" "\<And>k x. (k, x) \<in> set ms \<Longrightarrow> renders x (f x)"
    using cons(3) by (auto simp: m)
  have rest: "renders_members (y # ys)
      (join ('','' @ w) (map (\<lambda>(k, v). quote k @ '': '' @ f v) ms) @ z @ ''}'')"
    using cons(2)[OF all(2) cons(4,5)] by (simp only: ms)
  show ?case
    using r_member[OF all(1) cons(4) rest, of k] by (simp add: ms m)
qed

lemma white_simps [simp]: "white []" "white '' ''" "white (newline_indent d)" "white [CHR 0x0A]"
  by (simp_all add: white_def newline_indent_def is_ws_def list_all_iff)

lemma renders_dumps: "json_ok v \<Longrightarrow> renders v (dumps v)"
proof (induction v)
  case (JList xs)
  show ?case
  proof (cases xs)
    case (Cons y ys)
    have "renders_items xs (join ('','' @ '' '') (map dumps xs) @ [] @ '']'')"
      by (rule renders_items_join) (use JList Cons in \<open>auto simp: list_all_iff\<close>)
    then show ?thesis using r_list[of "[]" y ys] Cons by simp
  qed (simp add: r_nil)
next
  case (JObj ms)
  show ?case
  proof (cases ms)
    case (Cons y ys)
    have "renders_members ms (join ('','' @ '' '') (map (\<lambda>(k, v). quote k @ '': '' @ dumps v) ms) @ [] @ ''}'')"
      by (rule renders_members_join) (use JObj Cons in \<open>auto simp: list_all_iff split_def, (metis fst_conv snd_conv)+\<close>)
    then show ?thesis using r_obj[of "[]" y ys] Cons JObj(2) by simp
  qed (simp add: r_empty)
qed (auto intro: renders_renders_items_renders_members.intros)

lemma renders_dumps_indent: "json_ok v \<Longrightarrow> renders v (dumps_indent d v)"
proof (induction d v rule: dumps_indent.induct)
  case (6 d xs)
  show ?case
  proof (cases xs)
    case (Cons y ys)
    have "renders_items xs (join ('','' @ newline_indent (Suc d)) (map (dumps_indent (Suc d)) xs)
        @ newline_indent d @ '']'')"
      by (rule renders_items_join) (use 6 Cons in \<open>auto simp: list_all_iff\<close>)
    then show ?thesis using r_list[of "newline_indent (Suc d)" y ys] Cons by simp
  qed (simp add: r_nil)
next
  case (7 d ms)
  show ?case
  proof (cases ms)
    case (Cons y ys)
    have "renders_members ms (join ('','' @ newline_indent (Suc d))
        (map (\<lambda>(k, v). quote k @ '': '' @ dumps_indent (Suc d) v) ms) @ newline_indent d @ ''}'')"
      by (rule renders_members_join) (use 7 Cons in \<open>auto simp: list_all_iff split_def, (metis fst_conv snd_conv)+\<close>)
    then show ?thesis using r_obj[of "newline_indent (Suc d)" y ys] Cons 7(2) by simp
  qed (simp add: r_empty)
qed (auto intro: renders_renders_items_renders_members.intros)

lemma loads_dumps_all: "json_ok v \<Longrightarrow> white w \<Longrightarrow> loads (dumps v @ w) = Inr v"
  by (intro loads_rendering renders_dumps)

lemma loads_dumps_indent_all: "json_ok v \<Longrightarrow> white w \<Longrightarrow> loads (dumps_indent d v @ w) = Inr v"
  by (intro loads_rendering renders_dumps_indent)

section \<open>What the reader returns\<close>

text \<open>
  Conversely the reader returns only such values: decimals are canonical, and of a key
  that occurs twice only the last value is kept.
\<close>

lemma json_number_ok:
  assumes "json_number s = Inr (v, r)"
  shows "json_ok v"
proof -
  have dec: "0 < k \<Longrightarrow> json_ok (decimal m k)" for m k by (simp add: decimal_def dec_norm_ok)
  have step: "(if a then Inl e else if b \<and> f \<noteq> [] then if c then Inl e else Inr (decimal m (length f), u)
      else if d then Inl e else Inr (JInt i, w)) = Inr (v, r) \<Longrightarrow> json_ok v"
    for a b c d m f u i w and e :: err
    using dec[of "length f"] by (auto split: if_splits)
  show ?thesis
    using assms unfolding json_number_def Let_def conj_assoc[symmetric] by (rule step)
qed

lemma dict_set_ok:
  "list_all (\<lambda>(k, v). P v) d \<Longrightarrow> P x \<Longrightarrow> list_all (\<lambda>(k, v). P v) (dict_set a x d)"
  by (induction d) auto

lemma dict_of_ok: "list_all (\<lambda>(k, v). P v) ps \<Longrightarrow> list_all (\<lambda>(k, v). P v) (dict_of ps)"
proof -
  have "list_all (\<lambda>(k, v). P v) d \<Longrightarrow> list_all (\<lambda>(k, v). P v) ps \<Longrightarrow> list_all (\<lambda>(k, v). P v) (dict_fill d ps)" for d
    by (induction d ps rule: dict_fill.induct) (auto simp: dict_set_ok)
  then show "list_all (\<lambda>(k, v). P v) ps \<Longrightarrow> list_all (\<lambda>(k, v). P v) (dict_of ps)" by (simp add: dict_of_def)
qed

lemma json_value_ok:
  "(\<forall>s v r. json_value n s = Inr (v, r) \<longrightarrow> json_ok v)
    \<and> (\<forall>s xs r. json_items n s = Inr (xs, r) \<longrightarrow> list_all json_ok xs)
    \<and> (\<forall>s ms r. json_members n s = Inr (ms, r) \<longrightarrow> list_all (\<lambda>(k, v). json_ok v) ms)"
proof (induction n)
  case (Suc n)
  have ih: "\<And>s v r. json_value n s = Inr (v, r) \<Longrightarrow> json_ok v"
      "\<And>s xs r. json_items n s = Inr (xs, r) \<Longrightarrow> list_all json_ok xs"
      "\<And>s ms r. json_members n s = Inr (ms, r) \<Longrightarrow> list_all (\<lambda>(k, v). json_ok v) ms"
    using Suc by blast+
  have "json_ok v" if "json_value (Suc n) s = Inr (v, r)" for s v r
  proof (cases s)
    case (Cons c t)
    note body = that[unfolded Cons json_value.simps list.case]
    consider "c = CHR 0x22" | "c = CHR ''[''" | "c = CHR ''{''" | "c \<noteq> CHR 0x22" "c \<noteq> CHR ''[''" "c \<noteq> CHR ''{''"
      by blast
    then show ?thesis
    proof cases
      case 1
      then show ?thesis using body by (auto simp: rbind_Inr_iff)
    next
      case 2
      then show ?thesis using body by (auto simp: rbind_Inr_iff split: list.splits if_splits dest: ih(2))
    next
      case 3
      then show ?thesis using body
        by (auto simp: rbind_Inr_iff dict_of_distinct dict_of_ok split: list.splits if_splits dest: ih(3))
    next
      case 4
      then have "prefix ''null'' s \<or> prefix ''true'' s \<or> prefix ''false'' s \<or> json_number s = Inr (v, r)"
        and "prefix ''null'' s \<Longrightarrow> v = JNull"
        and "\<not> prefix ''null'' s \<Longrightarrow> prefix ''true'' s \<Longrightarrow> v = JBool True"
        and "\<not> prefix ''null'' s \<Longrightarrow> \<not> prefix ''true'' s \<Longrightarrow> prefix ''false'' s \<Longrightarrow> v = JBool False"
        using body by (simp_all only: Cons if_False if_True sum.inject prod.inject simp_thms split: if_splits)
      then show ?thesis using json_number_ok[of s v r] by (metis json_ok.simps(4,5))
    qed
  qed (use that in simp)
  moreover have "list_all json_ok xs" if items: "json_items (Suc n) s = Inr (xs, r)" for s xs r
  proof -
    from items obtain x u where x: "json_value n s = Inr (x, u)" by (auto simp: rbind_Inr_iff)
    show ?thesis using items ih(1)[OF x]
      by (auto simp: x rbind_Inr_iff split: list.splits if_splits dest: ih(2))
  qed
  moreover have "list_all (\<lambda>(k, v). json_ok v) ms" if ms: "json_members (Suc n) s = Inr (ms, r)" for s ms r
  proof -
    from ms obtain q t where s: "s = q # t" by (cases s) auto
    from ms obtain k r1 where k: "json_string t = Inr (k, r1)" by (auto simp: s rbind_Inr_iff split: if_splits)
    from ms obtain c r2 where c: "skip_ws r1 = c # r2" by (cases "skip_ws r1") (auto simp: s k split: if_splits)
    from ms obtain x r3 where x: "json_value n (skip_ws r2) = Inr (x, r3)"
      by (auto simp: s k c rbind_Inr_iff split: if_splits)
    show ?thesis using ms ih(1)[OF x]
      by (auto simp: s k c x rbind_Inr_iff split: list.splits if_splits dest: ih(3))
  qed
  ultimately show ?case by blast
qed simp

lemma loads_ok: "loads s = Inr v \<Longrightarrow> json_ok v"
  unfolding loads_def rbind_Inr_iff using json_value_ok[of "Suc (length s)"]
  by (auto simp del: json_value.simps split: if_splits)

end
