(* ===== verification/Emit.thy ===== *)
theory Emit
  imports Json_Read Effects
begin

text \<open>
  \<open>runners/lib/emit.py\<close>: turn a runner's return codes and log files into the cell that
  \<open>CONTRACT.md\<close> asks for.  The file system is a map from paths to contents (what
  \<open>open\<close> cannot read is absent); the program's arguments are \<open>sys.argv[1:]\<close>.
\<close>

section \<open>One test\<close>

record test_cell =
  tc_status :: string
  tc_detail :: string

definition output_lines :: "string \<Rightarrow> string list" where
  "output_lines content = map strip (filter (\<lambda>l. strip l \<noteq> [])
     (splitlines (strip (universal_newlines content))))"

definition last_two :: "'a list \<Rightarrow> 'a list" where
  "last_two xs = drop (length xs - 2) xs"

definition cell :: "(string \<Rightarrow> string option) \<Rightarrow> string \<Rightarrow> string \<Rightarrow> test_cell res" where
  "cell fs rc arg =
     (if rc = ''skip'' then Inr \<lparr>tc_status = ''skip'', tc_detail = arg\<rparr>
      else (let out' = (case fs arg of None \<Rightarrow> [] | Some c \<Rightarrow> c); lines = output_lines out' in
        rbind (py_int rc) (\<lambda>n.
          let detail = (if n = 0 then (if lines = [] then '''' else last lines)
                        else join '' | '' (last_two lines)) in
          Inr \<lparr>tc_status = (if n = 0 then ''ok'' else ''fail''), tc_detail = take 400 detail\<rparr>)))"

section \<open>The cell\<close>

fun emit_tests :: "(string \<Rightarrow> string option) \<Rightarrow> string list \<Rightarrow> (string, test_cell) dict
    \<Rightarrow> (string, test_cell) dict res" where
  "emit_tests fs [] acc = Inr acc"
| "emit_tests fs (name # rc # arg # args) acc =
     rbind (cell fs rc arg) (\<lambda>c. emit_tests fs args (dict_set name c acc))"
| "emit_tests fs _ acc = Inl IndexError"

definition test_json :: "test_cell \<Rightarrow> json" where
  "test_json c = JObj [(''status'', JStr (tc_status c)), (''detail'', JStr (tc_detail c))]"

definition cell_json :: "string \<Rightarrow> string \<Rightarrow> (string, test_cell) dict \<Rightarrow> json" where
  "cell_json client version tests = JObj [(''client'', JStr client), (''client_version'', JStr version),
     (''tests'', JObj (map (\<lambda>(k, c). (k, test_json c)) tests))]"

text \<open>What \<open>main\<close> prints.\<close>

definition emit_main :: "(string \<Rightarrow> string option) \<Rightarrow> string list \<Rightarrow> string res" where
  "emit_main fs argv = (case argv of
     client # version # args \<Rightarrow>
       rbind (emit_tests fs args []) (\<lambda>tests. Inr (dumps (cell_json client version tests) @ [CHR 0x0A]))
   | _ \<Rightarrow> Inl IndexError)"

lemma cell_skip: "cell fs ''skip'' arg = Inr \<lparr>tc_status = ''skip'', tc_detail = arg\<rparr>"
  by (simp add: cell_def)

lemma cell_ran:
  assumes "rc \<noteq> ''skip''" and "cell fs rc arg = Inr c"
  shows "\<exists>n d. py_int rc = Inr n \<and> c = \<lparr>tc_status = (if n = 0 then ''ok'' else ''fail''), tc_detail = take 400 d\<rparr>"
  using assms unfolding cell_def Let_def by (cases "py_int rc") (simp, simp only: if_False rbind.simps sum.inject, blast)

lemma cell_status:
  "cell fs rc arg = Inr c \<Longrightarrow> tc_status c \<in> {''ok'', ''fail'', ''skip''}"
  using cell_skip[of fs arg] cell_ran[of rc fs arg c] by (cases "rc = ''skip''") auto

text \<open>The tests a successful run reports: the last triple of a name wins.\<close>

fun triples :: "'a list \<Rightarrow> ('a \<times> 'a \<times> 'a) list" where
  "triples (a # b # c # xs) = (a, b, c) # triples xs"
| "triples _ = []"

lemma emit_tests_iff:
  "emit_tests fs args acc = Inr tests \<longleftrightarrow> 3 dvd length args
     \<and> (\<exists>cs. traverse (\<lambda>(n, rc, arg). rbind (cell fs rc arg) (\<lambda>c. Inr (n, c))) (triples args) = Inr cs
          \<and> tests = dict_fill acc cs)"
proof (induction fs args acc rule: emit_tests.induct)
  case (2 fs name rc arg args acc)
  have dvd: "3 dvd length (name # rc # arg # args) \<longleftrightarrow> 3 dvd length args"
    using dvd_add_right_iff[of 3 3 "length args"] by (simp add: numeral_3_eq_3)
  show ?case
  proof (cases "cell fs rc arg")
    case (Inl e)
    then show ?thesis by simp
  next
    case (Inr c)
    have "(\<exists>cs. traverse g ((name, rc, arg) # triples args) = Inr cs \<and> tests = dict_fill acc cs) \<longleftrightarrow>
        (\<exists>cs. traverse g (triples args) = Inr cs \<and> tests = dict_fill (dict_set name c acc) cs)"
      if "g (name, rc, arg) = Inr (name, c)" for g :: "string \<times> string \<times> string \<Rightarrow> (string \<times> test_cell) res"
      using that by (cases "traverse g (triples args)") auto
    then show ?thesis unfolding dvd triples.simps emit_tests.simps Inr rbind.simps
      using 2[OF Inr] Inr by simp
  qed
qed (auto dest!: dvd_imp_le)

section \<open>The contract\<close>

lemma set_dict_set: "set (dict_set k v d) \<subseteq> insert (k, v) (set d)"
  by (induction d) auto

lemma emit_tests_all:
  assumes cells: "\<And>rc arg c. cell fs rc arg = Inr c \<Longrightarrow> P c"
  shows "emit_tests fs args acc = Inr tests \<Longrightarrow> \<forall>c\<in>snd ` set acc. P c \<Longrightarrow> \<forall>c\<in>snd ` set tests. P c"
  using cells
proof (induction fs args acc rule: emit_tests.induct)
  case (2 fs name rc arg args acc)
  from 2(2) obtain d where d: "cell fs rc arg = Inr d" "emit_tests fs args (dict_set name d acc) = Inr tests"
    by (auto simp: res_simps)
  have "\<forall>c\<in>snd ` set (dict_set name d acc). P c"
    using set_dict_set[of name d acc] 2(3) 2(4)[OF d(1)] by auto
  then show ?case by (rule 2(1)[OF d(1) d(2) _ 2(4)])
qed simp_all

lemma emit_tests_distinct:
  "emit_tests fs args acc = Inr tests \<Longrightarrow> distinct (map fst acc) \<Longrightarrow> distinct (map fst tests)"
  by (induction fs args acc rule: emit_tests.induct) (simp_all add: res_simps, metis distinct_update)

lemma cell_json_ok:
  "distinct (map fst tests) \<Longrightarrow> json_ok (cell_json client version tests)"
  by (auto simp: cell_json_def test_json_def list_all_iff comp_def split_def)

lemma hex_digit_printable: "d < 16 \<Longrightarrow> 32 \<le> (of_char (hex_digit d) :: nat) \<and> of_char (hex_digit d) < (127 :: nat)"
proof -
  assume "d < 16"
  then have "d \<in> {0,1,2,3,4,5,6,7,8,9,10,11,12,13,14,15}" by (simp only: insert_iff empty_iff) arith
  then show ?thesis by (auto simp: hex_digit_def)
qed

definition printable :: "char \<Rightarrow> bool" where
  "printable c \<longleftrightarrow> 32 \<le> (of_char c :: nat) \<and> (of_char c :: nat) < 127"

lemma escape_char_printable: "list_all printable (escape_char c)"
proof -
  have "(of_char c :: nat) div 16 < 16" using of_char_lt[of c] by (simp add: div_less_iff_less_mult)
  then show ?thesis
    using hex_digit_printable[of "of_char c div 16"] hex_digit_printable[of "of_char c mod 16"]
    by (auto simp: escape_char_def printable_def)
qed

lemma quote_printable: "list_all printable (quote s)"
  using escape_char_printable by (auto simp: quote_def printable_def list_all_iff)

lemma join_all: "list_all P (join sep xs)" if "list_all P sep" "\<And>x. x \<in> set xs \<Longrightarrow> list_all P x"
  using that by (induction sep xs rule: join.induct) auto

lemma str_int_printable: "list_all printable (str_int i)"
proof -
  have "printable c" if "is_digit c \<or> c = CHR ''-''" for c
    using that by (auto simp: printable_def is_digit_def)
  then show ?thesis using str_int_chars[of _ i] by (auto simp: list_all_iff)
qed

lemma dec_string_printable: "dec_ok m k \<Longrightarrow> list_all printable (dec_string m k)"
proof -
  have "printable c" if "is_digit c \<or> c = CHR ''-'' \<or> c = CHR ''.''" for c
    using that by (auto simp: printable_def is_digit_def)
  then show "dec_ok m k \<Longrightarrow> list_all printable (dec_string m k)"
    using dec_string_chars[of m k] by (auto simp: list_all_iff)
qed

lemma dumps_printable: "json_ok v \<Longrightarrow> list_all printable (dumps v)"
proof (induction v)
  case (JList xs)
  then have "list_all printable (join '', '' (map dumps xs))"
    by (intro join_all) (auto simp: printable_def list_all_iff)
  moreover have "printable (CHR ''['')" "printable (CHR '']'')" by (simp_all add: printable_def)
  ultimately show ?case by simp
next
  case (JObj kvs)
  have "list_all printable (quote k @ '': '' @ dumps x)" if "(k, x) \<in> set kvs" for k x
    using JObj that quote_printable by (force simp: printable_def list_all_iff)
  then have "list_all printable (join '', '' (map (\<lambda>(k, v). quote k @ '': '' @ dumps v) kvs))"
    by (intro join_all) (auto simp: printable_def list_all_iff)
  moreover have "printable (CHR ''{'')" "printable (CHR ''}'')" by (simp_all add: printable_def)
  ultimately show ?case by simp
qed (auto simp: quote_printable str_int_printable dec_string_printable, auto simp: printable_def)

text \<open>The indented form adds line feeds, no carriage returns.\<close>

lemma dumps_indent_chars: "json_ok v \<Longrightarrow> list_all (\<lambda>c. printable c \<or> c = CHR 0x0A) (dumps_indent d v)"
proof (induction d v rule: dumps_indent.induct)
  case (6 d xs)
  let ?P = "\<lambda>c. printable c \<or> c = CHR 0x0A"
  have p: "printable (CHR ''['')" "printable (CHR '']'')" "printable (CHR '','')" "printable (CHR '' '')"
    by (simp_all add: printable_def)
  then have nl: "list_all ?P (newline_indent e)" for e by (simp add: newline_indent_def list_all_iff)
  have "list_all ?P (join ('','' @ newline_indent (Suc d)) (map (dumps_indent (Suc d)) xs))" if "xs \<noteq> []"
    by (rule join_all) (use 6 p nl that in \<open>auto simp: list_all_iff\<close>)
  then show ?case using p nl by simp
next
  case (7 d kvs)
  let ?P = "\<lambda>c. printable c \<or> c = CHR 0x0A"
  have p: "printable (CHR ''{'')" "printable (CHR ''}'')" "printable (CHR '','')" "printable (CHR '' '')" "printable (CHR '':'')"
    by (simp_all add: printable_def)
  then have nl: "list_all ?P (newline_indent e)" for e by (simp add: newline_indent_def list_all_iff)
  have m: "list_all ?P (quote k @ '': '' @ dumps_indent (Suc d) x)" if "(k, x) \<in> set kvs" for k x
  proof -
    have "list_all ?P (dumps_indent (Suc d) x)"
      using 7(1)[OF _ that refl] 7(2) that by (cases kvs) (auto simp: list_all_iff)
    moreover have "list_all ?P (quote k)" using quote_printable[of k] by (auto simp: list_all_iff)
    ultimately show ?thesis using p by simp
  qed
  have "list_all ?P (join ('','' @ newline_indent (Suc d))
      (map (\<lambda>(k, v). quote k @ '': '' @ dumps_indent (Suc d) v) kvs))"
    by (rule join_all) (use m p nl in auto)
  then show ?case using p nl by simp
qed (use quote_printable str_int_printable dec_string_printable in \<open>auto simp: list_all_iff printable_def\<close>)

lemma read_back_indent:
  assumes "json_ok v"
  shows "loads (universal_newlines (dumps_indent d v @ [CHR 0x0A])) = Inr v"
proof -
  have "\<not> printable (CHR 0x0D)" by (simp add: printable_def)
  then have "CHR 0x0D \<notin> set (dumps_indent d v)"
    using dumps_indent_chars[OF assms, of d] unfolding list_all_iff by fastforce
  then have "universal_newlines (dumps_indent d v @ [CHR 0x0A]) = dumps_indent d v @ [CHR 0x0A]"
    by (intro universal_newlines_id) simp
  then show ?thesis using loads_dumps_indent_all[OF assms, of "[CHR 0x0A]" d] by simp
qed

section \<open>Reading a one-line log\<close>

text \<open>A line: not blank at either end and without line boundaries.\<close>

definition one_line :: "string \<Rightarrow> bool" where
  "one_line l \<longleftrightarrow> l \<noteq> [] \<and> \<not> is_space (hd l) \<and> \<not> is_space (last l) \<and> list_all (\<lambda>c. \<not> is_newline c) l"

lemma splitlines_aux_line:
  "list_all (\<lambda>c. \<not> is_newline c) l \<Longrightarrow> cur \<noteq> [] \<or> l \<noteq> [] \<Longrightarrow> splitlines_aux cur l = [rev cur @ l]"
proof (induction cur l rule: splitlines_aux.induct)
  case (3 cur c d s)
  moreover have "c \<noteq> CHR 0x0D" using 3(4) by (auto simp: is_newline_def)
  ultimately show ?case by auto
qed auto

lemma universal_newlines_line: "CHR 0x0D \<notin> set l \<Longrightarrow> universal_newlines (l @ [CHR 0x0A]) = l @ [CHR 0x0A]"
  by (rule universal_newlines_id) simp

lemma strip_line:
  assumes "one_line l"
  shows "strip (l @ [CHR 0x0A]) = l" and "strip l = l"
proof -
  have l: "l \<noteq> []" "\<not> is_space (hd l)" "\<not> is_space (last l)" using assms by (auto simp: one_line_def)
  show "strip l = l" by (rule strip_id) (use l in auto)
  have "dropWhile is_space (l @ [CHR 0x0A]) = l @ [CHR 0x0A]"
    using l by (cases l) auto
  moreover have "dropWhile is_space (rev l) = rev l"
    using l by (cases "rev l") (auto simp: last_rev[symmetric] hd_rev)
  moreover have "is_space (CHR 0x0A)" by (simp add: is_space_def)
  ultimately show "strip (l @ [CHR 0x0A]) = l" by (simp add: strip_def)
qed

lemma output_lines_line: "one_line l \<Longrightarrow> output_lines (l @ [CHR 0x0A]) = [l]"
proof -
  assume l: "one_line l"
  then have nl: "list_all (\<lambda>c. \<not> is_newline c) l" "l \<noteq> []" by (auto simp: one_line_def)
  have "\<not> is_newline c \<Longrightarrow> c \<noteq> CHR 0x0D" for c by (auto simp: is_newline_def)
  then have "CHR 0x0D \<notin> set l" using nl(1) unfolding list_all_iff by blast
  then show ?thesis
    using splitlines_aux_line[OF nl(1), of "[]"] nl(2)
    by (simp add: output_lines_def universal_newlines_line strip_line[OF l] splitlines_def)
qed

section \<open>Properties\<close>

text \<open>
  C23: the runner contract.  Whenever the emitter prints, the output is one line of
  printable ASCII that decodes to an object with the client, its version and the tests,
  every test has a status among ok, fail and skip, and the detail of a test that ran
  has at most 400 characters.
\<close>

theorem emit_contract:
  assumes "emit_main fs argv = Inr stdout"
  shows "\<exists>client version args tests. argv = client # version # args
    \<and> emit_tests fs args [] = Inr tests
    \<and> loads stdout = Inr (cell_json client version tests)
    \<and> list_all printable (butlast stdout) \<and> last stdout = CHR 0x0A
    \<and> (\<forall>c\<in>snd ` set tests. tc_status c \<in> {''ok'', ''fail'', ''skip''}
         \<and> (tc_status c \<noteq> ''skip'' \<longrightarrow> length (tc_detail c) \<le> 400))"
proof -
  from assms obtain client version args tests where t: "argv = client # version # args"
      "emit_tests fs args [] = Inr tests" "stdout = dumps (cell_json client version tests) @ [CHR 0x0A]"
    by (auto simp: emit_main_def res_simps split: list.splits)
  have ok: "json_ok (cell_json client version tests)"
    by (rule cell_json_ok) (use emit_tests_distinct[OF t(2)] in simp)
  have cells: "tc_status c \<in> {''ok'', ''fail'', ''skip''} \<and> (tc_status c \<noteq> ''skip'' \<longrightarrow> length (tc_detail c) \<le> 400)"
    if "cell fs rc arg = Inr c" for rc arg c
  proof (cases "rc = ''skip''")
    case False
    then show ?thesis using cell_ran[OF False that] by auto
  qed (use that cell_skip in auto)
  have "\<forall>c\<in>snd ` set tests. tc_status c \<in> {''ok'', ''fail'', ''skip''}
      \<and> (tc_status c \<noteq> ''skip'' \<longrightarrow> length (tc_detail c) \<le> 400)"
    by (rule emit_tests_all[OF _ t(2)]) (use cells in auto)
  then show ?thesis
    using t dumps_printable[OF ok] loads_dumps_all[OF ok, of "[CHR 0x0A]"] by simp
qed

lemma sample_emit:
  "emit_main (\<lambda>_. None) [''python'', ''3.13'', ''verify'', ''skip'', ''no API'', ''parse'', ''0'', ''log''] =
     Inr (dumps (cell_json ''python'' ''3.13'' [(''verify'', \<lparr>tc_status = ''skip'', tc_detail = ''no API''\<rparr>),
       (''parse'', \<lparr>tc_status = ''ok'', tc_detail = ''''\<rparr>)]) @ [CHR 0x0A])"
proof -
  have "output_lines [] = []" by (simp add: output_lines_def strip_def splitlines_def)
  moreover have "py_int ''0'' = Inr 0" using py_int_str[of 0] by (simp add: str_int_def str_nat.simps digit_def)
  ultimately show ?thesis by (simp add: emit_main_def cell_def Let_def)
qed

theorem emit_contract_witness:
  "\<exists>stdout. emit_main (\<lambda>_. None) [''python'', ''3.13'', ''verify'', ''skip'', ''no API'', ''parse'', ''0'', ''log''] = Inr stdout
     \<and> last stdout = CHR 0x0A \<and> list_all printable (butlast stdout)"
  using emit_contract[OF sample_emit] sample_emit by blast

text \<open>
  Exactly which command lines the emitter accepts: a client, a version and a multiple
  of three further arguments, each triple with a return code that is \<open>skip\<close> or an integer
  literal.  On every other command line it raises, and a missing log file never does.
\<close>

lemma emit_accepts:
  "(\<exists>stdout. emit_main fs argv = Inr stdout) \<longleftrightarrow> 2 \<le> length argv \<and> 3 dvd (length argv - 2)
     \<and> list_all (\<lambda>(name, rc, arg). rc = ''skip'' \<or> (\<exists>n. py_int rc = Inr n)) (triples (drop 2 argv))"
proof -
  have cell: "(\<exists>c. cell fs' rc arg = Inr c) \<longleftrightarrow> rc = ''skip'' \<or> (\<exists>n. py_int rc = Inr n)" for fs' rc arg
    by (cases "rc = ''skip''"; cases "py_int rc") (simp_all add: cell_def Let_def)
  have all: "(\<exists>cs. traverse (\<lambda>(n, rc, arg). rbind (cell fs rc arg) (\<lambda>c. Inr (n, c))) ts = Inr cs)
      \<longleftrightarrow> list_all (\<lambda>(name, rc, arg). rc = ''skip'' \<or> (\<exists>n. py_int rc = Inr n)) ts" for ts
  proof (induction ts)
    case (Cons t ts)
    obtain n rc arg where t: "t = (n, rc, arg)" by (cases t)
    show ?case
      using Cons cell[of fs rc arg] by (auto simp: t res_simps)
  qed simp
  show ?thesis
  proof (cases "\<exists>client version args. argv = client # version # args")
    case True
    then obtain client version args where a: "argv = client # version # args" by blast
    have "(\<exists>stdout. emit_main fs argv = Inr stdout) \<longleftrightarrow> (\<exists>tests. emit_tests fs args [] = Inr tests)"
      by (auto simp: a emit_main_def res_simps)
    then show ?thesis using all[of "triples args"] by (auto simp: a emit_tests_iff)
  next
    case False
    then have "length argv < 2" by (cases argv; cases "tl argv") auto
    then show ?thesis by (cases argv; cases "tl argv") (auto simp: emit_main_def)
  qed
qed

end
