(* ===== verification/Report.thy ===== *)
theory Report
  imports Py_Float Emit Tables
begin

text \<open>
  \<open>phase3/report.py\<close>: from the captured handshakes (the rows of \<open>transport.json\<close>) to
  the transport report.  Segment counts are ceilings of float quotients; theory
  \<open>Py_Float\<close> shows they are the exact integer ones.  A row's fields are read where the
  source reads them, so a missing or ill-typed field raises.
\<close>

definition iw :: int where
  "iw = 10"

definition mss :: "(string, int) dict" where
  "mss = [(''ethernet-1460'', 1460), (''tunnelled-1360'', 1360)]"

definition record_limit :: int where
  "record_limit = 16384"

section \<open>Rows\<close>

record trow =
  t_chain :: string
  t_flight :: int
  t_largest :: int
  t_server :: "(string \<times> json) list"
  t_client :: "(string \<times> json) list"

text \<open>\<open>r.get("mode") == "no-compression" and "error" not in r\<close>.\<close>

definition keep_row :: "(string \<times> json) list \<Rightarrow> bool" where
  "keep_row r \<longleftrightarrow> map_of r ''mode'' = Some (JStr ''no-compression'') \<and> map_of r ''error'' = None"

definition decode_row :: "json \<Rightarrow> trow res" where
  "decode_row j =
     rbind (int_field j ''server_flight_handshake_bytes'') (\<lambda>f.
     rbind (rbind (jget j ''server_messages'') as_obj) (\<lambda>s.
     rbind (rbind (jget j ''client_messages'') as_obj) (\<lambda>c.
     rbind (str_field j ''chain'') (\<lambda>n.
     rbind (int_field j ''largest_server_record'') (\<lambda>l.
     Inr \<lparr>t_chain = n, t_flight = f, t_largest = l, t_server = s, t_client = c\<rparr>)))))"

definition report_rows :: "json \<Rightarrow> trow list res" where
  "report_rows doc =
     rbind (as_list doc) (\<lambda>js.
     rbind (traverse as_obj js) (\<lambda>objs.
     rbind (traverse decode_row (map JObj (filter keep_row objs))) (\<lambda>rows.
     Inr (sort_key t_flight rows))))"

section \<open>The tables\<close>

text \<open>\<open>f"{d.get(k, 0):,}"\<close>.\<close>

definition get_commas :: "(string \<times> json) list \<Rightarrow> string \<Rightarrow> string res" where
  "get_commas d k = (case map_of d k of None \<Rightarrow> Inr (commas 0) | Some v \<Rightarrow> rbind (as_int v) (\<lambda>i. Inr (commas i)))"

definition measured_line :: "trow \<Rightarrow> string res" where
  "measured_line r =
     rbind (get_commas (t_client r) ''ClientHello'') (\<lambda>hello.
     rbind (get_commas (t_server r) ''Certificate'') (\<lambda>cert.
     rbind (get_commas (t_server r) ''CertificateVerify'') (\<lambda>cv.
     Inr (''| '' @ t_chain r @ '' | '' @ hello @ '' | '' @ cert @ '' | '' @ cv @ '' | ''
       @ commas (t_flight r) @ '' | '' @ commas (t_largest r) @ '' |''))))"

definition segments :: "int \<Rightarrow> int list" where
  "segments f = map (\<lambda>kv. ceil_div f (snd kv)) mss"

definition fits :: "int \<Rightarrow> string" where
  "fits f = (let segs = segments f in
     if list_all (\<lambda>s. s \<le> iw) segs then ''yes''
     else if list_all (\<lambda>s. s > iw) segs then ''no'' else ''borderline'')"

definition window_line :: "trow \<Rightarrow> string" where
  "window_line r = ''| '' @ t_chain r @ '' | '' @ commas (t_flight r) @ '' | ''
     @ join '' | '' (map str_int (segments (t_flight r))) @ '' | '' @ fits (t_flight r) @ '' |''"

definition fits_window :: "trow \<Rightarrow> bool" where
  "fits_window r \<longleftrightarrow> ceil_div (t_flight r) 1460 \<le> iw"

definition heaviest_fitting :: "trow list \<Rightarrow> trow res" where
  "heaviest_fitting rows = (let fitting = filter fits_window rows in
     if fitting = [] then Inl IndexError else Inr (last fitting))"

definition biggest_record :: "trow list \<Rightarrow> trow res" where
  "biggest_record rows = (case rows of [] \<Rightarrow> Inl (ValueError ''max() iterable argument is empty'')
     | r # rs \<Rightarrow> Inr (max_key t_largest r rs))"

definition heaviest_line :: "trow \<Rightarrow> string" where
  "heaviest_line r = ''At the standard 1460-byte MSS the window holds '' @ commas (iw * 1460) @ '' bytes. ''
     @ ''The heaviest chain that still fits is **'' @ t_chain r @ ''** at ''
     @ commas (t_flight r) @ '' bytes; everything above it ''
     @ ''pays an extra round trip on every full handshake.''"

definition dq :: string where
  "dq = [CHR 0x22]"

definition report_md :: "trow list \<Rightarrow> string list res" where
  "report_md rows =
     rbind (traverse measured_line rows) (\<lambda>ms.
     rbind (biggest_record rows) (\<lambda>big.
     rbind (heaviest_fitting rows) (\<lambda>heavy. Inr (
       [''# Transport: what a post-quantum handshake puts on the wire'',
        '''',
        ''Generated by `phase3/report.py` from `phase3/transport.json`; do not'',
        ''hand-edit. Captures come from `phase3/transport.py`, decrypted with a TLS'',
        ''key log so every handshake message can be attributed. Server and client are'',
        ''both OpenSSL 3.5.5. Raw captures in `phase3/evidence/<chain>/`.'',
        '''',
        ''## Measured: handshake message bytes'',
        '''',
        ''| Chain | ClientHello | Certificate | CertificateVerify | Server flight | Largest record |'',
        ''|---|---|---|---|---|---|'']
       @ ms @
       ['''',
        dq @ ''Server flight'' @ dq @ '' is every handshake message the server sends before the'',
        ''client'' @ [CHR 0x27] @ ''s Finished, so it excludes NewSessionTicket, which arrives after.'',
        '''',
        ''No chain fragments across TLS records. The largest record measured is'',
        commas (t_largest big) @ '' bytes ('' @ t_chain big @ '') against the'',
        commas record_limit @ ''-byte plaintext ceiling, leaving about'',
        commas (record_limit - t_largest big) @ '' bytes of headroom. A third'',
        ''certificate in the chain, or a wider SAN list, crosses it.'',
        '''',
        ''## Computed: does the server'' @ [CHR 0x27] @ ''s first flight fit the initial congestion window?'',
        '''',
        ''Segments are measured flight bytes divided by MSS, against an initial'',
        ''congestion window of '' @ str_int iw @ '' segments (RFC 6928). **Computed, not measured:**'',
        ''see the note in `report.py` about segmentation offload on this host.'',
        ''A flight that exceeds the window waits for the client to acknowledge the'',
        ''first burst before the rest can be sent, which costs an extra round trip'',
        ''before the handshake completes.'',
        '''',
        ''| Chain | Flight bytes | '' @ join '' | '' (map (\<lambda>kv. ''Segments @ '' @ str_int (snd kv)) mss) @ '' | Fits IW10 |'',
        ''|---|---|'' @ concat (replicate (length mss + 1) ''---|'')]
       @ map window_line rows @
       ['''',
        heaviest_line heavy,
        '''',
        ''## Reproduce'',
        '''',
        ''```'',
        ''python3 phase3/transport.py   # captures, needs dumpcap + the wireshark group'',
        ''python3 phase3/report.py      # regenerates this file from transport.json'',
        ''```'']))))"

definition report_summary :: "trow \<Rightarrow> string" where
  "report_summary r = ''  '' @ pad_right 10 (t_chain r) @ '' flight='' @ pad_left 6 (commas (t_flight r))
     @ '' segs@1460='' @ pad_left 3 (str_int (ceil_div (t_flight r) 1460)) @ '' ''
     @ (if ceil_div (t_flight r) 1460 \<le> iw then ''fits'' else ''EXCEEDS'') @ '' IW'' @ str_int iw"

definition report_main :: "('x world_scheme, unit) eff" where
  "report_main =
     ebind (read_file [''phase3'', ''transport.json'']) (\<lambda>txt.
     ebind (lift (rbind (loads (universal_newlines txt)) report_rows)) (\<lambda>rows.
     ebind (lift (report_md rows)) (\<lambda>md.
     eseq (write_file [''phase3'', ''TRANSPORT.md''] (join [CHR 0x0A] md @ [CHR 0x0A])) (
     eseq (print (''wrote phase3/TRANSPORT.md from '' @ str_nat (length rows) @ '' captures''))
       (foreach (\<lambda>r. print (report_summary r)) rows)))))"

section \<open>The tables read back\<close>

definition message_count :: "(string \<times> json) list \<Rightarrow> string \<Rightarrow> int" where
  "message_count d k = (case map_of d k of Some (JInt i) \<Rightarrow> i | _ \<Rightarrow> 0)"

definition row_shown :: "trow \<Rightarrow> string \<Rightarrow> bool" where
  "row_shown r l \<longleftrightarrow> (\<exists>cs. row_cells l = t_chain r # cs \<and> traverse read_number cs =
     Inr [message_count (t_client r) ''ClientHello'', message_count (t_server r) ''Certificate'',
       message_count (t_server r) ''CertificateVerify'', t_flight r, t_largest r])"

definition window_shown :: "trow \<Rightarrow> string \<Rightarrow> bool" where
  "window_shown r l \<longleftrightarrow> (\<exists>cs. row_cells l = t_chain r # cs @ [fits (t_flight r)]
     \<and> traverse read_number cs = Inr (t_flight r # segments (t_flight r)))"

lemma get_commas_count: "get_commas d k = Inr x \<Longrightarrow> x = commas (message_count d k)"
  by (auto simp: get_commas_def message_count_def rbind_Inr_iff split: option.splits json.splits)

lemma measured_line_shown:
  assumes "measured_line r = Inr l" and "plain_cell (t_chain r)"
  shows "row_shown r l"
proof -
  let ?cs = "map commas [message_count (t_client r) ''ClientHello'', message_count (t_server r) ''Certificate'',
      message_count (t_server r) ''CertificateVerify'', t_flight r, t_largest r]"
  have "l = table_line (t_chain r # ?cs)"
    using assms(1) by (auto simp: measured_line_def rbind_Inr_iff table_line_def dest!: get_commas_count)
  moreover have "row_cells (table_line (t_chain r # ?cs)) = t_chain r # ?cs"
    by (rule row_cells_table) (simp_all add: assms(2))
  ultimately show ?thesis unfolding row_shown_def by (intro exI[of _ ?cs]) (simp add: read_number_commas)
qed

lemma window_line_shown:
  assumes "plain_cell (t_chain r)"
  shows "window_shown r (window_line r)"
proof -
  let ?f = "t_flight r"
  let ?cs = "commas ?f # map str_int (segments ?f)"
  have "fits ?f \<in> {''yes'', ''no'', ''borderline''}" by (simp add: fits_def Let_def)
  then have fit: "plain_cell (fits ?f)" by (auto simp: plain_cell_def strip_def is_space_def)
  have "window_line r = table_line (t_chain r # ?cs @ [fits ?f])"
    by (simp add: window_line_def table_line_def segments_def mss_def)
  moreover have "row_cells (table_line (t_chain r # ?cs @ [fits ?f])) = t_chain r # ?cs @ [fits ?f]"
    by (rule row_cells_table) (simp_all add: assms fit list_all_iff)
  moreover have "traverse read_number (map str_int xs) = Inr xs" for xs
    by (induction xs) (simp_all add: read_number_str)
  ultimately show ?thesis unfolding window_shown_def by (intro exI[of _ ?cs]) (simp add: read_number_commas)
qed

lemma report_md_tables:
  assumes "report_md rows = Inr md" and "\<And>r. r \<in> set rows \<Longrightarrow> plain_cell (t_chain r)"
  shows "list_all2 row_shown rows (take (length rows) (drop 11 md))"
    and "list_all2 window_shown rows (take (length rows) (drop (32 + length rows) md))"
proof -
  have "\<exists>pre ms mid rest. md = pre @ ms @ mid @ map window_line rows @ rest
      \<and> traverse measured_line rows = Inr ms \<and> length pre = 11 \<and> length mid = 21"
    using assms(1) unfolding report_md_def rbind_Inr_iff sum.inject
    by (elim exE conjE) (intro exI conjI, rule sym, assumption, assumption, simp_all)
  then obtain pre ms mid rest where md: "md = pre @ ms @ mid @ map window_line rows @ rest"
    and ms: "traverse measured_line rows = Inr ms" and len: "length pre = 11" "length mid = 21" by blast
  have "length ms = length rows" using traverse_length[OF ms] by simp
  then have "take (length rows) (drop 11 md) = ms"
      "take (length rows) (drop (32 + length rows) md) = map window_line rows"
    by (simp_all add: md len)
  moreover have "list_all2 row_shown rows ms"
    using ms unfolding traverse_list_all2
    by (auto simp: list_all2_conv_all_nth intro!: measured_line_shown assms(2))
  ultimately show "list_all2 row_shown rows (take (length rows) (drop 11 md))"
    and "list_all2 window_shown rows (take (length rows) (drop (32 + length rows) md))"
    by (simp_all add: list_all2_conv_all_nth window_line_shown assms(2))
qed

section \<open>Windows\<close>

lemma segments_le_iff:
  assumes "0 \<le> f" and "f < 2 ^ 53"
  shows "ceil_div f 1460 \<le> iw \<longleftrightarrow> f \<le> 14600" and "ceil_div f 1360 \<le> iw \<longleftrightarrow> f \<le> 13600"
  using ceil_div_le_iff[OF assms, of 1460 iw] ceil_div_le_iff[OF assms, of 1360 iw] by (simp_all add: iw_def)

lemma fits_cases:
  assumes "0 \<le> f" and "f < 2 ^ 53"
  shows "fits f = (if f \<le> 13600 then ''yes'' else if f \<le> 14600 then ''borderline'' else ''no'')"
  using segments_le_iff[OF assms]
  by (auto simp: fits_def segments_def mss_def Let_def simp flip: linorder_not_le)

lemma fits_window_iff: "0 \<le> t_flight r \<Longrightarrow> t_flight r < 2 ^ 53 \<Longrightarrow> fits_window r \<longleftrightarrow> t_flight r \<le> 14600"
  by (simp add: fits_window_def segments_le_iff)

lemma last_sorted_ge:
  "sorted (map f xs) \<Longrightarrow> x \<in> set xs \<Longrightarrow> f x \<le> f (last xs)"
  by (induction xs) auto

lemma heaviest_fitting_max:
  assumes "sorted (map t_flight rows)" and "heaviest_fitting rows = Inr h"
  shows "h \<in> set rows \<and> fits_window h" and "r \<in> set rows \<Longrightarrow> fits_window r \<Longrightarrow> t_flight r \<le> t_flight h"
proof -
  let ?fit = "filter fits_window rows"
  have h: "?fit \<noteq> []" "h = last ?fit" using assms(2) by (auto simp: heaviest_fitting_def Let_def split: if_splits)
  have "h \<in> set ?fit" using h last_in_set by blast
  then show "h \<in> set rows \<and> fits_window h" by simp
  have "sorted (map t_flight ?fit)" using assms(1) by (rule sorted_filter)
  then show "r \<in> set rows \<Longrightarrow> fits_window r \<Longrightarrow> t_flight r \<le> t_flight h"
    using last_sorted_ge[of t_flight ?fit r] h(2) by simp
qed

lemma report_rows_sorted: "report_rows doc = Inr rows \<Longrightarrow> sorted (map t_flight rows)"
  by (auto simp: report_rows_def res_simps)

lemma report_rows_mem:
  assumes "report_rows doc = Inr rows" and "r \<in> set rows"
  obtains kvs where "decode_row (JObj kvs) = Inr r" "keep_row kvs"
proof -
  from assms(1) obtain objs rs where rs: "traverse decode_row (map JObj (filter keep_row objs)) = Inr rs"
      "rows = sort_key t_flight rs"
    by (auto simp: report_rows_def res_simps)
  then have "r \<in> set rs" using assms(2) by simp
  then obtain j where "j \<in> set (map JObj (filter keep_row objs))" "decode_row j = Inr r"
    using traverse_set[OF rs(1)] by blast
  then show thesis using that by auto
qed

section \<open>Properties\<close>

text \<open>
  C16: the window verdict is right although it is computed with floats.  For any flight
  below 2^53 bytes the segment counts are the exact integer ceilings, and the verdict is
  yes up to 13,600 bytes, borderline up to 14,600 and no above.
\<close>

theorem window_verdict:
  assumes "0 \<le> f" and "f < 2 ^ 53"
  shows "segments f = [(f + 1459) div 1460, (f + 1359) div 1360]
    \<and> fits f = (if f \<le> 13600 then ''yes'' else if f \<le> 14600 then ''borderline'' else ''no'')"
  using ceil_div_exact[OF assms, of 1460] ceil_div_exact[OF assms, of 1360] fits_cases[OF assms]
  by (simp add: segments_def mss_def add.commute)

theorem window_verdict_witness: "fits 12491 = ''yes'' \<and> fits 14000 = ''borderline'' \<and> segments 15739 = [11, 12]"
  using window_verdict[of 12491] window_verdict[of 14000] window_verdict[of 15739] by simp

lemma report_md_errors:
  assumes "traverse measured_line rows = Inr ms"
  shows "rows = [] \<Longrightarrow> report_md rows = Inl (ValueError ''max() iterable argument is empty'')"
    and "rows \<noteq> [] \<Longrightarrow> filter fits_window rows = [] \<Longrightarrow> report_md rows = Inl IndexError"
  using assms by (simp_all only: report_md_def rbind.simps)
    (simp_all add: biggest_record_def heaviest_fitting_def split: list.splits)

lemma report_md_heaviest:
  assumes "traverse measured_line rows = Inr ms" and "rows \<noteq> []" and "heaviest_fitting rows = Inr h"
  shows "\<exists>md. report_md rows = Inr md \<and> heaviest_line h \<in> set md"
proof -
  obtain big where "biggest_record rows = Inr big" using assms(2) by (cases rows) (simp_all add: biggest_record_def)
  then show ?thesis unfolding report_md_def assms(1,3) rbind.simps
    by (simp only: rbind.simps sum.inject ex_simps simp_thms set_append list.set Un_iff insert_iff)
qed

lemma prints_files: "files (snd (foreach (\<lambda>r. print (g r)) rs s)) = files s \<and> fst (foreach (\<lambda>r. print (g r)) rs s) = Inr ()"
  by (induction rs arbitrary: s) (simp_all add: eff_simps print_def)

lemma report_main_md:
  assumes "files s [''phase3'', ''transport.json''] = Some txt"
    and "rbind (loads (universal_newlines txt)) report_rows = Inr rows"
    and "[''phase3'', ''TRANSPORT.md''] \<notin> dirs s" and "[''phase3''] \<in> dirs s"
  shows "fst (report_main s) = rbind (report_md rows) (\<lambda>_. Inr ())"
    and "files (snd (report_main s)) = (case report_md rows of Inl _ \<Rightarrow> files s
       | Inr md \<Rightarrow> (files s)([''phase3'', ''TRANSPORT.md''] \<mapsto> join [CHR 0x0A] md @ [CHR 0x0A]))"
  using assms by (cases "report_md rows"; simp add: report_main_def ebind_def eseq_def read_file_def write_file_def
    lift_def print_def prints_files)+

text \<open>
  C33: the chain the report names as the heaviest that still fits.  When \<open>transport.json\<close>
  decodes to rows whose measured lines render, and \<open>TRANSPORT.md\<close> can be written: with no
  row the script raises ValueError, because \<open>max\<close> of the empty list comes first; with rows
  none of which fits the window it raises IndexError; in both cases no file is changed.
  Otherwise it ends normally and the report it wrote has the sentence that names a
  measured chain with its flight, which fits the window, and no fitting chain is heavier.
\<close>

theorem heaviest_named:
  assumes "files s [''phase3'', ''transport.json''] = Some txt"
    and "rbind (loads (universal_newlines txt)) report_rows = Inr rows"
    and "traverse measured_line rows = Inr ms"
    and "[''phase3'', ''TRANSPORT.md''] \<notin> dirs s" and "[''phase3''] \<in> dirs s"
  shows "if rows = [] then fst (report_main s) = Inl (ValueError ''max() iterable argument is empty'')
        \<and> files (snd (report_main s)) = files s
    else if filter fits_window rows = [] then fst (report_main s) = Inl IndexError
        \<and> files (snd (report_main s)) = files s
    else \<exists>h md. h \<in> set rows \<and> fits_window h \<and> filter (\<lambda>r. fits_window r \<and> t_flight h < t_flight r) rows = []
        \<and> fst (report_main s) = Inr ()
        \<and> files (snd (report_main s)) [''phase3'', ''TRANSPORT.md''] = Some (join [CHR 0x0A] md @ [CHR 0x0A])
        \<and> heaviest_line h \<in> set md"
proof -
  note main = report_main_md[OF assms(1,2,4,5)]
  have sorted: "sorted (map t_flight rows)"
    using assms(2) by (auto simp: rbind_Inr_iff intro: report_rows_sorted)
  show ?thesis
  proof (cases "rows = [] \<or> filter fits_window rows = []")
    case True
    then show ?thesis using report_md_errors[OF assms(3)] main by (cases "rows = []") simp_all
  next
    case False
    then obtain h where h: "heaviest_fitting rows = Inr h" by (simp add: heaviest_fitting_def Let_def)
    have "\<not> (fits_window r \<and> t_flight h < t_flight r)" if "r \<in> set rows" for r
      using heaviest_fitting_max(2)[OF sorted h that] by auto
    moreover obtain md where "report_md rows = Inr md" "heaviest_line h \<in> set md"
      using report_md_heaviest[OF assms(3) _ h] False by blast
    ultimately show ?thesis using heaviest_fitting_max(1)[OF sorted h] False main
      by (auto simp: filter_empty_conv intro!: exI[of _ h] exI[of _ md])
  qed
qed

definition sample_row :: "string \<Rightarrow> int \<Rightarrow> string \<Rightarrow> json" where
  "sample_row chain flight mode = JObj [(''server_messages'', JObj [(''Certificate'', JInt 900)]),
     (''client_messages'', JObj []), (''server_flight_handshake_bytes'', JInt flight),
     (''largest_server_record'', JInt 1000), (''chain'', JStr chain), (''mode'', JStr mode)]"

lemma sample_report_rows:
  "report_rows (JList [sample_row ''mldsa65'' 15739 ''no-compression'', sample_row ''ecdsa'' 2244 ''compression'',
     sample_row ''ecdsa'' 2244 ''no-compression'']) =
   Inr [\<lparr>t_chain = ''ecdsa'', t_flight = 2244, t_largest = 1000, t_server = [(''Certificate'', JInt 900)], t_client = []\<rparr>,
     \<lparr>t_chain = ''mldsa65'', t_flight = 15739, t_largest = 1000, t_server = [(''Certificate'', JInt 900)], t_client = []\<rparr>]"
  by (simp add: report_rows_def sample_row_def keep_row_def decode_row_def int_field_def str_field_def getitem_def)

definition sample_report :: "json list \<Rightarrow> world" where
  "sample_report js = \<lparr>files = (\<lambda>p. if p = [''phase3'', ''transport.json''] then Some (dumps (JList js)) else None),
     dirs = {[], [''phase3'']}, out = []\<rparr>"

lemma sample_report_read:
  assumes "list_all json_ok js"
  shows "files (sample_report js) [''phase3'', ''transport.json''] = Some (dumps (JList js))"
    and "rbind (loads (universal_newlines (dumps (JList js)))) report_rows = report_rows (JList js)"
    and "[''phase3'', ''TRANSPORT.md''] \<notin> dirs (sample_report js)" and "[''phase3''] \<in> dirs (sample_report js)"
proof -
  have "universal_newlines (dumps (JList js)) = dumps (JList js)"
    by (rule universal_newlines_id) (use dumps_printable[of "JList js"] assms in \<open>auto simp: printable_def list_all_iff\<close>)
  then show "rbind (loads (universal_newlines (dumps (JList js)))) report_rows = report_rows (JList js)"
    using loads_dumps_all[of "JList js" "[]"] assms by (simp add: white_def)
qed (simp_all add: sample_report_def)

theorem heaviest_named_witness:
  "(\<exists>h md. fst (report_main (sample_report [sample_row ''mldsa65'' 15739 ''no-compression'',
       sample_row ''ecdsa'' 2244 ''compression'', sample_row ''ecdsa'' 2244 ''no-compression''])) = Inr ()
     \<and> files (snd (report_main (sample_report [sample_row ''mldsa65'' 15739 ''no-compression'',
       sample_row ''ecdsa'' 2244 ''compression'', sample_row ''ecdsa'' 2244 ''no-compression''])))
         [''phase3'', ''TRANSPORT.md''] = Some (join [CHR 0x0A] md @ [CHR 0x0A])
     \<and> heaviest_line h \<in> set md \<and> t_chain h = ''ecdsa'')
   \<and> (\<exists>m. fst (report_main (sample_report [])) = Inl (ValueError m))"
proof
  let ?js = "[sample_row ''mldsa65'' 15739 ''no-compression'', sample_row ''ecdsa'' 2244 ''compression'',
     sample_row ''ecdsa'' 2244 ''no-compression'']"
  let ?r = "\<lambda>n f. \<lparr>t_chain = n, t_flight = f, t_largest = 1000, t_server = [(''Certificate'', JInt 900)], t_client = []\<rparr>"
  have ok: "list_all json_ok ?js" by (simp add: sample_row_def)
  have read: "rbind (loads (universal_newlines (dumps (JList ?js)))) report_rows = Inr [?r ''ecdsa'' 2244, ?r ''mldsa65'' 15739]"
    unfolding sample_report_read(2)[OF ok] by (rule sample_report_rows)
  have fit: "fits_window (?r ''ecdsa'' 2244)" "\<not> fits_window (?r ''mldsa65'' 15739)"
    by (simp_all add: fits_window_iff)
  obtain ms where ms: "traverse measured_line [?r ''ecdsa'' 2244, ?r ''mldsa65'' 15739] = Inr ms"
    by (simp add: measured_line_def get_commas_def)
  note named = heaviest_named[OF sample_report_read(1)[OF ok] read ms sample_report_read(3,4)[OF ok]]
  have some: "\<not> [?r ''ecdsa'' 2244, ?r ''mldsa65'' 15739] = []"
      "\<not> filter fits_window [?r ''ecdsa'' 2244, ?r ''mldsa65'' 15739] = []"
    using fit by simp_all
  have "\<exists>h md. h \<in> set [?r ''ecdsa'' 2244, ?r ''mldsa65'' 15739] \<and> fits_window h \<and> fst (report_main (sample_report ?js)) = Inr ()
     \<and> files (snd (report_main (sample_report ?js))) [''phase3'', ''TRANSPORT.md''] = Some (join [CHR 0x0A] md @ [CHR 0x0A])
     \<and> heaviest_line h \<in> set md"
    using named[unfolded if_not_P[OF some(1)] if_not_P[OF some(2)]] by blast
  moreover have "t_chain h = ''ecdsa''"
    if "h \<in> set [?r ''ecdsa'' 2244, ?r ''mldsa65'' 15739]" "fits_window h" for h
    using that fit(2) by auto
  ultimately show "\<exists>h md. fst (report_main (sample_report ?js)) = Inr ()
     \<and> files (snd (report_main (sample_report ?js))) [''phase3'', ''TRANSPORT.md''] = Some (join [CHR 0x0A] md @ [CHR 0x0A])
     \<and> heaviest_line h \<in> set md \<and> t_chain h = ''ecdsa''"
    by blast
  have none: "list_all json_ok []" by simp
  have "rbind (loads (universal_newlines (dumps (JList [])))) report_rows = Inr []"
    using sample_report_read(2)[OF none] by (simp add: report_rows_def)
  then show "\<exists>m. fst (report_main (sample_report [])) = Inl (ValueError m)"
    using heaviest_named[OF sample_report_read(1)[OF none] _ _ sample_report_read(3,4)[OF none], of "[]" "[]"] by simp
qed

lemma biggest_record_max:
  "biggest_record rows = Inr big \<Longrightarrow> big \<in> set rows \<and> (\<forall>r\<in>set rows. t_largest r \<le> t_largest big)"
proof (cases rows)
  case (Cons r rs)
  assume "biggest_record rows = Inr big"
  then have "big = max_key t_largest r rs" by (simp add: biggest_record_def Cons)
  then show ?thesis using max_key_mem[of t_largest r rs] max_key_ge[of _ r rs t_largest] unfolding Cons by blast
qed (simp add: biggest_record_def)

lemma report_md_lines:
  assumes "report_md rows = Inr md"
  obtains big where "biggest_record rows = Inr big"
    "''No chain fragments across TLS records. The largest record measured is'' \<in> set md"
    "commas (t_largest big) @ '' bytes ('' @ t_chain big @ '') against the'' \<in> set md"
    "commas (record_limit - t_largest big) @ '' bytes of headroom. A third'' \<in> set md"
proof -
  obtain ms where ms: "traverse measured_line rows = Inr ms"
    using assms by (auto simp only: report_md_def rbind_Inr_iff)
  obtain big where big: "biggest_record rows = Inr big"
    using assms by (auto simp only: report_md_def rbind_Inr_iff)
  obtain heavy where heavy: "heaviest_fitting rows = Inr heavy"
    using assms by (auto simp only: report_md_def rbind_Inr_iff)
  show thesis
    by (rule that[OF big]; insert assms; simp only: report_md_def ms big heavy rbind.simps sum.inject; erule subst;
        simp only: set_append list.set Un_iff insert_iff simp_thms)
qed

text \<open>
  The report says that no chain fragments whatever was measured.  When a captured
  record is over the 16,384 bytes of plaintext that the report itself names as the
  ceiling, the text still says so, names a largest record over the ceiling, and gives a
  negative headroom.
\<close>

lemma fragmentation_text_unconditional:
  assumes "report_md rows = Inr md" and "r \<in> set rows" and "record_limit < t_largest r"
  shows "''No chain fragments across TLS records. The largest record measured is'' \<in> set md
    \<and> (\<exists>big. big \<in> set rows \<and> record_limit < t_largest big \<and> record_limit - t_largest big < 0
         \<and> commas (t_largest big) @ '' bytes ('' @ t_chain big @ '') against the'' \<in> set md
         \<and> commas (record_limit - t_largest big) @ '' bytes of headroom. A third'' \<in> set md)"
proof -
  from assms(1) obtain big where parts: "biggest_record rows = Inr big"
      "''No chain fragments across TLS records. The largest record measured is'' \<in> set md"
      "commas (t_largest big) @ '' bytes ('' @ t_chain big @ '') against the'' \<in> set md"
      "commas (record_limit - t_largest big) @ '' bytes of headroom. A third'' \<in> set md"
    by (rule report_md_lines)
  have "big \<in> set rows" "t_largest r \<le> t_largest big"
    using biggest_record_max[OF parts(1)] assms(2) by auto
  then show ?thesis using parts assms(3) by (intro conjI exI[of _ big]) auto
qed

end
