(* ===== verification/Redact_Json.thy ===== *)
theory Redact_Json
  imports Emit Redact
begin

text \<open>
  Redacting the text of a JSON document, as the harness does with a runner's output
  before it parses it, is redacting the strings inside: for a path whose characters JSON
  writes unescaped, replacement commutes with \<open>json.dumps\<close>, because an occurrence of
  the path cannot reach over a quote or an escape sequence.
\<close>

definition plain :: "char \<Rightarrow> bool" where
  "plain c \<longleftrightarrow> printable c \<and> c \<noteq> CHR 0x22 \<and> c \<noteq> CHR 0x5C"

definition plain_path :: "string \<Rightarrow> bool" where
  "plain_path r \<longleftrightarrow> absolute r \<and> list_all plain r"

lemma escape_plain: "plain c \<Longrightarrow> escape_char c = [c]"
  by (auto simp: plain_def printable_def escape_char_def)

lemma escape_plain_text: "list_all plain s \<Longrightarrow> concat (map escape_char s) = s"
  by (induction s) (auto simp: escape_plain)

lemma escape_not_plain: "\<not> plain c \<Longrightarrow> \<exists>t. escape_char c = CHR 0x5C # t"
  by (auto simp: plain_def printable_def escape_char_def)

lemma slash_not_escape: "\<not> plain c \<Longrightarrow> CHR ''/'' \<notin> set (escape_char c)"
proof -
  have hex: "hex_digit d \<noteq> CHR ''/''" if "d < 16" for d
  proof -
    have "d \<in> {0,1,2,3,4,5,6,7,8,9,10,11,12,13,14,15}" using that by (simp only: insert_iff empty_iff) arith
    then show ?thesis by (auto simp: hex_digit_def)
  qed
  have "(of_char c :: nat) div 16 < 16" using of_char_lt[of c] by (simp add: div_less_iff_less_mult)
  moreover assume "\<not> plain c"
  moreover have "plain (CHR ''/'')" by (simp add: plain_def printable_def)
  ultimately show ?thesis
    using hex[of "of_char c div 16"] hex[of "of_char c mod 16"] by (auto simp: escape_char_def)
qed

abbreviation escaped :: "string \<Rightarrow> string" where
  "escaped s \<equiv> concat (map escape_char s)"

lemma prefix_escaped: "list_all plain q \<Longrightarrow> prefix q (escaped s) \<longleftrightarrow> prefix q s"
proof (induction s arbitrary: q)
  case (Cons c s)
  show ?case
  proof (cases q)
    case (Cons a q')
    have pq: "plain a" "list_all plain q'" using Cons.prems Cons by auto
    show ?thesis
    proof (cases "plain c")
      case True
      then show ?thesis using Cons.IH[OF pq(2)] Cons by (simp add: escape_plain)
    next
      case False
      then obtain t where "escape_char c = CHR 0x5C # t" using escape_not_plain by blast
      moreover have "a \<noteq> CHR 0x5C" "a \<noteq> c" using pq(1) False by (auto simp: plain_def)
      ultimately show ?thesis using Cons by simp
    qed
  qed simp
qed simp

lemma drop_escaped: "prefix q s \<Longrightarrow> list_all plain q \<Longrightarrow> drop (length q) (escaped s) = escaped (drop (length q) s)"
  by (auto simp: prefix_def escape_plain_text)

lemma replace_ne_skip: "p \<notin> set a \<Longrightarrow> replace_ne p ps new (a @ b) = a @ replace_ne p ps new b"
  by (induction a) auto

lemma replace_ne_stop:
  "x \<noteq> p \<Longrightarrow> x \<notin> set ps \<Longrightarrow> replace_ne p ps new (a @ x # b) = replace_ne p ps new a @ x # replace_ne p ps new b"
proof (induction p ps new a rule: replace_ne.induct)
  case (2 p ps new c cs)
  have "prefix (p # ps) (c # cs @ x # b) \<longleftrightarrow> prefix (p # ps) (c # cs)"
    using 2(4) by (auto simp: prefix_append prefix_def append_eq_append_conv2 Cons_eq_append_conv append_eq_Cons_conv)
  moreover have "drop (length ps) (cs @ x # b) = drop (length ps) cs @ x # b" if "prefix (p # ps) (c # cs)"
    using that by (auto simp: prefix_def)
  ultimately show ?case using 2 by auto
qed simp

lemma replace_ne_escaped:
  assumes "list_all plain (CHR ''/'' # ps)" and "list_all plain new"
  shows "replace_ne (CHR ''/'') ps new (escaped s) = escaped (replace_ne (CHR ''/'') ps new s)"
proof (induction s rule: length_induct)
  case (1 s)
  show ?case
  proof (cases s)
    case (Cons c cs)
    have pre: "prefix (CHR ''/'' # ps) (escaped s) \<longleftrightarrow> prefix (CHR ''/'' # ps) s"
      using prefix_escaped[OF assms(1)] .
    show ?thesis
    proof (cases "prefix (CHR ''/'' # ps) s")
      case True
      then have c: "c = CHR ''/''" "prefix ps cs" by (auto simp: Cons)
      then have e: "escaped s = CHR ''/'' # escaped cs"
        using escape_plain[of c] assms(1) by (simp add: Cons)
      have "replace_ne (CHR ''/'') ps new (escaped s)
          = new @ replace_ne (CHR ''/'') ps new (escaped (drop (length ps) cs))"
        using True pre drop_escaped[OF c(2)] assms(1) unfolding e by simp
      also have "\<dots> = new @ escaped (replace_ne (CHR ''/'') ps new (drop (length ps) cs))"
        using 1 by (simp add: Cons)
      also have "\<dots> = escaped (replace_ne (CHR ''/'') ps new s)"
        using True escape_plain_text[OF assms(2)] by (simp add: Cons)
      finally show ?thesis .
    next
      case False
      have ih: "replace_ne (CHR ''/'') ps new (escaped cs) = escaped (replace_ne (CHR ''/'') ps new cs)"
        using 1 by (simp add: Cons)
      have "replace_ne (CHR ''/'') ps new (escaped s) = escape_char c @ replace_ne (CHR ''/'') ps new (escaped cs)"
      proof (cases "plain c")
        case True
        then show ?thesis using pre False by (auto simp: Cons escape_plain)
      next
        case np: False
        then show ?thesis using replace_ne_skip[OF slash_not_escape[OF np]] by (simp add: Cons)
      qed
      moreover have "replace_ne (CHR ''/'') ps new s = c # replace_ne (CHR ''/'') ps new cs"
        using False by (auto simp: Cons)
      ultimately show ?thesis using ih by simp
    qed
  qed simp
qed

section \<open>Documents\<close>

fun map_strings :: "(string \<Rightarrow> string) \<Rightarrow> json \<Rightarrow> json" where
  "map_strings f (JStr s) = JStr (f s)"
| "map_strings f (JList xs) = JList (map (map_strings f) xs)"
| "map_strings f (JObj kvs) = JObj (map (\<lambda>(k, v). (f k, map_strings f v)) kvs)"
| "map_strings f v = v"

lemma mark_plain: "list_all plain repo_mark"
  by (simp add: repo_mark_def plain_def printable_def)

lemma replace_quote:
  assumes "list_all plain (CHR ''/'' # ps)"
  shows "replace_ne (CHR ''/'') ps repo_mark (quote s @ b)
    = quote (replace_ne (CHR ''/'') ps repo_mark s) @ replace_ne (CHR ''/'') ps repo_mark b"
proof -
  let ?R = "replace_ne (CHR ''/'') ps repo_mark"
  have "CHR 0x22 \<notin> set ps" using assms by (auto simp: plain_def list_all_iff)
  then have "?R (escaped s @ CHR 0x22 # b) = ?R (escaped s) @ CHR 0x22 # ?R b"
    by (intro replace_ne_stop) auto
  then show ?thesis
    using replace_ne_skip[of "CHR ''/''" "[CHR 0x22]" ps repo_mark "escaped s @ CHR 0x22 # b"]
      replace_ne_escaped[OF assms mark_plain, of s] by (simp add: quote_def)
qed

lemma replace_join:
  assumes "\<And>x b. x \<in> set xs \<Longrightarrow> replace_ne p ps new (f x @ b) = g x @ replace_ne p ps new b"
    and "p \<notin> set sep"
  shows "replace_ne p ps new (join sep (map f xs) @ b) = join sep (map g xs) @ replace_ne p ps new b"
  using assms(1)
proof (induction xs)
  case (Cons x xs)
  show ?case
  proof (cases xs)
    case (Cons y ys)
    have "replace_ne p ps new (f x @ sep @ join sep (map f xs) @ b)
        = g x @ sep @ join sep (map g xs) @ replace_ne p ps new b"
      using Cons.prems Cons.IH replace_ne_skip[OF assms(2)] by simp
    then show ?thesis by (simp add: Cons)
  qed (use Cons in simp)
qed simp

lemma str_int_no_slash: "CHR ''/'' \<notin> set (str_int i)"
  using str_int_chars[of "CHR ''/''" i] by (auto simp: is_digit_def)

lemma replace_dumps:
  assumes "list_all plain (CHR ''/'' # ps)"
  shows "json_ok v \<Longrightarrow> replace_ne (CHR ''/'') ps repo_mark (dumps v @ b)
    = dumps (map_strings (replace_ne (CHR ''/'') ps repo_mark) v) @ replace_ne (CHR ''/'') ps repo_mark b"
proof (induction v arbitrary: b)
  case (JStr s)
  then show ?case by (simp add: replace_quote[OF assms])
next
  case (JInt i)
  then show ?case using replace_ne_skip[OF str_int_no_slash] by simp
next
  case (JDec m k)
  then have "CHR ''/'' \<notin> set (dec_string m k)"
    using dec_string_chars[of m k "CHR ''/''"] by (auto simp: is_digit_def)
  then show ?case using replace_ne_skip by simp
next
  case (JList xs)
  let ?R = "replace_ne (CHR ''/'') ps repo_mark"
  have "?R (join '', '' (map dumps xs) @ c) = join '', '' (map (\<lambda>x. dumps (map_strings ?R x)) xs) @ ?R c" for c
    by (rule replace_join) (use JList in \<open>auto simp: list_all_iff\<close>)
  from this[of "'']'' @ b"] show ?case by (simp add: comp_def)
next
  case (JObj kvs)
  let ?R = "replace_ne (CHR ''/'') ps repo_mark"
  have member: "?R ((case kv of (k, v) \<Rightarrow> quote k @ '': '' @ dumps v) @ c)
      = (case kv of (k, v) \<Rightarrow> quote (?R k) @ '': '' @ dumps (map_strings ?R v)) @ ?R c"
    if "kv \<in> set kvs" for kv c
  proof -
    obtain k v where kv: "kv = (k, v)" by (cases kv)
    have "json_ok v" using JObj(2) that by (auto simp: kv list_all_iff)
    then show ?thesis
      using JObj(1)[of kv v c] that by (simp add: kv replace_quote[OF assms])
  qed
  have "?R (join '', '' (map (\<lambda>(k, v). quote k @ '': '' @ dumps v) kvs) @ c)
      = join '', '' (map (\<lambda>(k, v). quote (?R k) @ '': '' @ dumps (map_strings ?R v)) kvs) @ ?R c" for c
    by (rule replace_join) (use member in auto)
  from this[of "''}'' @ b"] show ?case by (simp add: comp_def split_def)
qed auto

lemma replace_dumps_indent:
  assumes "list_all plain (CHR ''/'' # ps)"
  shows "json_ok v \<Longrightarrow> replace_ne (CHR ''/'') ps repo_mark (dumps_indent d v @ b)
    = dumps_indent d (map_strings (replace_ne (CHR ''/'') ps repo_mark) v) @ replace_ne (CHR ''/'') ps repo_mark b"
proof (induction d v arbitrary: b rule: dumps_indent.induct)
  case (3 d i)
  then show ?case using replace_ne_skip[OF str_int_no_slash] by simp
next
  case (4 d m k)
  then have "CHR ''/'' \<notin> set (dec_string m k)"
    using dec_string_chars[of m k "CHR ''/''"] by (auto simp: is_digit_def)
  then show ?case using replace_ne_skip by simp
next
  case (5 d s)
  then show ?case by (simp add: replace_quote[OF assms])
next
  case (6 d xs)
  let ?R = "replace_ne (CHR ''/'') ps repo_mark"
  have nl: "CHR ''/'' \<notin> set (newline_indent e)" for e by (simp add: newline_indent_def)
  have sep: "CHR ''/'' \<notin> set ('','' @ newline_indent (Suc d))" using nl by simp
  have "?R (join ('','' @ newline_indent (Suc d)) (map (dumps_indent (Suc d)) xs) @ c)
      = join ('','' @ newline_indent (Suc d)) (map (\<lambda>x. dumps_indent (Suc d) (map_strings ?R x)) xs) @ ?R c"
    if "xs \<noteq> []" for c
    by (rule replace_join[OF _ sep]) (use 6 that in \<open>auto simp: list_all_iff\<close>)
  then show ?case by (simp add: comp_def replace_ne_skip[OF nl])
next
  case (7 d kvs)
  let ?R = "replace_ne (CHR ''/'') ps repo_mark"
  have nl: "CHR ''/'' \<notin> set (newline_indent e)" for e by (simp add: newline_indent_def)
  have sep: "CHR ''/'' \<notin> set ('','' @ newline_indent (Suc d))" using nl by simp
  have member: "?R ((case kv of (k, v) \<Rightarrow> quote k @ '': '' @ dumps_indent (Suc d) v) @ c)
      = (case kv of (k, v) \<Rightarrow> quote (?R k) @ '': '' @ dumps_indent (Suc d) (map_strings ?R v)) @ ?R c"
    if "kv \<in> set kvs" for kv c
  proof -
    obtain k v where kv: "kv = (k, v)" by (cases kv)
    have "json_ok v" "kvs \<noteq> []" using 7(2) that by (auto simp: kv list_all_iff)
    then show ?thesis
      using 7(1)[OF _ that, of k v c] by (simp add: kv replace_quote[OF assms])
  qed
  have "?R (join ('','' @ newline_indent (Suc d)) (map (\<lambda>(k, v). quote k @ '': '' @ dumps_indent (Suc d) v) kvs) @ c)
      = join ('','' @ newline_indent (Suc d))
          (map (\<lambda>(k, v). quote (?R k) @ '': '' @ dumps_indent (Suc d) (map_strings ?R v)) kvs) @ ?R c" for c
    by (rule replace_join[OF _ sep]) (use member in auto)
  then show ?case by (simp add: comp_def split_def replace_ne_skip[OF nl])
qed auto

lemma redact_replace_ne: "r = CHR ''/'' # ps \<Longrightarrow> redact r = replace_ne (CHR ''/'') ps repo_mark"
  by (simp add: fun_eq_iff redact_def py_replace_def)

lemma plain_path_cases:
  assumes "plain_path r"
  obtains ps where "r = CHR ''/'' # ps" "list_all plain (CHR ''/'' # ps)"
  using assms by (auto simp: plain_path_def absolute_def)

lemma redact_dumps_all:
  assumes "plain_path r" and "json_ok v" and "CHR ''/'' \<notin> set w"
  shows "redact r (dumps v @ w) = dumps (map_strings (redact r) v) @ w"
proof -
  obtain ps where ps: "r = CHR ''/'' # ps" "list_all plain (CHR ''/'' # ps)"
    using plain_path_cases[OF assms(1)] .
  show ?thesis
    unfolding redact_replace_ne[OF ps(1)] replace_dumps[OF ps(2) assms(2)]
    using replace_ne_skip[OF assms(3), of ps repo_mark "[]"] by simp
qed

lemma loads_redact_dumps:
  assumes "plain_path r" and "json_ok v" and "json_ok (map_strings (redact r) v)"
  shows "loads (redact r (dumps v @ [CHR 0x0A])) = Inr (map_strings (redact r) v)"
  using redact_dumps_all[OF assms(1,2), of "[CHR 0x0A]"] loads_dumps_all[OF assms(3), of "[CHR 0x0A]"] by simp

text \<open>The strings of a value, keys included; a value whose strings are free of the path is.\<close>

fun strings_in :: "json \<Rightarrow> string list" where
  "strings_in (JStr s) = [s]"
| "strings_in (JList xs) = concat (map strings_in xs)"
| "strings_in (JObj kvs) = concat (map (\<lambda>(k, v). k # strings_in v) kvs)"
| "strings_in v = []"

lemma map_strings_id: "(\<And>s. s \<in> set (strings_in v) \<Longrightarrow> f s = s) \<Longrightarrow> map_strings f v = v"
proof (induction v)
  case (JObj kvs)
  have "(f k, map_strings f v) = (k, v)" if "(k, v) \<in> set kvs" for k v
    using JObj(1)[OF that, of v] JObj(2) that by fastforce
  then show ?case by (auto intro: map_idI)
qed (auto intro: map_idI)

lemma document_free:
  assumes "plain_path r" and "json_ok v" and "\<And>s. s \<in> set (strings_in v) \<Longrightarrow> \<not> occurs r s"
    and "CHR ''/'' \<notin> set w"
  shows "\<not> occurs r (dumps_indent d v @ w)"
proof -
  obtain ps where ps: "r = CHR ''/'' # ps" "list_all plain (CHR ''/'' # ps)"
    using plain_path_cases[OF assms(1)] .
  have "map_strings (redact r) v = v"
    by (rule map_strings_id) (use assms(3) ps in \<open>auto intro: redact_unchanged\<close>)
  moreover have "redact r (dumps_indent d v @ w) = dumps_indent d (map_strings (redact r) v) @ w"
    unfolding redact_replace_ne[OF ps(1)] replace_dumps_indent[OF ps(2) assms(2)]
    using replace_ne_skip[OF assms(4), of ps repo_mark "[]"] by simp
  ultimately have "redact r (dumps_indent d v @ w) = dumps_indent d v @ w" by simp
  then show ?thesis using redact_removes[of r "dumps_indent d v @ w"] assms(1) by (simp add: plain_path_def)
qed

section \<open>Properties\<close>

text \<open>
  C13: redacting a runner's output before parsing it is redacting the strings in it.  The
  replacement of the checkout's path commutes with the JSON rendering, for any path
  whose characters JSON does not escape.
\<close>

theorem redact_commutes_with_json:
  assumes "plain_path r" and "json_ok v"
  shows "redact r (dumps v) = dumps (map_strings (redact r) v)"
  using redact_dumps_all[OF assms, of "[]"] by simp

theorem redact_commutes_with_json_witness:
  "redact ''/r'' (dumps (JObj [(''detail'', JStr ''at /r/x''), (''n'', JInt 3)]))
     = dumps (map_strings (redact ''/r'') (JObj [(''detail'', JStr ''at /r/x''), (''n'', JInt 3)]))"
  by (rule redact_commutes_with_json) (simp_all add: plain_path_def absolute_def plain_def printable_def)

lemma cut_path_kept:
  assumes "absolute r" and "CHR ''/'' \<notin> set pad" and "k < length r"
  shows "redact r (pad @ take k r) = pad @ take k r"
proof -
  obtain ps where r: "r = CHR ''/'' # ps" using assms(1) by (auto simp: absolute_def)
  have "\<not> occurs r (take k r)"
    using assms(3) by (auto simp: occurs_iff_sublist dest!: sublist_length_le)
  then have "\<not> occurs r (pad @ take k r)" using occurs_append_free[OF assms(2), of ps] by (simp add: r)
  then show ?thesis by (intro redact_unchanged) (simp_all add: r)
qed

lemma whole_path_replaced:
  assumes "absolute r" and "CHR ''/'' \<notin> set pad"
  shows "redact r (pad @ r @ rest) = pad @ repo_mark @ redact r rest"
proof -
  obtain ps where r: "r = CHR ''/'' # ps" using assms(1) by (auto simp: absolute_def)
  have "replace_ne (CHR ''/'') ps repo_mark (CHR ''/'' # ps @ rest) = repo_mark @ replace_ne (CHR ''/'') ps repo_mark rest"
    by simp
  then show ?thesis using assms(2) by (simp add: r redact_def py_replace_def replace_ne_skip del: replace_ne.simps)
qed

text \<open>
  C40: a path cut by the emitter is not redacted.  Take a log whose one line has the
  checkout's absolute path in it, after fewer than 400 characters without a slash and
  running past the 400th.  The emitter's detail is the line up to the 400th character,
  which ends in a proper part of the path, redacting that detail changes nothing, and the
  beginning of the path stays in the cell.  It is the cut that does it: redacting the
  whole line puts the mark where the path was, and no path is left.
\<close>

theorem truncated_path_survives:
  assumes "absolute repo" and "py_int rc = Inr n" and "rc \<noteq> ''skip''"
    and "fs log_path = Some (pad @ repo @ rest @ [CHR 0x0A])" and "one_line (pad @ repo @ rest)"
    and "CHR ''/'' \<notin> set pad" and "length pad < 400" and "400 < length pad + length repo"
  shows "\<exists>c. cell fs rc log_path = Inr c \<and> tc_detail c = pad @ take (400 - length pad) repo
    \<and> take (400 - length pad) repo \<notin> {[], repo}
    \<and> redact repo (tc_detail c) = tc_detail c
    \<and> redact repo (pad @ repo @ rest) = pad @ repo_mark @ redact repo rest
    \<and> \<not> occurs repo (redact repo (pad @ repo @ rest))"
proof -
  have cut: "take 400 (pad @ repo @ rest) = pad @ take (400 - length pad) repo" using assms(7,8) by simp
  have "output_lines (pad @ repo @ rest @ [CHR 0x0A]) = [pad @ repo @ rest]"
    using output_lines_line[OF assms(5)] by simp
  then have c: "cell fs rc log_path = Inr \<lparr>tc_status = if n = 0 then ''ok'' else ''fail'',
      tc_detail = pad @ take (400 - length pad) repo\<rparr>"
    using cut assms(2-4) by (simp add: cell_def Let_def last_two_def del: take_append)
  have "length (take (400 - length pad) repo) < length repo" "repo \<noteq> []" using assms(1,7,8) by (auto simp: absolute_def)
  then have "take (400 - length pad) repo \<notin> {[], repo}" using assms(7) by (metis insertE empty_iff
    less_irrefl take_eq_Nil zero_less_diff)
  moreover have "redact repo (pad @ take (400 - length pad) repo) = pad @ take (400 - length pad) repo"
    by (rule cut_path_kept[OF assms(1,6)]) (use assms(7,8) in arith)
  moreover note whole_path_replaced[OF assms(1,6), of rest] redact_removes[OF assms(1), of "pad @ repo @ rest"]
  ultimately show ?thesis using c by (simp del: take_append insert_iff)
qed

theorem truncated_path_survives_witness:
  "\<exists>c. cell (\<lambda>p. if p = ''log'' then Some (replicate 390 (CHR ''x'') @ ''/home/user/checkout/leaf.crt'' @ [CHR 0x0A]) else None)
       ''1'' ''log'' = Inr c
     \<and> suffix ''/home/user'' (tc_detail c) \<and> redact ''/home/user/checkout'' (tc_detail c) = tc_detail c
     \<and> redact ''/home/user/checkout'' (replicate 390 (CHR ''x'') @ ''/home/user/checkout/leaf.crt'')
        = replicate 390 (CHR ''x'') @ repo_mark @ ''/leaf.crt''"
proof -
  let ?pad = "replicate 390 (CHR ''x'')" and ?repo = "''/home/user/checkout''" and ?rest = "''/leaf.crt''"
  let ?fs = "\<lambda>p. if p = ''log'' then Some (replicate 390 (CHR ''x'') @ ''/home/user/checkout/leaf.crt'' @ [CHR 0x0A]) else None"
  have line: "one_line (?pad @ ?repo @ ?rest)"
    by (auto simp: one_line_def is_space_def is_newline_def list_all_iff)
  have rc: "py_int ''1'' = Inr 1" using py_int_str[of 1] by (simp add: str_int_def str_nat.simps digit_def)
  have rest: "redact ?repo ?rest = ?rest"
    by (rule redact_unchanged) (auto simp: occurs_Cons not_occurs_Nil)
  show ?thesis
    using truncated_path_survives[of ?repo "''1''" 1 ?fs "''log''" ?pad ?rest] line rc rest
    by (auto simp: absolute_def suffix_def)
qed

end
