(* ===== verification/Harness.thy ===== *)
theory Harness
  imports Servers Redact_Json Tables
begin

text \<open>
  \<open>runners/harness.py\<close>: for every chain assemble a bundle, serve it when there is a
  leaf key, run every client runner on it, collect the cells, and write
  \<open>results.json\<close> and \<open>MATRIX.md\<close>.  The runners and the servers are the environment:
  whether the port answers, whether a server exits in time, what a runner returns,
  prints and leaves in the file system.  \<open>runners\<close> is the sorted list of client names.
\<close>

section \<open>Chains and bundles\<close>

definition gen_dir :: path where
  "gen_dir = [''gen'', ''chains'']"

definition p0_dir :: path where
  "p0_dir = [''phase0'', ''chains'']"

definition chains :: "(string, path \<times> path) dict" where
  "chains =
     [(''ecdsa'', gen_dir @ [''ecdsa''], gen_dir @ [''ecdsa'']),
      (''mldsa44'', gen_dir @ [''mldsa44''], gen_dir @ [''mldsa44'']),
      (''mldsa65'', gen_dir @ [''mldsa65''], gen_dir @ [''mldsa65'']),
      (''mldsa87'', gen_dir @ [''mldsa87''], gen_dir @ [''mldsa87'']),
      (''slhroot'', gen_dir @ [''slhroot''], gen_dir @ [''slhroot'']),
      (''mixed'', gen_dir @ [''mixed''], gen_dir @ [''mixed'']),
      (''catalyst'', p0_dir @ [''catalyst''], p0_dir @ [''ecdsa'']),
      (''composite'', [''composite'', ''chains''], [])]"

definition bundle_dir :: "string \<Rightarrow> path" where
  "bundle_dir name = [''results'', ''bundles'', name]"

text \<open>The self-signed bundle, and the bundle of a chain with a CA directory.\<close>

definition bundle_self :: "path \<Rightarrow> path \<Rightarrow> ('x world_scheme, unit) eff" where
  "bundle_self src b = (let leaf = src @ [''composite-selfsigned.crt''] in
     eseq (copy_file leaf (b @ [''leaf.crt''])) (
     eseq (copy_file leaf (b @ [''root.crt'']))
          (copy_file leaf (b @ [''chain.pem'']))))"

definition bundle_chain :: "path \<Rightarrow> path \<Rightarrow> path \<Rightarrow> ('x world_scheme, unit) eff" where
  "bundle_chain src ca b =
     eseq (copy_file (src @ [''leaf.crt'']) (b @ [''leaf.crt''])) (
     eseq (copy_file (ca @ [''root.crt'']) (b @ [''root.crt''])) (
     eseq (copy_file (ca @ [''int.crt'']) (b @ [''int.crt''])) (
     ebind (read_file (src @ [''leaf.crt''])) (\<lambda>leaf.
     ebind (read_file (ca @ [''int.crt''])) (\<lambda>int.
     eseq (write_file (b @ [''chain.pem'']) (leaf @ int)) (
     ebind (exists_file (src @ [''leaf.key''])) (\<lambda>key.
     if key then copy_file (src @ [''leaf.key'']) (b @ [''leaf.key'']) else ret ())))))))"

definition bundle_of :: "string \<Rightarrow> ('x world_scheme, path) eff" where
  "bundle_of name =
     ebind (lift (getitem chains name)) (\<lambda>(src, ca).
     eseq (mkdir (bundle_dir name)) (
     eseq (if name = ''composite'' then bundle_self src (bundle_dir name)
           else bundle_chain src ca (bundle_dir name))
     (ret (bundle_dir name))))"

section \<open>Redacting the evidence\<close>

text \<open>
  \<open>redact_tree\<close>: every file below \<open>d\<close> that can be read (\<open>readable\<close>; a file that cannot is
  skipped) is read as text, and written back when the redaction changes it.  Reading
  decodes UTF-8 with \<open>errors="replace"\<close>: a byte that starts no sequence, and the longest
  beginning of a sequence that is not completed, becomes the replacement character, whose
  three bytes are what is written back.  The files are treated each on its own, so the
  order in which the tree is walked does not matter and the loop is a pointwise update.
\<close>

text \<open>The ranges of the bytes that continue a sequence, from its first byte.\<close>

definition utf8_ranges :: "nat \<Rightarrow> (nat \<times> nat) list option" where
  "utf8_ranges b = (let c = (0x80, 0xBF) in
     if b < 0x80 then Some []
     else if b < 0xC2 then None
     else if b < 0xE0 then Some [c]
     else if b = 0xE0 then Some [(0xA0, 0xBF), c]
     else if b = 0xED then Some [(0x80, 0x9F), c]
     else if b < 0xF0 then Some [c, c]
     else if b = 0xF0 then Some [(0x90, 0xBF), c, c]
     else if b < 0xF4 then Some [c, c, c]
     else if b = 0xF4 then Some [(0x80, 0x8F), c, c]
     else None)"

text \<open>How many bytes continue the sequence.\<close>

fun utf8_continued :: "(nat \<times> nat) list \<Rightarrow> string \<Rightarrow> nat" where
  "utf8_continued ((lo, hi) # rs) (c # s) =
     (if lo \<le> of_char c \<and> of_char c \<le> hi then Suc (utf8_continued rs s) else 0)"
| "utf8_continued _ _ = 0"

definition replacement_char :: string where
  "replacement_char = [CHR 0xEF, CHR 0xBF, CHR 0xBD]"

fun utf8_replace :: "string \<Rightarrow> string" where
  "utf8_replace [] = []"
| "utf8_replace (c # s) = (case utf8_ranges (of_char c) of
     None \<Rightarrow> replacement_char @ utf8_replace s
   | Some rs \<Rightarrow> (let k = utf8_continued rs s in
       (if k = length rs then c # take k s else replacement_char) @ utf8_replace (drop k s)))"

declare utf8_replace.simps(2) [simp del]

definition read_replacing :: "string \<Rightarrow> string" where
  "read_replacing content = universal_newlines (utf8_replace content)"

definition redact_content :: "string \<Rightarrow> string \<Rightarrow> string" where
  "redact_content repo content = (let original = read_replacing content; cleaned = redact repo original in
     if cleaned \<noteq> original then cleaned else content)"

definition below :: "path \<Rightarrow> path \<Rightarrow> bool" where
  "below d p \<longleftrightarrow> prefix d p \<and> p \<noteq> d"

definition redact_tree :: "(path \<Rightarrow> bool) \<Rightarrow> string \<Rightarrow> path \<Rightarrow> ('x world_scheme, unit) eff" where
  "redact_tree readable repo d = modify (\<lambda>s. s\<lparr>files := (\<lambda>p. if below d p \<and> readable p
     then map_option (redact_content repo) (files s p) else files s p)\<rparr>)"

section \<open>One runner on one chain\<close>

record run_result =
  rr_code :: int
  rr_stdout :: string
  rr_stderr :: string
  rr_files :: "(path \<times> string) list"

text \<open>
  A runner's call is its command line; what it returns and leaves may depend on every
  file there is.  \<open>he_spawn\<close> tells whether a server can be started, \<open>he_reads\<close> which files
  below the evidence can be read (a container may write a file that only root can read).
\<close>

record harness_env =
  he_spawn :: spawner
  he_attempt :: "string \<Rightarrow> nat \<Rightarrow> bool \<times> nat"
  he_exits :: "proc \<Rightarrow> bool"
  he_reads :: "path \<Rightarrow> bool"
  he_run :: "string list \<Rightarrow> (path \<Rightarrow> string option) \<Rightarrow> run_result res"

datatype collected = Cell json | Failure string

text \<open>\<open>f"{v:4s}"\<close> takes a string only; \<open>f"{v}"\<close> takes any value (\<open>str(v)\<close>).\<close>

definition fmt4 :: "json \<Rightarrow> string res" where
  "fmt4 v = (case v of JStr s \<Rightarrow> Inr (pad_right 4 s)
     | JInt _ \<Rightarrow> Inl (ValueError ''format'') | JBool _ \<Rightarrow> Inl (ValueError ''format'')
     | JDec _ _ \<Rightarrow> Inl (ValueError ''format'') | _ \<Rightarrow> Inl TypeError)"

definition repr_str :: "string \<Rightarrow> string" where
  "repr_str s = (let q = (if CHR 0x27 \<in> set s \<and> CHR 0x22 \<notin> set s then CHR 0x22 else CHR 0x27) in
     [q] @ concat (map (\<lambda>c. if c = q \<or> c = CHR 0x5C then [CHR 0x5C, c]
       else if c = CHR 0x0A then [CHR 0x5C, CHR ''n'']
       else if c = CHR 0x0D then [CHR 0x5C, CHR ''r'']
       else if c = CHR 0x09 then [CHR 0x5C, CHR ''t'']
       else if 32 \<le> (of_char c :: nat) \<and> (of_char c :: nat) < 127 \<or> 161 \<le> (of_char c :: nat) \<and> of_char c \<noteq> (173 :: nat)
       then [c]
       else [CHR 0x5C, CHR ''x'', hex_digit (of_char c div 16), hex_digit (of_char c mod 16)]) s) @ [q])"

fun py_repr :: "json \<Rightarrow> string" where
  "py_repr JNull = ''None''"
| "py_repr (JBool b) = (if b then ''True'' else ''False'')"
| "py_repr (JInt i) = str_int i"
| "py_repr (JDec m k) = dec_string m k"
| "py_repr (JStr s) = repr_str s"
| "py_repr (JList xs) = ''['' @ join '', '' (map py_repr xs) @ '']''"
| "py_repr (JObj kvs) = ''{'' @ join '', '' (map (\<lambda>(k, v). repr_str k @ '': '' @ py_repr v) kvs) @ ''}''"

definition py_str :: "json \<Rightarrow> string" where
  "py_str v = (case v of JStr s \<Rightarrow> s | _ \<Rightarrow> py_repr v)"

definition status_of :: "json \<Rightarrow> string \<Rightarrow> json res" where
  "status_of tests k = rbind (jget tests k) (\<lambda>t. jget t ''status'')"

definition cell_line :: "string \<Rightarrow> string \<Rightarrow> json \<Rightarrow> string res" where
  "cell_line name client tests =
     rbind (rbind (status_of tests ''parse'') fmt4) (\<lambda>p.
     rbind (rbind (status_of tests ''verify'') fmt4) (\<lambda>v.
     rbind (status_of tests ''handshake'') (\<lambda>h.
     Inr (pad_right 10 name @ '' '' @ pad_right 14 client @ '' parse='' @ p @ '' verify='' @ v
       @ '' handshake='' @ py_str h))))"

text \<open>\<open>cell["chain"] = name\<close> on the decoded output, which must be an object.\<close>

definition tag_chain :: "string \<Rightarrow> json \<Rightarrow> json res" where
  "tag_chain name v = (case v of JObj kvs \<Rightarrow> Inr (JObj (dict_set ''chain'' (JStr name) kvs)) | _ \<Rightarrow> Inl TypeError)"

definition collect_cell :: "string \<Rightarrow> string \<Rightarrow> string \<Rightarrow> string \<Rightarrow> (json \<times> string) res" where
  "collect_cell repo name client stdout =
     rbind (loads (redact repo stdout)) (\<lambda>v.
     rbind (tag_chain name v) (\<lambda>cell.
     rbind (jget cell ''tests'') (\<lambda>tests.
     rbind (cell_line name client tests) (\<lambda>l. Inr (cell, l)))))"

definition failure_line :: "string \<Rightarrow> string \<Rightarrow> string \<Rightarrow> run_result \<Rightarrow> string" where
  "failure_line repo name client r = client @ ''/'' @ name @ '': rc='' @ str_int (rr_code r) @ '' ''
     @ take 200 (redact repo (strip (rr_stderr r)))"

definition evidence_dir :: "string \<Rightarrow> string \<Rightarrow> path" where
  "evidence_dir name client = [''results'', ''evidence'', name, client]"

definition runner_args :: "string \<Rightarrow> string \<Rightarrow> path \<Rightarrow> string \<Rightarrow> path \<Rightarrow> string list" where
  "runner_args repo client b server ev =
     [abs_path repo [''runners'', client, ''run.sh''], abs_path repo b, server, abs_path repo ev]"

definition exec_runner :: "harness_env \<Rightarrow> string \<Rightarrow> string \<Rightarrow> path \<Rightarrow> string \<Rightarrow> string
    \<Rightarrow> ('x pworld_scheme, run_result) eff" where
  "exec_runner env repo name b server client s =
     (case he_run env (runner_args repo client b server (evidence_dir name client)) (files s) of
        Inl e \<Rightarrow> (Inl e, s)
      | Inr r \<Rightarrow> (Inr r, s\<lparr>files := files s ++ map_of (rr_files r),
                         trace := trace s @ [Ran client name server]\<rparr>))"

definition run_cell :: "harness_env \<Rightarrow> string \<Rightarrow> string \<Rightarrow> path \<Rightarrow> string \<Rightarrow> string
    \<Rightarrow> ('x pworld_scheme, collected) eff" where
  "run_cell env repo name b server client =
     eseq (mkdir (evidence_dir name client)) (
     ebind (exec_runner env repo name b server client) (\<lambda>r.
     if rr_code r \<noteq> 0 then ret (Failure (failure_line repo name client r))
     else eseq (redact_tree (he_reads env) repo (evidence_dir name client)) (
       ebind (lift (collect_cell repo name client (rr_stdout r))) (\<lambda>(cell, l).
       eseq (print l) (ret (Cell cell))))))"

section \<open>Serving a chain\<close>

text \<open>
  Whether a server runs, and the address the runners get (\<open>-\<close> for none).  \<open>out\<close> keeps
  the lines of both output streams in their order; the warning is the only one that goes
  to \<open>sys.stderr\<close>.
\<close>

definition server_name :: "string \<Rightarrow> string" where
  "server_name name = (if name = ''catalyst'' then ''matrix-hybrid.test'' else ''matrix.test'') @ '':14433''"

definition server_args :: "string \<Rightarrow> path \<Rightarrow> string list" where
  "server_args repo b =
     [''openssl'', ''s_server'', ''-accept'', ''14433'', ''-quiet'',
      ''-cert'', abs_path repo (b @ [''leaf.crt'']), ''-key'', abs_path repo (b @ [''leaf.key'']),
      ''-cert_chain'', abs_path repo (b @ [''int.crt''])]"

definition start_server :: "harness_env \<Rightarrow> string \<Rightarrow> string \<Rightarrow> path \<Rightarrow> bool
    \<Rightarrow> ('x pworld_scheme, string \<times> bool) eff" where
  "start_server env repo name b key =
     (if \<not> key then ret (''-'', False)
      else eseq (popen (he_spawn env) (SServer name) (server_args repo b)) (
        if wait_port (he_attempt env name) 5000 then ret (server_name name, True)
        else eseq (terminate (SServer name)) (
          eseq (print (''WARN: server failed to start for '' @ name)) (ret (''-'', False)))))"

definition stop_server :: "harness_env \<Rightarrow> string \<Rightarrow> bool \<Rightarrow> ('x pworld_scheme, unit) eff" where
  "stop_server env name live =
     (if live then eseq (terminate (SServer name)) (wait_exit (he_exits env) (SServer name)) else ret ())"

definition harness_chain :: "harness_env \<Rightarrow> string \<Rightarrow> string list \<Rightarrow> string \<Rightarrow> ('x pworld_scheme, collected list) eff" where
  "harness_chain env repo runners name =
     ebind (bundle_of name) (\<lambda>b.
     ebind (exists_file (b @ [''leaf.key''])) (\<lambda>key.
     ebind (start_server env repo name b key) (\<lambda>(server, live).
     ebind (emap (run_cell env repo name b server) runners) (\<lambda>rs.
     eseq (stop_server env name live) (ret rs)))))"

section \<open>The matrix\<close>

definition marks :: "(string, string) dict" where
  "marks = [(''ok'', ''&check;''), (''fail'', ''&cross;''), (''skip'', ''&ndash;'')]"

definition mark_of :: "json \<Rightarrow> string res" where
  "mark_of v = (case v of JStr s \<Rightarrow> getitem marks s | JList _ \<Rightarrow> Inl TypeError | JObj _ \<Rightarrow> Inl TypeError
     | _ \<Rightarrow> Inl (KeyError (py_str v)))"

definition truthy :: "json \<Rightarrow> bool" where
  "truthy v \<longleftrightarrow> v \<notin> {JNull, JBool False, JInt 0, JStr [], JList [], JObj []}
     \<and> (case v of JDec m _ \<Rightarrow> m \<noteq> 0 | _ \<Rightarrow> True)"

text \<open>
  The three comprehensions over the cells, one after the other: the clients, the tests by
  chain and client (the key is evaluated before the value), the versions by client.
\<close>

definition cell_client :: "json \<Rightarrow> string res" where
  "cell_client c = str_field c ''client''"

definition cell_test :: "json \<Rightarrow> ((string \<times> string) \<times> json) res" where
  "cell_test c =
     rbind (str_field c ''chain'') (\<lambda>chain.
     rbind (str_field c ''client'') (\<lambda>client.
     rbind (jget c ''tests'') (\<lambda>tests. Inr ((chain, client), tests))))"

definition cell_version :: "json \<Rightarrow> (string \<times> json) res" where
  "cell_version c = rbind (str_field c ''client'') (\<lambda>client.
     rbind (jget c ''client_version'') (\<lambda>version. Inr (client, version)))"

definition test_marks :: "json \<Rightarrow> string res" where
  "test_marks t = rbind (traverse (\<lambda>k. rbind (status_of t k) mark_of) [''parse'', ''verify'', ''handshake''])
     (\<lambda>ms. Inr (join '' / '' ms))"

definition matrix_cell :: "((string \<times> string), json) dict \<Rightarrow> string \<Rightarrow> string \<Rightarrow> string res" where
  "matrix_cell tests_by chain client = (case map_of tests_by (chain, client) of
     None \<Rightarrow> Inr ''n/a''
   | Some t \<Rightarrow> if truthy t then test_marks t else Inr ''n/a'')"

definition matrix_row :: "((string \<times> string), json) dict \<Rightarrow> string list \<Rightarrow> string \<Rightarrow> string list res" where
  "matrix_row tests_by clients chain =
     rbind (traverse (matrix_cell tests_by chain) clients) (\<lambda>cs. Inr (chain # cs))"

definition matrix_md :: "json list \<Rightarrow> string list res" where
  "matrix_md cells =
     rbind (traverse cell_client cells) (\<lambda>cls.
     rbind (traverse cell_test cells) (\<lambda>tests.
     rbind (traverse cell_version cells) (\<lambda>vs.
     let clients = sorted_set cls; versions = dict_of vs in
     rbind (traverse (matrix_row (dict_of tests) clients) (map fst chains)) (\<lambda>table.
     rbind (traverse (\<lambda>c. rbind (getitem versions c) (\<lambda>v. Inr (''- '' @ c @ '': '' @ py_str v))) clients) (\<lambda>ls.
     Inr ([''# Client compatibility matrix'', '''',
         ''Generated by `runners/harness.py` from `results/results.json`; do not'',
         ''hand-edit. Cell format: parse / offline chain verify / TLS 1.3 handshake.'',
         ''&check; ok, &cross; fail, &ndash; skipped. Exact client error text lives in'',
         ''`results/results.json` and raw output in `results/evidence/`.'', '''',
         ''| Chain | '' @ join '' | '' clients @ '' |'',
         ''|---|'' @ concat (replicate (length clients) ''---|'')]
       @ map table_line table @ ['''', ''Client versions:'', ''''] @ ls))))))"

definition write_matrix :: "json list \<Rightarrow> ('x world_scheme, unit) eff" where
  "write_matrix cells = ebind (lift (matrix_md cells)) (\<lambda>md.
     write_file [''MATRIX.md''] (join [CHR 0x0A] md @ [CHR 0x0A]))"

section \<open>The script\<close>

definition cells_of :: "collected list \<Rightarrow> json list" where
  "cells_of rs = concat (map (\<lambda>r. case r of Cell c \<Rightarrow> [c] | Failure _ \<Rightarrow> []) rs)"

definition failures_of :: "collected list \<Rightarrow> string list" where
  "failures_of rs = concat (map (\<lambda>r. case r of Cell _ \<Rightarrow> [] | Failure f \<Rightarrow> [f]) rs)"

definition report_cells :: "json list \<Rightarrow> string list \<Rightarrow> ('x world_scheme, unit) eff" where
  "report_cells cells failures =
     eseq (write_file [''results'', ''results.json''] (dumps_indent 0 (JList cells) @ [CHR 0x0A])) (
     eseq (write_matrix cells) (
     eseq (print ([CHR 0x0A] @ str_nat (length cells) @ '' cells -> results/results.json, MATRIX.md''))
       (foreach (\<lambda>f. print (''RUNNER FAILURE: '' @ f)) failures)))"

definition harness_main :: "harness_env \<Rightarrow> string \<Rightarrow> string list \<Rightarrow> ('x pworld_scheme, unit) eff" where
  "harness_main env repo runners =
     ebind (emap (harness_chain env repo runners) (map fst chains)) (\<lambda>rss.
     report_cells (cells_of (concat rss)) (failures_of (concat rss)))"

text \<open>
  \<open>RUNNERS\<close>, the sorted names below \<open>runners/\<close> that have a \<open>run.sh\<close>, and the program.
\<close>

definition runner_names :: "string list \<Rightarrow> 'x world_scheme \<Rightarrow> string list" where
  "runner_names entries s = sort (filter (\<lambda>n. files s [''runners'', n, ''run.sh''] \<noteq> None
     \<or> [''runners'', n, ''run.sh''] \<in> dirs s) entries)"

definition harness_script :: "harness_env \<Rightarrow> string \<Rightarrow> string list \<Rightarrow> ('x pworld_scheme, unit) eff" where
  "harness_script env repo entries = ebind (gets (runner_names entries)) (harness_main env repo)"

section \<open>One server at a time, every runner once per chain\<close>

text \<open>Operations on files and output touch neither the processes nor the trace.\<close>

definition same_procs :: "'x pworld_scheme \<Rightarrow> 'x pworld_scheme \<Rightarrow> bool" where
  "same_procs s t \<longleftrightarrow> running s = running t \<and> trace s = trace t"

interpretation quiet: frame same_procs
  by unfold_locales (auto simp: same_procs_def)

lemma quiet_ops: "same_procs s (snd (mkdir p s))" "same_procs s (snd (read_file p s))"
    "same_procs s (snd (write_file p c s))" "same_procs s (snd (exists_file p s))"
    "same_procs s (snd (print l s))" "same_procs s (snd (redact_tree rd repo p s))"
  by (auto simp: same_procs_def fs_defs redact_tree_def modify_def split: option.splits)

lemma quiet_copy: "same_procs s (snd (copy_file a b s))"
  unfolding copy_file_def by (rule quiet.ebind) (rule quiet_ops)+

lemma quiet_bundle_chain: "same_procs s (snd (bundle_chain src ca b s))"
proof -
  have k: "same_procs t (snd ((if c then copy_file p q else ret ()) t))" for c p q and t :: "'a pworld_scheme"
    by (cases c) (simp_all add: quiet_copy quiet.ret)
  show ?thesis unfolding bundle_chain_def
    by ((rule quiet.eseq quiet.ebind quiet_copy quiet_ops k)+)
qed

lemma quiet_bundle: "same_procs s (snd (bundle_of name s))"
proof -
  have k: "same_procs t (snd ((if c then bundle_self p q else bundle_chain p' q' b') t))"
    for c p q p' q' b' and t :: "'a pworld_scheme"
    by (cases c) (auto simp: quiet_bundle_chain bundle_self_def Let_def intro!: quiet.eseq quiet_copy)
  show ?thesis unfolding bundle_of_def split_def
    by ((rule quiet.eseq quiet.ebind quiet.lift quiet.ret quiet_ops k)+)
qed

lemma quiet_report: "same_procs s (snd (report_cells cells failures s))"
  unfolding report_cells_def write_matrix_def
  by (intro quiet.closed quiet_ops)

lemma quiet_run: "same_procs s (snd r) \<Longrightarrow> r = (Inr x, t) \<Longrightarrow> running t = running s \<and> trace t = trace s"
  by (simp add: same_procs_def)

definition chain_events :: "harness_env \<Rightarrow> string \<Rightarrow> string list \<Rightarrow> string \<Rightarrow> bool \<Rightarrow> event list" where
  "chain_events env repo runners name key =
     (if \<not> key then map (\<lambda>c. Ran c name ''-'') runners
      else if wait_port (he_attempt env name) 5000
      then [Spawned (SServer name) (server_args repo (bundle_dir name))] @ map (\<lambda>c. Ran c name (server_name name)) runners
             @ [Terminated (SServer name), Reaped (SServer name)]
      else [Spawned (SServer name) (server_args repo (bundle_dir name)), Terminated (SServer name)] @ map (\<lambda>c. Ran c name ''-'') runners)"

lemma chain_server_serves:
  "Spawned p argv \<in> set (chain_events env repo runners name key) \<Longrightarrow>
     p = SServer name \<and> serves repo (bundle_dir name) argv"
  by (auto simp: chain_events_def serves_def server_args_def split: if_splits)

lemma serving_map_run:
  "serving None (map (\<lambda>c. Ran c name ''-'') runners) None"
  "addr \<noteq> ''-'' \<Longrightarrow> serving (Some (SServer name)) (map (\<lambda>c. Ran c name addr) runners) (Some (SServer name))"
  by (induction runners) (auto intro: serving.intros)

lemma chain_events_serving: "serving None (chain_events env repo runners name key) None"
proof -
  have "server_name name \<noteq> ''-''" by (simp add: server_name_def)
  then have "serving (Some (SServer name)) (map (\<lambda>c. Ran c name (server_name name)) runners
      @ [Terminated (SServer name), Reaped (SServer name)]) None"
    by (intro serving_append[OF serving_map_run(2)]) (auto intro: serving.intros)
  then show ?thesis
    by (auto simp: chain_events_def serving_map_run(1) intro!: serving.spawn serving.terminated)
qed

text \<open>
  The servers that were told to stop because their port did not answer: nothing waits for
  them, so that they may be up until the end.
\<close>

definition lingering :: "harness_env \<Rightarrow> (string \<times> bool) list \<Rightarrow> proc list" where
  "lingering env nks = map (SServer \<circ> fst) (filter (\<lambda>(n, key). key \<and> \<not> wait_port (he_attempt env n) 5000) nks)"

lemma lingering_simps: "lingering env [] = []"
  "lingering env ((n, key) # nks) = (if key \<and> \<not> wait_port (he_attempt env n) 5000 then [SServer n] else []) @ lingering env nks"
  by (simp_all add: lingering_def)

definition run_events :: "harness_env \<Rightarrow> string \<Rightarrow> string list \<Rightarrow> (string \<times> bool) list \<Rightarrow> event list" where
  "run_events env repo runners nks = concat (map (\<lambda>(n, key). chain_events env repo runners n key) nks)"

lemma run_events_simps: "run_events env repo runners [] = []"
  "run_events env repo runners ((n, key) # nks) = chain_events env repo runners n key @ run_events env repo runners nks"
  by (simp_all add: run_events_def)

lemma run_events_serving: "serving None (run_events env repo runners nks) None"
  unfolding run_events_def by (rule serving_concat) (auto simp: chain_events_serving)

lemma alive_ran: "alive ps (map (\<lambda>c. Ran c n addr) cs @ es) = alive ps es"
  by (induction cs) simp_all

lemma alive_ran_end: "alive ps (map (\<lambda>c. Ran c n addr) cs) = ps"
  using alive_ran[of ps n addr cs "[]"] by simp

lemma alive_chain: "SServer n \<notin> set ps \<Longrightarrow> alive ps (chain_events env repo runners n key) = ps @ lingering env [(n, key)]"
  by (auto simp: chain_events_def lingering_simps alive_ran alive_ran_end remove1_append)

lemma alive_chain_mset:
  "mset (alive ps (chain_events env repo runners n key)) = mset ps + mset (lingering env [(n, key)])"
  by (auto simp: chain_events_def lingering_simps alive_ran alive_ran_end)

lemma alive_run: "distinct (map fst nks) \<Longrightarrow> (\<And>n. n \<in> fst ` set nks \<Longrightarrow> SServer n \<notin> set ps) \<Longrightarrow>
  alive ps (run_events env repo runners nks) = ps @ lingering env nks"
proof (induction nks arbitrary: ps)
  case (Cons nk nks)
  obtain n key where nk: "nk = (n, key)" by (cases nk)
  have a: "alive ps (chain_events env repo runners n key) = ps @ lingering env [(n, key)]"
    by (rule alive_chain) (use Cons.prems(2) nk in auto)
  have "alive (ps @ lingering env [(n, key)]) (run_events env repo runners nks)
      = (ps @ lingering env [(n, key)]) @ lingering env nks"
    by (rule Cons.IH) (use Cons.prems nk in \<open>auto simp: lingering_simps\<close>)
  then show ?case by (simp add: nk run_events_simps alive_append a lingering_simps)
qed (simp add: run_events_simps lingering_simps)

text \<open>Who may be up when a runner is invoked.\<close>

definition met :: "harness_env \<Rightarrow> (string \<times> bool) list \<Rightarrow> proc list \<Rightarrow> event \<Rightarrow> bool" where
  "met env nks ps e = (case e of
     Ran c chain addr \<Rightarrow> (\<exists>before key after. nks = before @ (chain, key) # after
       \<and> addr = (if key \<and> wait_port (he_attempt env chain) 5000 then server_name chain else ''-'')
       \<and> ps = lingering env before @ (if addr = ''-'' then lingering env [(chain, key)] else [SServer chain]))
   | _ \<Rightarrow> True)"

lemma watched_ran: "(cs \<noteq> [] \<Longrightarrow> Q ps (Ran (hd cs) n addr)) \<Longrightarrow> (\<And>c. c \<in> set cs \<Longrightarrow> Q ps (Ran c n addr)) \<Longrightarrow>
    watched Q ps (map (\<lambda>c. Ran c n addr) cs)"
  by (induction cs) (auto split: list.splits)

lemma watched_chain:
  assumes "nks = before @ (n, key) # after"
  shows "watched (met env nks) (lingering env before) (chain_events env repo runners n key)"
proof -
  let ?w = "wait_port (he_attempt env n) 5000" and ?ps = "lingering env before"
  have name: "server_name n \<noteq> ''-''" by (simp add: server_name_def)
  have ran: "watched (met env nks) qs (map (\<lambda>c. Ran c n addr) cs)"
    if "addr = (if key \<and> ?w then server_name n else ''-'')"
      "qs = ?ps @ (if addr = ''-'' then lingering env [(n, key)] else [SServer n])" for qs addr cs
    by (rule watched_ran) (use that assms in \<open>auto simp: met_def\<close>)
  consider "\<not> key" | "key" "?w" | "key" "\<not> ?w" by blast
  then show ?thesis
  proof cases
    case 1
    then show ?thesis using ran[of "''-''" ?ps] by (simp add: chain_events_def lingering_simps)
  next
    case 2
    then show ?thesis using ran[of "server_name n" "?ps @ [SServer n]"] name
      by (simp add: chain_events_def watched_append met_def[of env nks _ "Spawned _ _"]
          met_def[of env nks _ "Terminated _"] met_def[of env nks _ "Reaped _"])
  next
    case 3
    then show ?thesis using ran[of "''-''" "?ps @ [SServer n]"]
      by (simp add: chain_events_def lingering_simps met_def[of env nks _ "Spawned _ _"]
          met_def[of env nks _ "Terminated _"])
  qed
qed

lemma watched_run:
  "nks = before @ rest \<Longrightarrow> distinct (map fst nks) \<Longrightarrow>
     watched (met env nks) (lingering env before) (run_events env repo runners rest)"
proof (induction rest arbitrary: before)
  case (Cons nk rest)
  obtain n key where nk: "nk = (n, key)" by (cases nk)
  have "SServer n \<notin> set (lingering env before)" using Cons.prems by (auto simp: nk lingering_def)
  then have a: "alive (lingering env before) (chain_events env repo runners n key) = lingering env (before @ [nk])"
    by (simp add: alive_chain nk) (simp add: lingering_def)
  have "watched (met env nks) (lingering env (before @ [nk])) (run_events env repo runners rest)"
    by (rule Cons.IH) (use Cons.prems in simp_all)
  then show ?case using watched_chain[of nks before n key rest env repo runners] Cons.prems(1)
    by (simp add: nk run_events_simps watched_append a[unfolded nk])
qed (simp add: run_events_simps)

lemma exec_runner_run:
  "exec_runner env repo name b server client s = (Inr r, t) \<Longrightarrow>
     running t = running s \<and> trace t = trace s @ [Ran client name server]"
  by (auto simp: exec_runner_def split: sum.splits)

lemma run_cell_run:
  assumes "run_cell env repo name b server client s = (Inr c, t)"
  shows "running t = running s \<and> trace t = trace s @ [Ran client name server]"
proof -
  from assms obtain u r v where u: "mkdir (evidence_dir name client) s = (Inr (), u)"
      "exec_runner env repo name b server client u = (Inr r, v)"
    and rest: "(if rr_code r \<noteq> 0 then ret (Failure (failure_line repo name client r))
      else eseq (redact_tree (he_reads env) repo (evidence_dir name client))
        (ebind (lift (collect_cell repo name client (rr_stdout r))) (\<lambda>(cell, l).
          eseq (print l) (ret (Cell cell))))) v = (Inr c, t)"
    unfolding run_cell_def by (auto simp only: run_simps)
  have "same_procs v (snd ((if b then ret x
      else eseq (redact_tree rd repo d) (ebind (lift q) (\<lambda>(cell, l). eseq (print l) (ret (Cell cell))))) v))"
    for b d q x rd
    by (cases b) (auto simp: split_def intro!: quiet.closed quiet_ops)
  from quiet_run[OF this rest] quiet_run[OF quiet_ops(1) u(1)] exec_runner_run[OF u(2)]
  show ?thesis by simp
qed

lemma run_cells_run:
  assumes "emap (run_cell env repo name b server) runners s = (Inr cs, t)"
  shows "running t = running s \<and> trace t = trace s @ map (\<lambda>c. Ran c name server) runners \<and> length cs = length runners"
  using assms
proof (induction runners arbitrary: s cs)
  case (Cons c runners)
  then show ?case using run_cell_run by (fastforce simp: run_simps)
qed (simp add: run_simps)

lemma harness_chain_steps:
  assumes "harness_chain env repo runners name s = (Inr rs, t)"
  shows "\<exists>b u key. bundle_of name s = (Inr b, u) \<and> exists_file (b @ [''leaf.key'']) u = (Inr key, u)
    \<and> trace t = trace s @ chain_events env repo runners name key
    \<and> running t = alive (running s) (chain_events env repo runners name key) \<and> length rs = length runners"
proof -
  from assms obtain b u key v server live w x where steps:
      "bundle_of name s = (Inr b, u)" "exists_file (b @ [''leaf.key'']) u = (Inr key, v)"
      "start_server env repo name b key v = (Inr (server, live), w)"
      "emap (run_cell env repo name b server) runners w = (Inr rs, x)"
      "stop_server env name live x = (Inr (), t)"
    unfolding harness_chain_def split_def by (auto simp only: run_simps) (metis prod.collapse)
  have v: "v = u" using steps(2) by (simp add: exists_file_def)
  have sv: "running v = running s" "trace v = trace s"
    using quiet_run[OF quiet_bundle steps(1)] by (simp_all add: v)
  have xw: "running x = running w" "trace x = trace w @ map (\<lambda>c. Ran c name server) runners"
      "length rs = length runners"
    using run_cells_run[OF steps(4)] by simp_all
  have "b = bundle_dir name" using steps(1) by (auto simp: bundle_of_def run_simps)
  then have "trace t = trace s @ chain_events env repo runners name key
      \<and> running t = alive (running s) (chain_events env repo runners name key)"
    using steps(3,5) sv xw
    by (cases key; cases "wait_port (he_attempt env name) 5000")
      (auto simp: start_server_def stop_server_def chain_events_def run_simps terminate_def wait_exit_def print_def
        alive_ran alive_ran_end split: if_splits)
  then show ?thesis using steps(1,2) v xw(3) by blast
qed

lemma harness_chains_run:
  assumes "emap (harness_chain env repo runners) names s = (Inr rss, t)"
  shows "\<exists>nks. map fst nks = names \<and> trace t = trace s @ run_events env repo runners nks
    \<and> running t = alive (running s) (run_events env repo runners nks)
    \<and> length rss = length names \<and> (\<forall>rs\<in>set rss. length rs = length runners)"
  using assms
proof (induction names arbitrary: s rss)
  case (Cons n names)
  from Cons.prems obtain rs u qss where u: "harness_chain env repo runners n s = (Inr rs, u)"
      "emap (harness_chain env repo runners) names u = (Inr qss, t)" "rss = rs # qss"
    by (auto simp: run_simps)
  obtain key where key: "trace u = trace s @ chain_events env repo runners n key"
      "running u = alive (running s) (chain_events env repo runners n key)" "length rs = length runners"
    using harness_chain_steps[OF u(1)] by blast
  obtain nks where "map fst nks = names" "trace t = trace u @ run_events env repo runners nks"
      "running t = alive (running u) (run_events env repo runners nks)"
      "length qss = length names" "\<forall>rs\<in>set qss. length rs = length runners"
    using Cons.IH[OF u(2)] by blast
  then show ?case using key u(3)
    by (intro exI[of _ "(n, key) # nks"]) (simp add: run_events_simps alive_append)
qed (simp add: run_simps run_events_simps)

definition chain_names :: "string list" where
  "chain_names = map fst chains"

lemma cells_failures_length: "length (cells_of rs) + length (failures_of rs) = length rs"
  by (induction rs) (auto simp: cells_of_def failures_of_def split: collected.splits)

lemma harness_main_run:
  assumes "harness_main env repo runners s = (Inr (), t)"
  shows "\<exists>rss nks u. emap (harness_chain env repo runners) chain_names s = (Inr rss, u)
    \<and> report_cells (cells_of (concat rss)) (failures_of (concat rss)) u = (Inr (), t)
    \<and> map fst nks = chain_names \<and> trace t = trace s @ run_events env repo runners nks
    \<and> running t = alive (running s) (run_events env repo runners nks)
    \<and> length rss = length chain_names \<and> (\<forall>rs\<in>set rss. length rs = length runners)"
proof -
  from assms obtain rss u where u: "emap (harness_chain env repo runners) chain_names s = (Inr rss, u)"
      "report_cells (cells_of (concat rss)) (failures_of (concat rss)) u = (Inr (), t)"
    unfolding harness_main_def chain_names_def by (auto simp: run_simps)
  have "running t = running u \<and> trace t = trace u" by (rule quiet_run[OF quiet_report u(2)])
  then show ?thesis using harness_chains_run[OF u(1)] u by metis
qed

lemma alive_run_mset:
  "mset (alive ps (run_events env repo runners nks)) = mset ps + mset (lingering env nks)"
proof (induction nks arbitrary: ps)
  case (Cons nk nks)
  then show ?case
    by (cases nk) (simp add: run_events_simps alive_append alive_chain_mset lingering_simps)
qed (simp add: run_events_simps lingering_simps)

lemma harness_main_counts:
  assumes "emap (harness_chain env repo runners) chain_names s = (Inr rss, u)"
    and "length rss = length chain_names" and "\<And>rs. rs \<in> set rss \<Longrightarrow> length rs = length runners"
  shows "length (cells_of (concat rss)) + length (failures_of (concat rss)) = length chain_names * length runners"
proof -
  have "length (concat rss) = length rss * length runners"
    using assms(3) by (induction rss) auto
  then show ?thesis using assms(2) cells_failures_length[of "concat rss"] by simp
qed

section \<open>A runner whose output is not JSON\<close>

text \<open>Running a cell, raising or not, starts and stops no process.\<close>

definition same_live :: "'x pworld_scheme \<Rightarrow> 'x pworld_scheme \<Rightarrow> bool" where
  "same_live s t \<longleftrightarrow> running s = running t"

interpretation live: frame same_live
  by unfold_locales (auto simp: same_live_def)

lemma quiet_live: "same_procs s t \<Longrightarrow> same_live s t"
  by (simp add: same_procs_def same_live_def)

lemma run_cell_live: "same_live s (snd (run_cell env repo name b server client s))"
proof -
  have k: "same_live v (snd ((if c then ret x
      else eseq (redact_tree rd repo d) (ebind (lift q) (\<lambda>(cell, l). eseq (print l) (ret (Cell cell))))) v))"
    for c d q x rd and v :: "'a pworld_scheme"
    by (rule quiet_live, cases c) (auto simp: split_def intro!: quiet.closed quiet_ops)
  have e: "same_live v (snd (exec_runner env repo name b server client v))" for v :: "'a pworld_scheme"
    by (auto simp: exec_runner_def same_live_def split: sum.splits)
  show ?thesis unfolding run_cell_def
    by (rule live.eseq, rule quiet_live, rule quiet_ops, rule live.ebind, rule e, rule k)
qed

lemma harness_chain_leak_all:
  assumes "bundle_of name s = (Inr b, u)" and "files u (b @ [''leaf.key'']) \<noteq> None"
    and "start_server env repo name b True u = (Inr (addr, True), v)"
    and "fst (emap (run_cell env repo name b addr) runners v) = Inl e"
  shows "fst (harness_chain env repo runners name s) = Inl e
    \<and> running (snd (harness_chain env repo runners name s)) = running s @ [SServer name]"
proof -
  have "running u = running s" using quiet_run[OF quiet_bundle assms(1)] by simp
  moreover have "running (snd (emap (run_cell env repo name b addr) runners v)) = running v"
    using live.emap[of "run_cell env repo name b addr", OF run_cell_live, of v runners] by (simp add: same_live_def)
  moreover have "running v = running u @ [SServer name]"
    using assms(3) by (auto simp: start_server_def run_simps split: if_splits)
  moreover have "harness_chain env repo runners name s = (Inl e, snd (emap (run_cell env repo name b addr) runners v))"
    using assms
    by (cases "emap (run_cell env repo name b addr) runners v")
      (auto simp: harness_chain_def eseq_def ebind_def exists_file_def)
  ultimately show ?thesis by simp
qed

section \<open>Bundles\<close>

lemma copy_run:
  assumes "copy_file a b s = (Inr (), t)" and "b \<notin> dirs s"
  shows "\<exists>c. files s a = Some c \<and> t = s\<lparr>files := (files s)(b \<mapsto> c)\<rparr>"
  using assms by (auto simp: copy_file_def ebind_def read_file_def write_file_def split: option.splits if_splits)

lemma write_run: "write_file p c s = (Inr (), t) \<Longrightarrow> t = s\<lparr>files := (files s)(p \<mapsto> c)\<rparr>"
  by (auto simp: write_file_def split: if_splits)

lemma read_run: "read_file p s = (Inr c, t) \<Longrightarrow> t = s \<and> files s p = Some c"
  by (auto simp: read_file_def split: option.splits)

lemma exists_run: "exists_file p s = (Inr k, t) \<Longrightarrow> t = s \<and> k = (files s p \<noteq> None \<or> p \<in> dirs s)"
  by (auto simp: exists_file_def)

text \<open>The bundle as an update of the files, for source directories outside the bundle.\<close>

definition bundle_files :: "(path \<Rightarrow> string option) \<Rightarrow> path \<Rightarrow> path \<Rightarrow> path \<Rightarrow> (path \<Rightarrow> string option) \<Rightarrow> bool" where
  "bundle_files f src ca b g \<longleftrightarrow>
     (\<exists>leaf root_c int_c. f (src @ [''leaf.crt'']) = Some leaf \<and> f (ca @ [''root.crt'']) = Some root_c
        \<and> f (ca @ [''int.crt'']) = Some int_c
        \<and> g (b @ [''leaf.crt'']) = Some leaf \<and> g (b @ [''root.crt'']) = Some root_c
        \<and> g (b @ [''int.crt'']) = Some int_c \<and> g (b @ [''chain.pem'']) = Some (leaf @ int_c))
     \<and> g (b @ [''leaf.key'']) = (case f (src @ [''leaf.key'']) of Some k \<Rightarrow> Some k | None \<Rightarrow> f (b @ [''leaf.key'']))
     \<and> (\<forall>p. \<not> prefix b p \<longrightarrow> g p = f p)"

lemma bundle_chain_run:
  assumes run: "bundle_chain src ca b s = (Inr (), t)"
    and free: "\<And>x. b @ [x] \<notin> dirs s" and nokey: "src @ [''leaf.key''] \<notin> dirs s"
    and away: "\<And>x. \<not> prefix b (src @ [x])" "\<And>x. \<not> prefix b (ca @ [x])"
  shows "bundle_files (files s) src ca b (files t)"
proof -
  from run obtain s1 s2 s3 leaf s4 int_c s5 s6 key s7 where steps:
    "copy_file (src @ [''leaf.crt'']) (b @ [''leaf.crt'']) s = (Inr (), s1)"
    "copy_file (ca @ [''root.crt'']) (b @ [''root.crt'']) s1 = (Inr (), s2)"
    "copy_file (ca @ [''int.crt'']) (b @ [''int.crt'']) s2 = (Inr (), s3)"
    "read_file (src @ [''leaf.crt'']) s3 = (Inr leaf, s4)" "read_file (ca @ [''int.crt'']) s4 = (Inr int_c, s5)"
    "write_file (b @ [''chain.pem'']) (leaf @ int_c) s5 = (Inr (), s6)"
    "exists_file (src @ [''leaf.key'']) s6 = (Inr key, s7)"
    "(if key then copy_file (src @ [''leaf.key'']) (b @ [''leaf.key'']) else ret ()) s7 = (Inr (), t)"
    unfolding bundle_chain_def by (auto simp only: run_simps)
  have ne: "src @ [x] \<noteq> b @ [y]" "ca @ [x] \<noteq> b @ [y]" for x y using away[of x] by auto
  obtain c1 where 1: "files s (src @ [''leaf.crt'']) = Some c1" "s1 = s\<lparr>files := (files s)(b @ [''leaf.crt''] \<mapsto> c1)\<rparr>"
    using copy_run[OF steps(1) free] by blast
  obtain c2 where 2: "files s1 (ca @ [''root.crt'']) = Some c2" "s2 = s1\<lparr>files := (files s1)(b @ [''root.crt''] \<mapsto> c2)\<rparr>"
    using copy_run[OF steps(2)] free 1 by auto
  obtain c3 where 3: "files s2 (ca @ [''int.crt'']) = Some c3" "s3 = s2\<lparr>files := (files s2)(b @ [''int.crt''] \<mapsto> c3)\<rparr>"
    using copy_run[OF steps(3)] free 1 2 by auto
  have 4: "s4 = s3" "s5 = s3" "files s3 (src @ [''leaf.crt'']) = Some leaf" "files s3 (ca @ [''int.crt'']) = Some int_c"
    using read_run[OF steps(4)] read_run[OF steps(5)] by auto
  have 6: "s7 = s3\<lparr>files := (files s3)(b @ [''chain.pem''] \<mapsto> leaf @ int_c)\<rparr>"
      "key = (files s (src @ [''leaf.key'']) \<noteq> None)"
    using write_run[OF steps(6)] exists_run[OF steps(7)] 4 1 2 3 ne nokey by auto
  have srcs: "files s3 (src @ [x]) = files s (src @ [x])" "files s3 (ca @ [x]) = files s (ca @ [x])" for x
    using 1 2 3 ne by auto
  have dirs7: "dirs s7 = dirs s" using 1 2 3 6 by simp
  have t: "files t = (case files s (src @ [''leaf.key'']) of
      None \<Rightarrow> files s7 | Some k \<Rightarrow> (files s7)(b @ [''leaf.key''] \<mapsto> k))"
  proof (cases "files s (src @ [''leaf.key''])")
    case None
    then show ?thesis using steps(8) 6(2) by (simp add: run_simps)
  next
    case (Some k)
    then obtain c where c: "files s7 (src @ [''leaf.key'']) = Some c" "t = s7\<lparr>files := (files s7)(b @ [''leaf.key''] \<mapsto> c)\<rparr>"
      using steps(8) 6(2) copy_run[of _ _ s7 t] free dirs7 by fastforce
    moreover have "c = k" using c(1) Some 6(1) srcs(1)[of "''leaf.key''"] ne by simp
    ultimately show ?thesis using Some by simp
  qed
  have other: "src \<noteq> b" "ca \<noteq> b" using away[of "[]"] by auto
  have vals: "c1 = leaf" "c3 = int_c" "files s (src @ [''leaf.crt'']) = Some leaf"
      "files s (ca @ [''root.crt'']) = Some c2" "files s (ca @ [''int.crt'']) = Some int_c"
    using 1 2 3 4 other by simp_all
  have g7: "files s7 = (files s)(b @ [''leaf.crt''] \<mapsto> leaf, b @ [''root.crt''] \<mapsto> c2,
      b @ [''int.crt''] \<mapsto> int_c, b @ [''chain.pem''] \<mapsto> leaf @ int_c)"
    using 1(2) 2(2) 3(2) 6(1) vals(1,2) by simp
  have frame: "files t p = files s p" if "\<not> prefix b p" for p
  proof -
    have "p \<noteq> b @ [x]" for x using that by auto
    then show ?thesis unfolding t g7 by (simp split: option.splits)
  qed
  show ?thesis
    unfolding bundle_files_def
    using vals frame by (simp add: t g7 split: option.splits)
qed

lemma chains_away:
  "getitem chains name = Inr (src, ca) \<Longrightarrow> name \<noteq> ''composite'' \<Longrightarrow>
     \<not> prefix (bundle_dir n) (src @ [x]) \<and> \<not> prefix (bundle_dir n) (ca @ [x])"
  by (auto simp: chains_def gen_dir_def p0_dir_def bundle_dir_def getitem_def split: if_splits)

lemma bundle_of_run:
  assumes "bundle_of name s = (Inr b, t)" and "name \<noteq> ''composite''"
    and "getitem chains name = Inr (src, ca)"
    and "\<And>x. bundle_dir name @ [x] \<notin> dirs s" and "src @ [''leaf.key''] \<notin> dirs s"
    and "src \<noteq> []"
  shows "b = bundle_dir name \<and> bundle_files (files s) src ca b (files t)"
proof -
  from assms(1-3) obtain u where u: "mkdir (bundle_dir name) s = (Inr (), u)"
      "bundle_chain src ca (bundle_dir name) u = (Inr (), t)" "b = bundle_dir name"
    unfolding bundle_of_def by (auto simp: run_simps)
  have u': "files u = files s" "dirs u = dirs s \<union> set (ancestors (bundle_dir name))"
    using u(1) by (auto simp: mkdir_def split: if_splits)
  have anc: "p \<in> set (ancestors (bundle_dir name)) \<Longrightarrow> prefix p (bundle_dir name)" for p
    by (auto simp: ancestors_def take_is_prefix)
  have "bundle_dir name @ [x] \<notin> dirs u" for x
    using assms(4) anc[of "bundle_dir name @ [x]"] u'(2) by (auto dest: prefix_length_le)
  moreover have "src @ [''leaf.key''] \<notin> dirs u"
  proof -
    have "\<not> prefix (src @ [''leaf.key'']) (bundle_dir name)"
      using assms(2,3) by (auto simp: chains_def gen_dir_def p0_dir_def bundle_dir_def getitem_def split: if_splits)
    then show ?thesis using anc assms(5) u'(2) by blast
  qed
  ultimately have "bundle_files (files u) src ca (bundle_dir name) (files t)"
    by (intro bundle_chain_run[OF u(2)]) (use chains_away[OF assms(3,2)] in auto)
  then show ?thesis using u(3) u'(1) by simp
qed

text \<open>Assembling a bundle makes no directory but its own and the ones above it.\<close>

lemma copy_dirs: "copy_file a b s = (Inr (), t) \<Longrightarrow> dirs t = dirs s"
  by (auto simp: copy_file_def ebind_def read_file_def write_file_def split: option.splits if_splits)

lemma bundle_of_dirs:
  assumes "bundle_of name s = (Inr b, t)" and "name \<noteq> ''composite''"
  shows "bundle_dir name @ [x] \<in> dirs t \<longleftrightarrow> bundle_dir name @ [x] \<in> dirs s"
proof -
  from assms obtain src ca u where u: "mkdir (bundle_dir name) s = (Inr (), u)"
      "bundle_chain src ca (bundle_dir name) u = (Inr (), t)"
    unfolding bundle_of_def by (auto simp: run_simps)
  have "dirs t = dirs u"
    using u(2) unfolding bundle_chain_def
    by (auto simp: run_simps read_file_def exists_file_def write_file_def
        split: if_splits option.splits dest!: copy_dirs)
  moreover have "dirs u = dirs s \<union> set (ancestors (bundle_dir name))"
    using u(1) by (auto simp: mkdir_def split: if_splits)
  moreover have "bundle_dir name @ [x] \<notin> set (ancestors (bundle_dir name))"
    by (auto simp: ancestors_def bundle_dir_def)
  ultimately show ?thesis by simp
qed

section \<open>No path is left in the evidence\<close>

lemma prefix_universal: "CHR 0x0D \<notin> set q \<Longrightarrow> prefix q s \<Longrightarrow> prefix q (universal_newlines s)"
proof (induction s arbitrary: q rule: universal_newlines.induct)
  case (2 c q)
  then show ?case by (cases q) auto
next
  case (3 c d s q)
  show ?case
  proof (cases q)
    case (Cons a q')
    with 3 show ?thesis by (cases "c = CHR 0x0D") auto
  qed simp
qed simp

lemma occurs_universal:
  "CHR 0x0D \<notin> set (p # ps) \<Longrightarrow> p \<noteq> CHR 0x0A \<Longrightarrow> occurs (p # ps) s \<Longrightarrow> occurs (p # ps) (universal_newlines s)"
proof (induction s rule: universal_newlines.induct)
  case (2 c)
  then show ?case by (auto simp: occurs_Cons)
next
  case (3 c d s)
  consider "prefix (p # ps) (c # d # s)" | "occurs (p # ps) (d # s)" using 3(6) unfolding occurs_Cons by blast
  then show ?case
  proof cases
    case 1
    then show ?thesis
      using prefix_universal[OF 3(4) 1] unfolding occurs_def by (metis drop0)
  next
    case o: 2
    have "occurs (p # ps) s" if "d = CHR 0x0A" using 3(5) that o by (auto simp: occurs_Cons)
    then show ?thesis using o 3(1,2,3) 3(4,5) by (cases "c = CHR 0x0D") (auto simp: occurs_Cons)
  qed
qed simp

text \<open>Decoding keeps ASCII text where it stands: a sequence swallows no ASCII byte.\<close>

definition ascii :: "char \<Rightarrow> bool" where
  "ascii c \<longleftrightarrow> of_char c < (0x80 :: nat)"

lemma utf8_replace_ascii: "ascii c \<Longrightarrow> utf8_replace (c # s) = c # utf8_replace s"
  by (simp add: utf8_replace.simps ascii_def utf8_ranges_def)

lemma prefix_utf8: "list_all ascii q \<Longrightarrow> prefix q s \<Longrightarrow> prefix q (utf8_replace s)"
proof (induction q arbitrary: s)
  case (Cons a q)
  then show ?case by (cases s) (auto simp: utf8_replace_ascii)
qed simp

lemma utf8_ranges_high:
  "utf8_ranges b = Some rs \<Longrightarrow> (lo, hi) \<in> set rs \<Longrightarrow> 0x80 \<le> lo"
  by (auto simp: utf8_ranges_def Let_def split: if_splits)

lemma continued_not_ascii:
  assumes "\<And>lo hi. (lo, hi) \<in> set rs \<Longrightarrow> 0x80 \<le> lo" and "ascii p"
  shows "p \<notin> set (take (utf8_continued rs s) s)"
  using assms(1)
proof (induction rs s rule: utf8_continued.induct)
  case (1 lo hi rs c s)
  have "0x80 \<le> lo" using 1(2)[of lo hi] by simp
  then show ?case using 1 assms(2) by (auto simp: ascii_def)
qed simp_all

lemma occurs_append: "occurs (p # ps) s \<Longrightarrow> occurs (p # ps) (a @ s)"
  by (induction a) (auto simp: occurs_Cons)

lemma occurs_utf8:
  assumes "list_all ascii (p # ps)" and "occurs (p # ps) s"
  shows "occurs (p # ps) (utf8_replace s)"
  using assms(2)
proof (induction s rule: utf8_replace.induct)
  case (2 c s)
  show ?case
  proof (cases "prefix (p # ps) (c # s)")
    case True
    then show ?thesis using prefix_utf8[OF assms(1) True] unfolding occurs_def by (metis drop0)
  next
    case False
    then have s: "occurs (p # ps) s" using 2(3) by (auto simp: occurs_Cons)
    show ?thesis
    proof (cases "utf8_ranges (of_char c)")
      case None
      then show ?thesis using 2(1)[OF None s] by (simp add: utf8_replace.simps occurs_append)
    next
      case (Some rs)
      let ?k = "utf8_continued rs s"
      have "p \<notin> set (take ?k s)"
        by (rule continued_not_ascii) (use utf8_ranges_high[OF Some] assms(1) in auto)
      then have "occurs (p # ps) (drop ?k s)" using s occurs_append_free[of p "take ?k s" ps "drop ?k s"] by simp
      then show ?thesis using 2(2)[OF Some refl]
        by (simp add: utf8_replace.simps Some Let_def occurs_append del: append_Cons)
    qed
  qed
qed simp

lemma occurs_read:
  assumes "list_all plain (p # ps)" and "occurs (p # ps) s"
  shows "occurs (p # ps) (read_replacing s)"
proof -
  have a: "plain c \<Longrightarrow> ascii c \<and> c \<noteq> CHR 0x0D \<and> c \<noteq> CHR 0x0A" for c
    by (auto simp: plain_def printable_def ascii_def)
  then have "list_all ascii (p # ps)" using assms(1) by (auto simp: list_all_iff)
  moreover have "CHR 0x0D \<notin> set (p # ps)" "p \<noteq> CHR 0x0A" using a assms(1) by (auto simp: list_all_iff)
  ultimately show ?thesis unfolding read_replacing_def using assms(2) by (intro occurs_universal occurs_utf8)
qed

lemma redact_content_clean:
  assumes "plain_path repo"
  shows "\<not> occurs repo (redact_content repo content)"
proof -
  obtain ps where ps: "repo = CHR ''/'' # ps" "list_all plain repo"
    using assms by (auto simp: plain_path_def absolute_def)
  have abs: "absolute repo" using assms by (simp add: plain_path_def)
  show ?thesis
  proof (cases "redact repo (read_replacing content) = read_replacing content")
    case True
    have "\<not> occurs repo (read_replacing content)"
      using redact_removes[OF abs, of "read_replacing content"] unfolding True .
    then have "\<not> occurs repo content" using occurs_read[of "CHR ''/''" ps content] ps by auto
    then show ?thesis using True by (simp add: redact_content_def Let_def)
  next
    case False
    then show ?thesis using redact_removes[OF abs] by (simp add: redact_content_def Let_def)
  qed
qed

lemma redact_content_id: "repo \<noteq> [] \<Longrightarrow> \<not> occurs repo (read_replacing c) \<Longrightarrow> redact_content repo c = c"
  by (simp add: redact_content_def Let_def redact_unchanged)

section \<open>A runner that uses the shared emitter\<close>

lemma redact_no_slash: "absolute r \<Longrightarrow> CHR ''/'' \<notin> set s \<Longrightarrow> redact r s = s"
  by (rule redact_unchanged) (auto simp: absolute_def occurs_iff_sublist sublist_def)

lemma occurs_map_strings_free:
  assumes "absolute r"
  shows "redact r ''client'' = ''client''" "redact r ''client_version'' = ''client_version''"
    "redact r ''tests'' = ''tests''" "redact r ''status'' = ''status''" "redact r ''detail'' = ''detail''"
    "redact r ''parse'' = ''parse''" "redact r ''verify'' = ''verify''" "redact r ''handshake'' = ''handshake''"
    "redact r ''ok'' = ''ok''" "redact r ''fail'' = ''fail''" "redact r ''skip'' = ''skip''"
  by (simp_all add: redact_no_slash[OF assms])

definition redacted_test :: "string \<Rightarrow> test_cell \<Rightarrow> json" where
  "redacted_test repo c = JObj [(''status'', JStr (tc_status c)), (''detail'', JStr (redact repo (tc_detail c)))]"

lemma map_strings_test:
  "absolute r \<Longrightarrow> cell fs rc arg = Inr c \<Longrightarrow> map_strings (redact r) (test_json c) = redacted_test r c"
  using cell_status[of fs rc arg c]
  by (auto simp: test_json_def redacted_test_def occurs_map_strings_free)

lemma emit_three_run:
  assumes "emit_main fs [client, version, ''parse'', rc1, f1, ''verify'', rc2, f2, ''handshake'', rc3, f3] = Inr stdout"
  obtains c1 c2 c3 where "cell fs rc1 f1 = Inr c1" "cell fs rc2 f2 = Inr c2" "cell fs rc3 f3 = Inr c3"
    "stdout = dumps (cell_json client version [(''parse'', c1), (''verify'', c2), (''handshake'', c3)]) @ [CHR 0x0A]"
  using assms by (auto simp: emit_main_def res_simps)

lemma collect_emitted_all:
  assumes "plain_path repo"
    and "emit_main fs [client, version, ''parse'', rc1, f1, ''verify'', rc2, f2, ''handshake'', rc3, f3] = Inr stdout"
  shows "\<exists>c1 c2 c3 l.
    cell fs rc1 f1 = Inr c1 \<and> cell fs rc2 f2 = Inr c2 \<and> cell fs rc3 f3 = Inr c3 \<and>
    collect_cell repo name runner stdout = Inr (JObj [(''client'', JStr (redact repo client)),
      (''client_version'', JStr (redact repo version)),
      (''tests'', JObj [(''parse'', redacted_test repo c1), (''verify'', redacted_test repo c2),
        (''handshake'', redacted_test repo c3)]), (''chain'', JStr name)], l)"
proof -
  obtain c1 c2 c3 where c: "cell fs rc1 f1 = Inr c1" "cell fs rc2 f2 = Inr c2" "cell fs rc3 f3 = Inr c3"
    and out: "stdout = dumps (cell_json client version [(''parse'', c1), (''verify'', c2), (''handshake'', c3)]) @ [CHR 0x0A]"
    using emit_three_run[OF assms(2)] .
  have abs: "absolute repo" using assms(1) by (simp add: plain_path_def)
  let ?v = "cell_json client version [(''parse'', c1), (''verify'', c2), (''handshake'', c3)]"
  let ?w = "JObj [(''client'', JStr (redact repo client)), (''client_version'', JStr (redact repo version)),
      (''tests'', JObj [(''parse'', redacted_test repo c1), (''verify'', redacted_test repo c2),
        (''handshake'', redacted_test repo c3)])]"
  have w: "map_strings (redact repo) ?v = ?w"
    using map_strings_test[OF abs c(1)] map_strings_test[OF abs c(2)] map_strings_test[OF abs c(3)]
    by (simp add: cell_json_def occurs_map_strings_free[OF abs])
  have "loads (redact repo stdout) = Inr ?w"
    using loads_redact_dumps[OF assms(1), of ?v] unfolding out w
    by (simp add: cell_json_ok redacted_test_def)
  then show ?thesis
    using c by (simp add: collect_cell_def tag_chain_def cell_line_def status_of_def redacted_test_def fmt4_def getitem_def)
qed

section \<open>The matrix shows the cells\<close>

text \<open>The reference: each cell read once, as chain, client, version and tests.\<close>

definition read_cell :: "json \<Rightarrow> (string \<times> string \<times> json \<times> json) res" where
  "read_cell c =
     rbind (str_field c ''client'') (\<lambda>client.
     rbind (str_field c ''chain'') (\<lambda>chain.
     rbind (jget c ''tests'') (\<lambda>tests.
     rbind (jget c ''client_version'') (\<lambda>version.
     Inr (chain, client, version, tests)))))"

definition cell_clients :: "(string \<times> string \<times> json \<times> json) list \<Rightarrow> string list" where
  "cell_clients rows = sorted_set (map (\<lambda>(ch, cl, v, t). cl) rows)"

definition cell_tests :: "(string \<times> string \<times> json \<times> json) list \<Rightarrow> ((string \<times> string), json) dict" where
  "cell_tests rows = dict_of (map (\<lambda>(ch, cl, v, t). ((ch, cl), t)) rows)"

lemma read_cells:
  assumes "traverse cell_client cells = Inr cls" and "traverse cell_test cells = Inr ts"
    and "traverse cell_version cells = Inr vs"
  shows "\<exists>rows. traverse read_cell cells = Inr rows \<and> cls = map (\<lambda>(ch, cl, v, t). cl) rows
    \<and> ts = map (\<lambda>(ch, cl, v, t). ((ch, cl), t)) rows \<and> vs = map (\<lambda>(ch, cl, v, t). (cl, v)) rows"
  using assms
proof (induction cells arbitrary: cls ts vs)
  case (Cons c cells)
  from Cons.prems obtain cl kt kv cls' ts' vs' where h: "cell_client c = Inr cl" "cell_test c = Inr kt"
      "cell_version c = Inr kv" and rest: "traverse cell_client cells = Inr cls'" "traverse cell_test cells = Inr ts'"
      "traverse cell_version cells = Inr vs'" "cls = cl # cls'" "ts = kt # ts'" "vs = kv # vs'"
    by (auto simp: rbind_Inr_iff)
  from h obtain ch t v where r: "str_field c ''client'' = Inr cl" "str_field c ''chain'' = Inr ch"
      "jget c ''tests'' = Inr t" "jget c ''client_version'' = Inr v" "kt = ((ch, cl), t)" "kv = (cl, v)"
    by (auto simp: cell_client_def cell_test_def cell_version_def rbind_Inr_iff)
  from Cons.IH[OF rest(1-3)] obtain rows where rows: "traverse read_cell cells = Inr rows"
      "cls' = map (\<lambda>(ch, cl, v, t). cl) rows" "ts' = map (\<lambda>(ch, cl, v, t). ((ch, cl), t)) rows"
      "vs' = map (\<lambda>(ch, cl, v, t). (cl, v)) rows" by blast
  have "read_cell c = Inr (ch, cl, v, t)" by (simp add: read_cell_def r)
  then show ?case using rows r(5,6) rest(4-6) by (intro exI[of _ "(ch, cl, v, t) # rows"]) (simp add: split_def)
qed simp


lemma mark_of_Inr: "mark_of v = Inr m \<longleftrightarrow>
  v = JStr ''ok'' \<and> m = ''&check;'' \<or> v = JStr ''fail'' \<and> m = ''&cross;'' \<or> v = JStr ''skip'' \<and> m = ''&ndash;''"
  by (auto simp: mark_of_def marks_def getitem_def split: json.splits if_splits)

lemma test_marks_Inr:
  "test_marks t = Inr m \<longleftrightarrow> (\<exists>a b c sa sb sc. status_of t ''parse'' = Inr sa \<and> mark_of sa = Inr a
     \<and> status_of t ''verify'' = Inr sb \<and> mark_of sb = Inr b
     \<and> status_of t ''handshake'' = Inr sc \<and> mark_of sc = Inr c
     \<and> m = a @ '' / '' @ b @ '' / '' @ c)"
  by (auto simp: test_marks_def res_simps)

text \<open>The row of a chain: one entry per client, from the last cell of the pair.\<close>

definition pair_cell :: "(string \<times> string \<times> json \<times> json) list \<Rightarrow> string \<Rightarrow> string \<Rightarrow> json option" where
  "pair_cell rows chain client =
     map_option (\<lambda>(ch, cl, v, t). t) (find (\<lambda>(ch, cl, v, t). ch = chain \<and> cl = client) (rev rows))"

lemma map_of_find:
  "map_of (map (\<lambda>(ch, cl, v, t). ((ch, cl), t)) rows) (chain, client)
    = map_option (\<lambda>(ch, cl, v, t). t) (find (\<lambda>(ch, cl, v, t). ch = chain \<and> cl = client) rows)"
  by (induction rows) auto

lemma cell_tests_pair: "map_of (cell_tests rows) (chain, client) = pair_cell rows chain client"
  by (simp add: cell_tests_def dict_get_of rev_map map_of_find pair_cell_def)

lemma matrix_md_rows:
  assumes "matrix_md cells = Inr md"
  obtains rows table where "traverse read_cell cells = Inr rows"
    "traverse (matrix_row (cell_tests rows) (cell_clients rows)) chain_names = Inr table"
    "take 8 (drop 9 md) = map table_line table" "length table = 8"
    "md ! 7 = table_line (''Chain'' # cell_clients rows) \<or> cell_clients rows = []"
proof -
  from assms obtain cls ts vs ls table where reads: "traverse cell_client cells = Inr cls"
      "traverse cell_test cells = Inr ts" "traverse cell_version cells = Inr vs"
    and tb: "traverse (matrix_row (dict_of ts) (sorted_set cls)) chain_names = Inr table"
    and ml: "md = [''# Client compatibility matrix'', '''',
         ''Generated by `runners/harness.py` from `results/results.json`; do not'',
         ''hand-edit. Cell format: parse / offline chain verify / TLS 1.3 handshake.'',
         ''&check; ok, &cross; fail, &ndash; skipped. Exact client error text lives in'',
         ''`results/results.json` and raw output in `results/evidence/`.'', '''',
         ''| Chain | '' @ join '' | '' (sorted_set cls) @ '' |'',
         ''|---|'' @ concat (replicate (length (sorted_set cls)) ''---|'')]
       @ map table_line table @ ['''', ''Client versions:'', ''''] @ ls"
    unfolding matrix_md_def Let_def chain_names_def[symmetric] by (auto simp only: res_simps sum.inject)
  from read_cells[OF reads] obtain rows where r: "traverse read_cell cells = Inr rows"
    and cls: "cls = map (\<lambda>(ch, cl, v, t). cl) rows" and ts: "ts = map (\<lambda>(ch, cl, v, t). ((ch, cl), t)) rows" by blast
  have t: "traverse (matrix_row (cell_tests rows) (cell_clients rows)) chain_names = Inr table"
    using tb by (simp add: cls ts cell_tests_def cell_clients_def)
  have md: "md = [''# Client compatibility matrix'', '''',
         ''Generated by `runners/harness.py` from `results/results.json`; do not'',
         ''hand-edit. Cell format: parse / offline chain verify / TLS 1.3 handshake.'',
         ''&check; ok, &cross; fail, &ndash; skipped. Exact client error text lives in'',
         ''`results/results.json` and raw output in `results/evidence/`.'', '''',
         ''| Chain | '' @ join '' | '' (cell_clients rows) @ '' |'',
         ''|---|'' @ concat (replicate (length (cell_clients rows)) ''---|'')]
       @ map table_line table @ ['''', ''Client versions:'', ''''] @ ls"
    using ml by (simp only: cls cell_clients_def)
  have len: "length table = 8" using traverse_length[OF t] by (simp add: chain_names_def chains_def)
  have "take 8 (drop 9 md) = map table_line table" unfolding md by (simp add: len)
  moreover have "md ! 7 = table_line (''Chain'' # cell_clients rows) \<or> cell_clients rows = []"
    by (cases "cell_clients rows") (simp_all add: md table_line_def)
  ultimately show thesis using that r t len by blast
qed

lemma matrix_row_entries:
  assumes "matrix_row (cell_tests rows) clients chain = Inr row"
  shows "length row = Suc (length clients) \<and> hd row = chain"
    and "j < length clients \<Longrightarrow> pair_cell rows chain (clients ! j) = None \<Longrightarrow> row ! Suc j = ''n/a''"
    and "j < length clients \<Longrightarrow> pair_cell rows chain (clients ! j) = Some t \<Longrightarrow> truthy t
       \<Longrightarrow> test_marks t = Inr (row ! Suc j)"
proof -
  from assms obtain cs where cs: "traverse (matrix_cell (cell_tests rows) chain) clients = Inr cs" "row = chain # cs"
    by (auto simp: matrix_row_def res_simps)
  show "length row = Suc (length clients) \<and> hd row = chain" using traverse_length[OF cs(1)] cs(2) by simp
  show "j < length clients \<Longrightarrow> pair_cell rows chain (clients ! j) = None \<Longrightarrow> row ! Suc j = ''n/a''"
    using traverse_nth[OF cs(1), of j] by (simp add: matrix_cell_def cell_tests_pair cs(2))
  show "j < length clients \<Longrightarrow> pair_cell rows chain (clients ! j) = Some t \<Longrightarrow> truthy t
       \<Longrightarrow> test_marks t = Inr (row ! Suc j)"
    using traverse_nth[OF cs(1), of j] by (simp add: matrix_cell_def cell_tests_pair cs(2))
qed

text \<open>The emitted cell as the matrix reads it.\<close>

lemma collect_emitted_read:
  assumes "plain_path repo"
    and "emit_main fs [client, version, ''parse'', rc1, f1, ''verify'', rc2, f2, ''handshake'', rc3, f3] = Inr stdout"
  shows "\<exists>c1 c2 c3 v l m. cell fs rc1 f1 = Inr c1 \<and> cell fs rc2 f2 = Inr c2 \<and> cell fs rc3 f3 = Inr c3
    \<and> collect_cell repo name runner stdout = Inr (v, l)
    \<and> read_cell v = Inr (name, redact repo client, JStr (redact repo version), JObj [(''parse'', redacted_test repo c1),
        (''verify'', redacted_test repo c2), (''handshake'', redacted_test repo c3)])
    \<and> test_marks (JObj [(''parse'', redacted_test repo c1), (''verify'', redacted_test repo c2),
        (''handshake'', redacted_test repo c3)]) = Inr m"
proof -
  obtain c1 c2 c3 l where c: "cell fs rc1 f1 = Inr c1" "cell fs rc2 f2 = Inr c2" "cell fs rc3 f3 = Inr c3"
    and v: "collect_cell repo name runner stdout = Inr (JObj [(''client'', JStr (redact repo client)),
      (''client_version'', JStr (redact repo version)),
      (''tests'', JObj [(''parse'', redacted_test repo c1), (''verify'', redacted_test repo c2),
        (''handshake'', redacted_test repo c3)]), (''chain'', JStr name)], l)"
    using collect_emitted_all[OF assms, of name runner] by blast
  have mark: "\<exists>m. mark_of (JStr (tc_status c)) = Inr m" if "cell fs rc f = Inr c" for rc f c
    using cell_status[OF that] mark_of_Inr by auto
  have "\<exists>m. test_marks (JObj [(''parse'', redacted_test repo c1), (''verify'', redacted_test repo c2),
        (''handshake'', redacted_test repo c3)]) = Inr m"
    using mark[OF c(1)] mark[OF c(2)] mark[OF c(3)]
    by (auto simp: test_marks_Inr status_of_def redacted_test_def getitem_def)
  then show ?thesis
    using c v by (auto simp: read_cell_def str_field_def getitem_def)
qed

section \<open>Properties\<close>

definition sample_henv :: "int \<Rightarrow> harness_env" where
  "sample_henv code = \<lparr>he_spawn = (\<lambda>_. Inr ()), he_attempt = (\<lambda>_ _. (True, 0)), he_exits = (\<lambda>_. True), he_reads = (\<lambda>_. True),
     he_run = (\<lambda>_ _. Inr \<lparr>rr_code = code, rr_stdout = ''x'', rr_stderr = ''no image'', rr_files = []\<rparr>)\<rparr>"

definition sample_hworld :: pworld where
  "sample_hworld = \<lparr>files = (\<lambda>p. if p \<noteq> [] \<and> hd p \<in> set [''gen'', ''phase0'', ''composite''] then Some ''pem'' else None),
     dirs = {[]}, out = [], running = [], trace = []\<rparr>"

lemma sample_harness_ok: "fst (harness_main (sample_henv 1) ''/r'' [''c''] sample_hworld) = Inr ()"
  by code_simp

lemma sample_bundle: "fst (bundle_of ''ecdsa'' sample_hworld) = Inr (bundle_dir ''ecdsa'')"
  by code_simp


lemma sample_port: "lingering (sample_henv code) nks = []"
  by (simp add: lingering_def sample_henv_def wait_port_def wait_until.simps)




text \<open>
  C19: what is served is the chain.  When the harness handles a chain other than the
  self-signed one to the end, the server it starts is given the files of a bundle that
  holds the chain: leaf, intermediate and root are the source files, \<open>chain.pem\<close> is the
  leaf followed by the intermediate, the key is the chain's key or, when it has none,
  whatever key an earlier run left there, and no file outside the bundle was changed by
  assembling it; a server is started exactly when the bundle has a key.
\<close>

theorem server_serves_bundle:
  assumes "harness_chain env repo runners name s = (Inr rs, t)" and "name \<noteq> ''composite''"
    and "getitem chains name = Inr (src, ca)"
    and "\<And>x. bundle_dir name @ [x] \<notin> dirs s" and "src @ [''leaf.key''] \<notin> dirs s"
  shows "\<exists>u. bundle_of name s = (Inr (bundle_dir name), u)
    \<and> bundle_files (files s) src ca (bundle_dir name) (files u)
    \<and> trace t = trace s @ chain_events env repo runners name (files u (bundle_dir name @ [''leaf.key'']) \<noteq> None)
    \<and> (\<forall>p argv. Spawned p argv \<in> set (chain_events env repo runners name (files u (bundle_dir name @ [''leaf.key'']) \<noteq> None))
         \<longrightarrow> p = SServer name \<and> serves repo (bundle_dir name) argv)"
proof -
  have "src \<noteq> []" using assms(2,3) by (auto simp: chains_def gen_dir_def p0_dir_def getitem_def split: if_splits)
  obtain b u key where u: "bundle_of name s = (Inr b, u)" "exists_file (b @ [''leaf.key'']) u = (Inr key, u)"
      "trace t = trace s @ chain_events env repo runners name key"
    using harness_chain_steps[OF assms(1)] by blast
  have b: "b = bundle_dir name" "bundle_files (files s) src ca b (files u)"
    using bundle_of_run[OF u(1) assms(2-5) \<open>src \<noteq> []\<close>] by blast+
  have "key = (files u (b @ [''leaf.key'']) \<noteq> None)"
    using u(2) bundle_of_dirs[OF u(1) assms(2), of "''leaf.key''"] assms(4) b(1) by (auto simp: exists_file_def)
  then show ?thesis using u b chain_server_serves by auto
qed

lemma sample_chain_ok: "fst (harness_chain (sample_henv 1) ''/r'' [''c''] ''ecdsa'' sample_hworld) = Inr [Failure ''c/ecdsa: rc=1 no image'']"
  by code_simp

theorem server_serves_bundle_witness:
  "\<exists>u. bundle_of ''ecdsa'' sample_hworld = (Inr (bundle_dir ''ecdsa''), u)
    \<and> files u (bundle_dir ''ecdsa'' @ [''chain.pem'']) = Some ''pempem''"
proof -
  have c: "harness_chain (sample_henv 1) ''/r'' [''c''] ''ecdsa'' sample_hworld = (Inr [Failure ''c/ecdsa: rc=1 no image''],
      snd (harness_chain (sample_henv 1) ''/r'' [''c''] ''ecdsa'' sample_hworld))"
    using sample_chain_ok by (metis prod.collapse)
  have src: "getitem chains ''ecdsa'' = Inr (gen_dir @ [''ecdsa''], gen_dir @ [''ecdsa''])"
    by (simp add: getitem_def chains_def)
  from server_serves_bundle[OF c _ src] show ?thesis
    by (auto simp: bundle_files_def sample_hworld_def gen_dir_def bundle_dir_def)
qed

text \<open>
  C27: evidence that can be read holds no path of the checkout.  For a checkout whose
  path is printable ASCII without quotes and backslashes, after \<open>redact_tree\<close> no readable
  file below the directory contains the path, the set of files is the same, files whose
  text is read without the path keep their bytes, and files elsewhere and files that cannot be read, which the
  code skips, are untouched, so that a path in them stays.
\<close>

theorem evidence_clean:
  assumes "plain_path repo"
  shows "\<forall>p. case files (snd (redact_tree readable repo d s)) p of
      None \<Rightarrow> files s p = None
    | Some c \<Rightarrow> (\<exists>c0. files s p = Some c0
        \<and> (if below d p \<and> readable p then \<not> occurs repo c else c = c0)
        \<and> (if occurs repo (read_replacing c0) then True else c = c0))"
proof
  fix p
  have "repo \<noteq> []" using assms by (auto simp: plain_path_def absolute_def)
  then show "case files (snd (redact_tree readable repo d s)) p of
      None \<Rightarrow> files s p = None
    | Some c \<Rightarrow> (\<exists>c0. files s p = Some c0
        \<and> (if below d p \<and> readable p then \<not> occurs repo c else c = c0)
        \<and> (if occurs repo (read_replacing c0) then True else c = c0))"
    using redact_content_clean[OF assms] redact_content_id[of repo]
    by (cases "files s p") (auto simp: redact_tree_def modify_def split: option.splits)
qed

theorem evidence_clean_witness:
  "\<not> occurs ''/r/x'' (the (files (snd (redact_tree (\<lambda>p. p = [''e'', ''a'']) ''/r/x'' [''e'']
      (sample_hworld\<lparr>files := (\<lambda>_. Some ''at /r/x/leaf'')\<rparr>))) [''e'', ''a'']))
    \<and> files (snd (redact_tree (\<lambda>p. p = [''e'', ''a'']) ''/r/x'' [''e'']
      (sample_hworld\<lparr>files := (\<lambda>_. Some ''at /r/x/leaf'')\<rparr>))) [''e'', ''b''] = Some ''at /r/x/leaf''"
proof -
  have "plain_path ''/r/x''" by (simp add: plain_path_def absolute_def plain_def printable_def)
  note clean = evidence_clean[OF this, where readable = "\<lambda>p. p = [''e'', ''a'']" and d = "[''e'']"
      and s = "sample_hworld\<lparr>files := (\<lambda>_. Some ''at /r/x/leaf'')\<rparr>"]
  show ?thesis
    using clean[rule_format, of "[''e'', ''a'']"] clean[rule_format, of "[''e'', ''b'']"]
    by (auto simp: below_def redact_tree_def modify_def)
qed

text \<open>
  C22: from a runner's log to the cell.  When a runner reports through the shared emitter
  and the checkout's absolute path is printable ASCII without a quote or a backslash, so
  that JSON does not escape it, the harness decodes exactly the emitter's cell, its
  statuses unchanged, the client's name, its version and every detail redacted, tagged
  with the chain, and the matrix can render it.
\<close>

theorem emitted_cell_collected:
  assumes "plain_path repo"
    and "emit_main fs [client, version, ''parse'', rc1, f1, ''verify'', rc2, f2, ''handshake'', rc3, f3] = Inr stdout"
  shows "\<exists>c1 c2 c3 v l m. cell fs rc1 f1 = Inr c1 \<and> cell fs rc2 f2 = Inr c2 \<and> cell fs rc3 f3 = Inr c3
    \<and> collect_cell repo name runner stdout = Inr (v, l)
    \<and> read_cell v = Inr (name, redact repo client, JStr (redact repo version), JObj [(''parse'', redacted_test repo c1),
        (''verify'', redacted_test repo c2), (''handshake'', redacted_test repo c3)])
    \<and> test_marks (JObj [(''parse'', redacted_test repo c1), (''verify'', redacted_test repo c2),
        (''handshake'', redacted_test repo c3)]) = Inr m"
  using assms by (rule collect_emitted_read)

lemma sample_emitted:
  "\<exists>stdout. emit_main (\<lambda>_. None) [''python'', ''3.13'', ''parse'', ''skip'', ''a'', ''verify'', ''skip'', ''b'',
     ''handshake'', ''skip'', ''at /r/x''] = Inr stdout"
  by (simp add: emit_main_def cell_def)

theorem emitted_cell_collected_witness:
  "\<exists>stdout v l. emit_main (\<lambda>_. None) [''python'', ''3.13'', ''parse'', ''skip'', ''a'', ''verify'', ''skip'', ''b'',
     ''handshake'', ''skip'', ''at /r/x''] = Inr stdout \<and> collect_cell ''/r'' ''ecdsa'' ''python'' stdout = Inr (v, l)"
proof -
  have p: "plain_path ''/r''" by (simp add: plain_path_def absolute_def plain_def printable_def)
  obtain stdout where o: "emit_main (\<lambda>_. None) [''python'', ''3.13'', ''parse'', ''skip'', ''a'', ''verify'', ''skip'', ''b'',
     ''handshake'', ''skip'', ''at /r/x''] = Inr stdout" using sample_emitted by blast
  show ?thesis using emitted_cell_collected[OF p o, of "''ecdsa''" "''python''"] o by blast
qed

definition entry_ok :: "json option \<Rightarrow> string \<Rightarrow> bool" where
  "entry_ok c e = (case c of None \<Rightarrow> e = ''n/a'' | Some t \<Rightarrow> if truthy t then test_marks t = Inr e else e = ''n/a'')"

definition row_ok :: "(string \<times> string \<times> json \<times> json) list \<Rightarrow> string list \<Rightarrow> string \<Rightarrow> string list \<Rightarrow> bool" where
  "row_ok rows clients chain row \<longleftrightarrow> hd row = chain \<and> row \<noteq> []
     \<and> list_all2 (\<lambda>client e. entry_ok (pair_cell rows chain client) e) clients (tl row)"

lemma matrix_row_ok:
  "matrix_row (cell_tests rows) clients chain = Inr row \<Longrightarrow> row_ok rows clients chain row"
  by (auto simp: matrix_row_def row_ok_def entry_ok_def res_simps traverse_list_all2 matrix_cell_def cell_tests_pair
      elim!: list_all2_mono split: option.splits if_splits)

text \<open>
  C17: the matrix shows the cells.  When \<open>MATRIX.md\<close> is rendered, it has one line per
  chain in the order of \<open>CHAINS\<close>, each with one entry per client, clients sorted and
  without repetition; the entry of a pair is \<open>n/a\<close> when no cell has it, else the three
  marks of the last such cell, whose statuses are all ok, fail or skip.
\<close>

theorem matrix_shows_cells:
  assumes "matrix_md cells = Inr md"
  shows "\<exists>rows table. traverse read_cell cells = Inr rows \<and> take 8 (drop 9 md) = map table_line table
    \<and> list_all2 (row_ok rows (cell_clients rows)) chain_names table
    \<and> sorted (cell_clients rows) \<and> distinct (cell_clients rows)
    \<and> set (cell_clients rows) = (\<lambda>(ch, cl, v, t). cl) ` set rows"
proof -
  from assms obtain rows table where r: "traverse read_cell cells = Inr rows"
      "traverse (matrix_row (cell_tests rows) (cell_clients rows)) chain_names = Inr table"
      "take 8 (drop 9 md) = map table_line table"
    by (rule matrix_md_rows) blast
  have "list_all2 (row_ok rows (cell_clients rows)) chain_names table"
    using r(2) unfolding traverse_list_all2 by (rule list_all2_mono) (rule matrix_row_ok)
  then show ?thesis
    using r sorted_set_strict by (intro exI[of _ rows] exI[of _ table]) (simp add: cell_clients_def)
qed

definition sample_cells :: "json list" where
  "sample_cells = [JObj [(''client'', JStr ''go''), (''client_version'', JStr ''1''), (''tests'', JObj
     (map (\<lambda>(k, st). (k, JObj [(''status'', JStr st), (''detail'', JStr [])]))
       [(''parse'', ''ok''), (''verify'', ''fail''), (''handshake'', ''skip'')])), (''chain'', JStr ''ecdsa'')]]"

theorem matrix_shows_cells_witness:
  "\<exists>md table. matrix_md sample_cells = Inr md \<and> take 8 (drop 9 md) = map table_line table \<and> length table = 8"
proof -
  have "\<not> isl (matrix_md sample_cells)" by code_simp
  then obtain md where md: "matrix_md sample_cells = Inr md" by (cases "matrix_md sample_cells") auto
  have "length chain_names = 8" by (simp add: chain_names_def chains_def)
  moreover obtain table where "take 8 (drop 9 md) = map table_line table" "length chain_names = length table"
    using matrix_shows_cells[OF md] list_all2_lengthD by blast
  ultimately show ?thesis using md by metis
qed

end
