(* ===== verification/Scripts.thy ===== *)
theory Scripts
  imports Harness
begin

text \<open>
  The runners of the repository: the eleven \<open>runners/<client>/run.sh\<close>.  Each is a \<open>bash\<close>
  script of the same build: make its image ready, ask the client for its version, run the
  tests with their output in the evidence directory, and report through \<open>lib/emit.py\<close>.
  The programs a script calls (\<open>docker\<close>, \<open>openssl\<close>, \<open>go\<close>, Windows PowerShell) are the
  environment: a command, what is fed to it and the files give an exit code, what it
  writes to the two streams, and the two as they come together in a log.
\<close>

section \<open>The shell\<close>

record cmd_result =
  cr_code :: int
  cr_out :: string
  cr_err :: string
  cr_both :: string

type_synonym files = "path \<Rightarrow> string option"

type_synonym shell = "string option \<Rightarrow> string list \<Rightarrow> files \<Rightarrow> cmd_result"

text \<open>\<open>${SERVER%%:*}\<close>, \<open>${SERVER##*:}\<close> and \<open>${VER_ALL%%$'\n'*}\<close>.\<close>

definition host_of :: "string \<Rightarrow> string" where
  "host_of server = takeWhile (\<lambda>c. c \<noteq> CHR '':'') server"

definition port_of :: "string \<Rightarrow> string" where
  "port_of server = last (split_on (CHR '':'') server)"

definition first_line :: "string \<Rightarrow> string" where
  "first_line s = takeWhile (\<lambda>c. c \<noteq> CHR 0x0A) s"

text \<open>\<open>tr -d '\r'\<close>, and the output of \<open>$(...)\<close>: without the line feeds at its end.\<close>

definition no_returns :: "string \<Rightarrow> string" where
  "no_returns s = filter (\<lambda>c. c \<noteq> CHR 0x0D) s"

definition substituted :: "string \<Rightarrow> string" where
  "substituted s = rev (dropWhile (\<lambda>c. c = CHR 0x0A) (rev s))"

section \<open>Tests and their logs\<close>

text \<open>
  A test is skipped with a reason, or a command is run with its output in the log:
  \<open>argv > "$EV/name.txt" 2>&1\<close>, with what a pipe feeds to it.  A windowed command has its
  carriage returns removed, and \<open>backfill\<close> gives a log that stayed empty a reason and the
  exit code 1.
\<close>

datatype plan = Skip string | Run "string option" "string list" | Windowed bool "string list"

definition log_path :: "path \<Rightarrow> string \<Rightarrow> path" where
  "log_path ev name = ev @ [name @ ''.txt'']"

definition backfill_text :: string where
  "backfill_text = ''CryptographicException: Invalid algorithm specified (CNG X509Chain.Build; captured via -Command, swallowed by -File host)'' @ [CHR 0x0A]"

definition backfill :: "int \<times> string \<Rightarrow> int \<times> string" where
  "backfill r = (if snd r = [] then (1, backfill_text) else r)"

fun logged :: "shell \<Rightarrow> plan \<Rightarrow> files \<Rightarrow> (int \<times> string) option" where
  "logged sh (Skip why) fs = None"
| "logged sh (Run fed argv) fs = (let r = sh fed argv fs in Some (cr_code r, cr_both r))"
| "logged sh (Windowed fill argv) fs = (let r = sh None argv fs; l = (cr_code r, no_returns (cr_both r)) in
     Some (if fill then backfill l else l))"

text \<open>
  The arguments for the emitter and the log of a test.  The redirection empties the log
  before the command starts.
\<close>

definition run_plan :: "shell \<Rightarrow> string \<Rightarrow> path \<Rightarrow> string \<Rightarrow> plan \<Rightarrow> files \<Rightarrow> string list \<times> (path \<times> string) list" where
  "run_plan sh repo ev name p fs = (let log = log_path ev name in
     case logged sh p (fs(log \<mapsto> [])) of
       None \<Rightarrow> ([name, ''skip'', (case p of Skip why \<Rightarrow> why | _ \<Rightarrow> [])], [])
     | Some (rc, text) \<Rightarrow> ([name, str_int rc, abs_path repo log], [(log, text)]))"

fun run_plans :: "shell \<Rightarrow> string \<Rightarrow> path \<Rightarrow> (string \<times> plan) list \<Rightarrow> files \<Rightarrow> string list \<times> (path \<times> string) list" where
  "run_plans sh repo ev [] fs = ([], [])"
| "run_plans sh repo ev ((name, p) # ps) fs =
     (let (as, ls) = run_plan sh repo ev name p fs; (bs, ms) = run_plans sh repo ev ps (fs ++ map_of ls) in
      (as @ bs, ls @ ms))"

section \<open>A script\<close>

text \<open>
  What a script does before its tests: first commands, each with whether its failure ends
  the script (\<open>set -e\<close>), the image with its build directory, the version command and what
  is made of its output.
\<close>

record script =
  sc_client :: string
  sc_first :: "(bool \<times> string list) list"
  sc_image :: "(string \<times> string) option"
  sc_version :: "string list"
  sc_shown :: "string \<Rightarrow> string"
  sc_plans :: "(string \<times> plan) list"

text \<open>The commands until the tests, each with whether it must succeed.\<close>

definition image_step :: "shell \<Rightarrow> script \<Rightarrow> files \<Rightarrow> (bool \<times> cmd_result) list" where
  "image_step sh sc fs = (case sc_image sc of None \<Rightarrow> []
     | Some (img, dir) \<Rightarrow>
         if cr_code (sh None [''docker'', ''image'', ''inspect'', img] fs) = 0 then []
         else [(True, sh None [''docker'', ''build'', ''-q'', ''-t'', img, dir] fs)])"

definition steps_before :: "shell \<Rightarrow> script \<Rightarrow> files \<Rightarrow> (bool \<times> cmd_result) list" where
  "steps_before sh sc fs = map (\<lambda>(must, argv). (must, sh None argv fs)) (sc_first sc) @ image_step sh sc fs
     @ [(True, sh None (sc_version sc) fs)]"

definition goes_on :: "bool \<times> cmd_result \<Rightarrow> bool" where
  "goes_on step \<longleftrightarrow> (fst step \<longrightarrow> cr_code (snd step) = 0)"

text \<open>\<open>open(path)\<close> in \<open>emit.py\<close>: a file below the checkout by its absolute path.\<close>

definition path_of :: "string \<Rightarrow> string \<Rightarrow> path option" where
  "path_of repo s = (if prefix (repo @ ''/'') s then Some (split_on (CHR ''/'') (drop (length repo + 1) s)) else None)"

definition read_path :: "string \<Rightarrow> files \<Rightarrow> string \<Rightarrow> string option" where
  "read_path repo fs s = (case path_of repo s of None \<Rightarrow> None | Some p \<Rightarrow> fs p)"

text \<open>
  Standard error holds what the first commands write; the harness looks at it when the
  script fails.
\<close>

definition run_script :: "shell \<Rightarrow> string \<Rightarrow> path \<Rightarrow> script \<Rightarrow> files \<Rightarrow> run_result" where
  "run_script sh repo ev sc fs =
     (let steps = steps_before sh sc fs; done' = takeWhile goes_on steps in
      if length done' < length steps
      then (let r = snd (steps ! length done') in
        \<lparr>rr_code = cr_code r, rr_stdout = [], rr_stderr = concat (map (cr_err \<circ> snd) done') @ cr_err r, rr_files = []\<rparr>)
      else (let version = sc_shown sc (cr_out (snd (last steps))); (args, logs) = run_plans sh repo ev (sc_plans sc) fs;
                err = concat (map (cr_err \<circ> snd) steps) in
        case emit_main (read_path repo (fs ++ map_of logs)) ([sc_client sc, version] @ args) of
          Inl _ \<Rightarrow> \<lparr>rr_code = 1, rr_stdout = [], rr_stderr = err @ ''Traceback'', rr_files = logs\<rparr>
        | Inr stdout \<Rightarrow> \<lparr>rr_code = 0, rr_stdout = stdout, rr_stderr = err, rr_files = logs\<rparr>))"

section \<open>The scripts of the repository\<close>

text \<open>
  The directories given to a script exist and are absolute (the harness makes them), so
  that \<open>cd "$1" && pwd\<close> gives the argument back; \<open>b\<close> is the bundle's path below the
  checkout.
\<close>

definition script_dir :: "string \<Rightarrow> string \<Rightarrow> string" where
  "script_dir repo client = abs_path repo [''runners'', client]"

definition docker_host :: "string \<Rightarrow> string" where
  "docker_host server = (if server = ''-'' then ''matrix.test'' else host_of server)"

definition int_arg :: "files \<Rightarrow> path \<Rightarrow> string \<Rightarrow> string" where
  "int_arg fs b p = (if fs (b @ [''int.crt'']) \<noteq> None then p else ''-'')"

definition if_served :: "string \<Rightarrow> plan \<Rightarrow> plan" where
  "if_served server p = (if server \<noteq> ''-'' then p else Skip ''no server for this chain'')"

definition bundle_mount :: "string \<Rightarrow> path \<Rightarrow> string list" where
  "bundle_mount repo b = [''-v'', abs_path repo b @ '':/b:ro'']"

definition dock :: "string \<Rightarrow> path \<Rightarrow> string \<Rightarrow> string list \<Rightarrow> string list \<Rightarrow> string list" where
  "dock repo b server mounts img =
     [''docker'', ''run'', ''--rm'', ''--network'', ''host'', ''--add-host'', docker_host server @ '':127.0.0.1'']
     @ bundle_mount repo b @ mounts @ img"

definition script_mount :: "string \<Rightarrow> string \<Rightarrow> string list" where
  "script_mount repo client = [''-v'', script_dir repo client @ '':/r:ro'']"

text \<open>The clients that take \<open>parse\<close>, \<open>verify\<close> and \<open>handshake\<close> as subcommands.\<close>

definition client_plans :: "string list \<Rightarrow> string \<Rightarrow> string \<Rightarrow> (string \<times> plan) list" where
  "client_plans client ca server =
     [(''parse'', Run None (client @ [''parse'', ''/b/leaf.crt''])),
      (''verify'', Run None (client @ [''verify'', ''/b/root.crt'', ca, ''/b/leaf.crt''])),
      (''handshake'', if_served server
         (Run None (client @ [''handshake'', ''/b/root.crt'', docker_host server, port_of server])))]"

definition bouncycastle_script :: "shell \<Rightarrow> string \<Rightarrow> path \<Rightarrow> string \<Rightarrow> files \<Rightarrow> script" where
  \<open>bouncycastle_script sh repo b server fs =
     (let img = ''pqm-runner-bouncycastle'';
          client = [''docker'', ''run'', ''--rm''] @ bundle_mount repo b
            @ [img, ''java'', ''-cp'', ''/app/classes:/app/lib/*'', ''Client''] in
      \<lparr>sc_client = ''bouncycastle'', sc_first = [], sc_image = Some (img, script_dir repo ''bouncycastle''),
       sc_version = [''docker'', ''run'', ''--rm'', img, ''bash'', ''-c'',
         ''ls /app/lib/bcprov-jdk18on-*.jar | sed "s|.*bcprov-jdk18on-||; s|'' @ [CHR 0x5C] @ ''.jar||"''],
       sc_shown = (\<lambda>out'. ''Bouncy Castle '' @ first_line out' @ '' (JCA provider, JDK 21)''),
       sc_plans = [(''parse'', Run None (client @ [''parse'', ''/b/leaf.crt''])),
         (''verify'', Run None (client @ [''verify'', ''/b/root.crt'', int_arg fs b ''/b/int.crt'', ''/b/leaf.crt''])),
         (''handshake'', Skip ''cert-path column by design; BC JSSE is a separate stack'')]\<rparr>)\<close>

definition dotnet_script :: "shell \<Rightarrow> string \<Rightarrow> path \<Rightarrow> string \<Rightarrow> files \<Rightarrow> script" where
  "dotnet_script sh repo b server fs =
     (let img = ''pqm-runner-dotnet8'' in
      \<lparr>sc_client = ''dotnet-8'', sc_first = [], sc_image = Some (img, script_dir repo ''dotnet-8''),
       sc_version = [''docker'', ''run'', ''--rm'', img, ''dotnet'', ''--version''],
       sc_shown = (\<lambda>out'. ''.NET '' @ first_line out'),
       sc_plans = client_plans (dock repo b server [] [img, ''dotnet'', ''/app/Client.dll''])
         (int_arg fs b ''/b/int.crt'') server\<rparr>)"

definition gnutls_script :: "shell \<Rightarrow> string \<Rightarrow> path \<Rightarrow> string \<Rightarrow> files \<Rightarrow> script" where
  "gnutls_script sh repo b server fs =
     (let img = ''pqm-runner-gnutls''; bash = dock repo b server [] [img, ''bash'', ''-c''] in
      \<lparr>sc_client = ''gnutls'', sc_first = [], sc_image = Some (img, script_dir repo ''gnutls''),
       sc_version = bash @ [''gnutls-cli --version''], sc_shown = first_line,
       sc_plans = [(''parse'', Run None (bash @ [''certtool --certificate-info --infile /b/leaf.crt''])),
         (''verify'', Run None (bash @ [''certtool --verify --load-ca-certificate /b/root.crt --infile /b/chain.pem''])),
         (''handshake'', if_served server (Run None (bash @
            [''echo | gnutls-cli --x509cafile /b/root.crt --port '' @ port_of server @ '' '' @ host_of server])))]\<rparr>)"

definition go_script :: "shell \<Rightarrow> string \<Rightarrow> path \<Rightarrow> string \<Rightarrow> files \<Rightarrow> script" where
  "go_script sh repo b server fs =
     (let client = [''go'', ''run'', script_dir repo ''go'' @ ''/client.go''];
          leaf = abs_path repo (b @ [''leaf.crt'']); root = abs_path repo (b @ [''root.crt'']) in
      \<lparr>sc_client = ''go'', sc_first = [], sc_image = None,
       sc_version = [''go'', ''version''], sc_shown = first_line,
       sc_plans = [(''parse'', Run None (client @ [''parse'', leaf])),
         (''verify'', Run None (client @ [''verify'', root, int_arg fs b (abs_path repo (b @ [''int.crt''])), leaf])),
         (''handshake'', if_served server
            (Run None (client @ [''handshake'', root, host_of server, port_of server])))]\<rparr>)"

definition java_script :: "shell \<Rightarrow> string \<Rightarrow> path \<Rightarrow> string \<Rightarrow> files \<Rightarrow> script" where
  "java_script sh repo b server fs =
     (let bash = dock repo b server (script_mount repo ''java-21'') [''eclipse-temurin:21'', ''bash'', ''-c'']; client = ''java /r/Client.java '' in
      \<lparr>sc_client = ''java-21'', sc_first = [], sc_image = None,
       sc_version = bash @ [''java -version 2>&1''], sc_shown = first_line,
       sc_plans = [(''parse'', Run None (bash @ [client @ ''parse /b/leaf.crt''])),
         (''verify'', Run None (bash @ [client @ ''verify /b/root.crt '' @ int_arg fs b ''/b/int.crt'' @ '' /b/leaf.crt''])),
         (''handshake'', if_served server (Run None (bash @
            [client @ ''handshake /b/root.crt '' @ docker_host server @ '' '' @ port_of server])))]\<rparr>)"

definition node_script :: "shell \<Rightarrow> string \<Rightarrow> path \<Rightarrow> string \<Rightarrow> files \<Rightarrow> script" where
  "node_script sh repo b server fs =
     (let img = ''node:22-slim'' in
      \<lparr>sc_client = ''node'', sc_first = [], sc_image = None,
       sc_version = [''docker'', ''run'', ''--rm'', img, ''node'', ''-e'',
         ''console.log(`Node ${process.version} (OpenSSL ${process.versions.openssl})`)''],
       sc_shown = first_line,
       sc_plans = client_plans (dock repo b server (script_mount repo ''node'') [img, ''node'', ''/r/client.mjs''])
         (int_arg fs b ''/b/int.crt'') server\<rparr>)"

definition openssl30_script :: "shell \<Rightarrow> string \<Rightarrow> path \<Rightarrow> string \<Rightarrow> files \<Rightarrow> script" where
  "openssl30_script sh repo b server fs =
     (let img = ''pqm-runner-openssl30''; bash = dock repo b server [] [img, ''bash'', ''-c''] in
      \<lparr>sc_client = ''openssl-3.0'', sc_first = [], sc_image = Some (img, script_dir repo ''openssl-3.0''),
       sc_version = bash @ [''openssl version''], sc_shown = first_line,
       sc_plans = [(''parse'', Run None (bash @ [''openssl x509 -in /b/leaf.crt -noout -text''])),
         (''verify'', Run None (bash @ [if fs (b @ [''int.crt'']) \<noteq> None
            then ''openssl verify -CAfile /b/root.crt -untrusted /b/int.crt /b/leaf.crt''
            else ''openssl verify -CAfile /b/root.crt /b/leaf.crt''])),
         (''handshake'', if_served server (Run None (bash @
            [''echo Q | openssl s_client -connect '' @ server @ '' -CAfile /b/root.crt -verify_return_error''])))]\<rparr>)"

definition openssl35_script :: "shell \<Rightarrow> string \<Rightarrow> path \<Rightarrow> string \<Rightarrow> files \<Rightarrow> script" where
  "openssl35_script sh repo b server fs =
     (let leaf = abs_path repo (b @ [''leaf.crt'']); root = abs_path repo (b @ [''root.crt'']) in
      \<lparr>sc_client = ''openssl-3.5'', sc_first = [], sc_image = None,
       sc_version = [''openssl'', ''version''], sc_shown = first_line,
       sc_plans = [(''parse'', Run None [''openssl'', ''x509'', ''-in'', leaf, ''-noout'', ''-text'']),
         (''verify'', Run None ([''openssl'', ''verify'', ''-CAfile'', root]
            @ (if fs (b @ [''int.crt'']) \<noteq> None then [''-untrusted'', abs_path repo (b @ [''int.crt''])] else []) @ [leaf])),
         (''handshake'', if_served server (Run (Some (''Q'' @ [CHR 0x0A]))
            [''openssl'', ''s_client'', ''-connect'', ''127.0.0.1:'' @ port_of server, ''-CAfile'', root, ''-verify_return_error'']))]\<rparr>)"

definition python_script :: "shell \<Rightarrow> string \<Rightarrow> path \<Rightarrow> string \<Rightarrow> files \<Rightarrow> script" where
  \<open>python_script sh repo b server fs =
     (let img = ''python:3.13-slim''; client = dock repo b server (script_mount repo ''python'') [img, ''python3'', ''/r/client.py''] in
      \<lparr>sc_client = ''python'', sc_first = [], sc_image = None,
       sc_version = [''docker'', ''run'', ''--rm'', img, ''python3'', ''-c'',
         ''import ssl,sys; print(f"Python {sys.version.split()[0]} ({ssl.OPENSSL_VERSION})")''],
       sc_shown = first_line,
       sc_plans = [(''parse'', Run None (client @ [''parse'', ''/b/leaf.crt''])),
         (''verify'', Skip ''stdlib has no offline chain-verification API''),
         (''handshake'', if_served server
            (Run None (client @ [''handshake'', ''/b/root.crt'', docker_host server, port_of server])))]\<rparr>)\<close>

definition rustls_script :: "shell \<Rightarrow> string \<Rightarrow> path \<Rightarrow> string \<Rightarrow> files \<Rightarrow> script" where
  \<open>rustls_script sh repo b server fs =
     (let img = ''pqm-runner-rustls'' in
      \<lparr>sc_client = ''rustls'', sc_first = [], sc_image = Some (img, script_dir repo ''rustls''),
       sc_version = [''docker'', ''run'', ''--rm'', img, ''bash'', ''-c'', ''grep -m1 "^name = '' @ [CHR 0x5C] @ ''"rustls''
         @ [CHR 0x5C] @ ''"" -A1 /src/Cargo.lock | grep version | cut -d'' @ [CHR 0x5C] @ ''" -f2''],
       sc_shown = (\<lambda>out'. ''rustls '' @ first_line out' @ '' (aws-lc-rs, default features)''),
       sc_plans = client_plans (dock repo b server [] [img, ''client'']) (int_arg fs b ''/b/int.crt'') server\<rparr>)\<close>

text \<open>
  The Windows client: the bundle is copied to the Windows side first, and the commands
  get the paths as Windows sees them.
\<close>

definition bslash :: "string \<Rightarrow> string \<Rightarrow> string" where
  "bslash a b = a @ [CHR 0x5C] @ b"

definition powershell :: string where
  "powershell = ''/mnt/c/Windows/System32/WindowsPowerShell/v1.0/powershell.exe''"

definition win_temp_args :: "string list" where
  "win_temp_args = [powershell, ''-NoProfile'', ''-Command'', ''Write-Output $env:TEMP'']"

definition schannel_script :: "shell \<Rightarrow> string \<Rightarrow> path \<Rightarrow> string \<Rightarrow> files \<Rightarrow> script" where
  \<open>schannel_script sh repo b server fs =
     (let win_temp = substituted (no_returns (cr_out (sh None win_temp_args fs)));
          wsl_args = [''wslpath'', ''-u'', win_temp];
          stage_wsl = substituted (cr_out (sh None wsl_args fs)) @ ''/pqm-sc''; stage_win = bslash win_temp ''pqm-sc'';
          leaf = abs_path repo (b @ [''leaf.crt'']); root = abs_path repo (b @ [''root.crt'']);
          ca = abs_path repo (b @ [''int.crt'']);
          staged = (fs (b @ [''int.crt'']) \<noteq> None); cp_int = [''cp'', ca, stage_wsl @ ''/''];
          win_int = (if staged \<and> cr_code (sh None cp_int fs) = 0 then bslash stage_win ''int.crt'' else ''-'');
          ps1_args = [''wslpath'', ''-w'', script_dir repo ''schannel'' @ ''/schannel.ps1''];
          test = [powershell, ''-NoProfile'', ''-ExecutionPolicy'', ''Bypass'', ''-File'',
            substituted (cr_out (sh None ps1_args fs)), ''-Test''];
          win_root = bslash stage_win ''root.crt''; win_leaf = bslash stage_win ''leaf.crt'';
          wsl_ip = substituted (cr_out (sh None [''bash'', ''-c'',
            ''ip -4 addr show eth0 | grep -o '' @ [CHR 0x27] @ ''inet [0-9.]*'' @ [CHR 0x27]
            @ '' | awk '' @ [CHR 0x27] @ ''{print $2}'' @ [CHR 0x27]] fs)) in
      \<lparr>sc_client = ''schannel'',
       sc_first = map (Pair True) [win_temp_args, wsl_args, [''rm'', ''-rf'', stage_wsl], [''mkdir'', ''-p'', stage_wsl],
           [''cp'', leaf, root, stage_wsl @ ''/'']]
         @ (if staged then [(False, cp_int)] else []) @ [(True, ps1_args)],
       sc_image = None,
       sc_version = [powershell, ''-NoProfile'', ''-Command'',
         bslash (bslash (bslash (bslash (''$k=Get-ItemProperty "HKLM:'') ''SOFTWARE'') ''Microsoft'') ''Windows NT'')
           ''CurrentVersion"; "Windows schannel " + $k.DisplayVersion + " build " + $k.CurrentBuild''],
       sc_shown = (\<lambda>out'. substituted (no_returns out')),
       sc_plans = [(''parse'', Windowed True (test @ [''parse'', ''-Leaf'', win_leaf])),
         (''verify'', Windowed True (test @ [''verify'', ''-Root'', win_root, ''-Int'', win_int, ''-Leaf'', win_leaf])),
         (''handshake'', if_served server (Windowed False (test @
            [''handshake'', ''-Root'', win_root, ''-ConnectIp'', wsl_ip, ''-Host2'', host_of server, ''-Port'', port_of server])))]\<rparr>)\<close>

text \<open>The scripts by the name of their directory, in the order of \<open>RUNNERS\<close>.\<close>

definition scripts :: "(string, shell \<Rightarrow> string \<Rightarrow> path \<Rightarrow> string \<Rightarrow> files \<Rightarrow> script) dict" where
  "scripts =
     [(''bouncycastle'', bouncycastle_script), (''dotnet-8'', dotnet_script), (''gnutls'', gnutls_script),
      (''go'', go_script), (''java-21'', java_script), (''node'', node_script), (''openssl-3.0'', openssl30_script),
      (''openssl-3.5'', openssl35_script), (''python'', python_script), (''rustls'', rustls_script),
      (''schannel'', schannel_script)]"

text \<open>
  What the harness gets when it calls \<open>runners/<client>/run.sh\<close> of the checkout: any other
  program, or other arguments than the contract's, is a call that cannot be made.
\<close>

definition script_at :: "string \<Rightarrow> string \<Rightarrow> (shell \<Rightarrow> string \<Rightarrow> path \<Rightarrow> string \<Rightarrow> files \<Rightarrow> script) option" where
  "script_at repo prog = map_option snd (find (\<lambda>(client, f). abs_path repo [''runners'', client, ''run.sh''] = prog) scripts)"

definition call_script :: "shell \<Rightarrow> string \<Rightarrow> string list \<Rightarrow> files \<Rightarrow> run_result res" where
  "call_script sh repo argv fs =
     (case argv of [prog, b, server, ev] \<Rightarrow>
        (case (script_at repo prog, path_of repo b, path_of repo ev) of
           (Some f, Some bundle, Some evidence) \<Rightarrow>
             Inr (run_script sh repo evidence (f sh repo bundle server fs) fs)
         | _ \<Rightarrow> Inl (OSError ''FileNotFoundError''))
      | _ \<Rightarrow> Inl (OSError ''FileNotFoundError''))"

end
