(* ===== verification/Calculator.thy ===== *)
theory Calculator
  imports Py_Float Effects Json_Read
begin

text \<open>
  \<open>tools/build-calculator-data.py\<close>: the size model behind the handshake calculator,
  computed from \<open>sizes.json\<close>, \<open>transport.json\<close> and \<open>results.json\<close>, with the two
  assertions that make the model exact on the measured chains.  Values that are only
  passed on stay JSON values; values that are computed with must be integers.
\<close>

section \<open>Looking up measured certificates\<close>

fun rfilter :: "('a \<Rightarrow> bool res) \<Rightarrow> 'a list \<Rightarrow> 'a list res" where
  "rfilter P [] = Inr []"
| "rfilter P (x # xs) = rbind (P x) (\<lambda>b. rbind (rfilter P xs) (\<lambda>ys. Inr (if b then x # ys else ys)))"

definition size_rows :: "json list \<Rightarrow> string \<Rightarrow> string \<Rightarrow> json list res" where
  "size_rows sizes chain kind = rfilter (\<lambda>r. rbind (jget r ''chain'') (\<lambda>c.
     if c \<noteq> JStr chain then Inr False
     else rbind (str_field r ''file'') (\<lambda>f. Inr (ends_with f (''/'' @ kind @ ''.crt''))))) sizes"

definition one :: "json list \<Rightarrow> string \<Rightarrow> string \<Rightarrow> json option res" where
  "one sizes chain kind = rbind (size_rows sizes chain kind) (\<lambda>rs.
     Inr (case rs of [] \<Rightarrow> None | r # _ \<Rightarrow> Some r))"

text \<open>\<open>one(...)["k"]\<close>: subscripting \<open>None\<close> is a TypeError.\<close>

definition subscript :: "json option \<Rightarrow> string \<Rightarrow> json res" where
  "subscript r k = (case r of None \<Rightarrow> Inl TypeError | Some v \<Rightarrow> jget v k)"

definition transport_map :: "json list \<Rightarrow> (string, json) dict res" where
  "transport_map rows =
     rbind (traverse as_obj rows) (\<lambda>objs.
     rbind (traverse (\<lambda>kvs. rbind (str_field (JObj kvs) ''chain'') (\<lambda>c. Inr (c, JObj kvs)))
       (filter (\<lambda>kvs. map_of kvs ''mode'' = Some (JStr ''no-compression'')) objs)) (\<lambda>ps.
     Inr (dict_of ps)))"

definition server_message :: "json \<Rightarrow> string \<Rightarrow> json res" where
  "server_message t k = rbind (jget t ''server_messages'') (\<lambda>m. jget m k)"

section \<open>Algorithms\<close>

definition alg_row :: "json list \<Rightarrow> (string, json) dict \<Rightarrow> string \<times> string \<times> bool \<times> string
    \<Rightarrow> (string \<times> json) res" where
  "alg_row sizes tmap a = (case a of (key, label, classical, chain) \<Rightarrow>
     rbind (rbind (one sizes chain ''leaf'') (\<lambda>r. subscript r ''spki'')) (\<lambda>spki.
     rbind (rbind (one sizes chain ''leaf'') (\<lambda>r. subscript r ''signature'')) (\<lambda>sig.
     rbind (rbind (getitem tmap chain) (\<lambda>t. server_message t ''CertificateVerify'')) (\<lambda>cv.
     Inr (key, JObj [(''label'', JStr label), (''classical'', JBool classical),
       (''spki'', spki), (''sig'', sig), (''cv'', cv)])))))"

definition slh_row :: "json list \<Rightarrow> (string \<times> json) res" where
  "slh_row sizes =
     rbind (one sizes ''slhroot'' ''root'') (\<lambda>root_r.
     rbind (one sizes ''slhroot'' ''int'') (\<lambda>int_r.
     rbind (subscript root_r ''spki'') (\<lambda>spki.
     rbind (subscript int_r ''signature'') (\<lambda>sig.
     rbind (as_int sig) (\<lambda>n.
     Inr (''slhdsa128s'', JObj [(''label'', JStr ''SLH-DSA-SHA2-128s''), (''classical'', JBool False),
       (''spki'', spki), (''sig'', sig), (''cv'', JInt (n + 4)), (''cv_measured'', JBool False)]))))))"

definition alg_list :: "(string \<times> string \<times> bool \<times> string) list" where
  "alg_list = [(''ecdsa-p256'', ''ECDSA P-256'', True, ''ecdsa''), (''mldsa44'', ''ML-DSA-44'', False, ''mldsa44''),
     (''mldsa65'', ''ML-DSA-65'', False, ''mldsa65''), (''mldsa87'', ''ML-DSA-87'', False, ''mldsa87'')]"

definition algs :: "json list \<Rightarrow> (string, json) dict \<Rightarrow> (string, json) dict res" where
  "algs sizes tmap = rbind (traverse (alg_row sizes tmap) alg_list) (\<lambda>rows.
     rbind (slh_row sizes) (\<lambda>slh. Inr (dict_of (rows @ [slh]))))"

section \<open>Structural bytes and the SAN ladder\<close>

definition structural_value :: "json \<Rightarrow> int res" where
  "structural_value r = rbind (int_field r ''total'') (\<lambda>t. rbind (int_field r ''spki'') (\<lambda>p.
     rbind (int_field r ''signature'') (\<lambda>s. Inr (t - p - s))))"

definition structural :: "json list \<Rightarrow> string \<Rightarrow> (int \<times> int \<times> int) res" where
  "structural sizes kind =
     rbind (traverse (\<lambda>chain. rbind (one sizes chain kind) (\<lambda>r. case r of None \<Rightarrow> Inr []
         | Some v \<Rightarrow> rbind (structural_value v) (\<lambda>x. Inr [x])))
       [''ecdsa'', ''mldsa44'', ''mldsa65'', ''mldsa87'', ''mixed'']) (\<lambda>vss.
     let vals = concat vss in
     rbind (mean_int vals) (\<lambda>m. Inr (round_digits m 0, Min (set vals), Max (set vals))))"

definition first_row :: "json list \<Rightarrow> json res" where
  "first_row rs = (case rs of [] \<Rightarrow> Inl IndexError | r # _ \<Rightarrow> Inr r)"

definition ladder :: "json list \<Rightarrow> (int \<times> int) list res" where
  "ladder sizes =
     rbind (rbind (one sizes ''ecdsa'' ''leaf'') (\<lambda>r. rbind (subscript r ''total'') as_int)) (\<lambda>t1.
     rbind (traverse (\<lambda>n. rbind (rbind (size_rows sizes ''ecdsa'' (''leaf-san'' @ str_int n)) first_row)
         (\<lambda>r. rbind (int_field r ''total'') (\<lambda>t. Inr (n, t)))) [10, 50, 150]) (\<lambda>rest.
     Inr (sort ((1, t1) # rest))))"

definition per_san :: "(int \<times> int) list \<Rightarrow> rat res" where
  "per_san l = true_div (snd (last l) - snd (hd l)) (fst (last l) - fst (hd l))"

section \<open>Framing and fixed overhead\<close>

text \<open>The hard-coded certificate list sizes of the seven captured chains.\<close>

definition der_sizes :: "(string, int) dict" where
  "der_sizes = [(''ecdsa'', 900), (''mldsa44'', 8098), (''mldsa65'', 11156), (''mldsa87'', 15072),
     (''slhroot'', 15703), (''mixed'', 7908), (''catalyst'', 6238)]"

definition framing_list :: "(string, json) dict \<Rightarrow> int list res" where
  "framing_list tmap = rbind (traverse (\<lambda>(chain, t). case map_of der_sizes chain of None \<Rightarrow> Inr []
     | Some der \<Rightarrow> rbind (rbind (server_message t ''Certificate'') as_int) (\<lambda>c. Inr [c - der])) tmap)
     (\<lambda>fss. Inr (concat fss))"

definition check_framing :: "(string, json) dict \<Rightarrow> unit res" where
  "check_framing tmap = rbind (framing_list tmap) (\<lambda>framing.
     py_assert (set framing = {14}) (''framing not constant: ['' @ join '', '' (map str_int (sorted_set framing)) @ '']''))"

definition fixed_of :: "json \<Rightarrow> int res" where
  "fixed_of t = rbind (int_field t ''server_flight_handshake_bytes'') (\<lambda>f.
     rbind (rbind (server_message t ''Certificate'') as_int) (\<lambda>c.
     rbind (rbind (server_message t ''CertificateVerify'') as_int) (\<lambda>v. Inr (f - c - v))))"

definition fixed_overhead :: "(string, json) dict \<Rightarrow> int res" where
  "fixed_overhead tmap = rbind (traverse fixed_of (map snd tmap)) (\<lambda>xs. let fixed = sorted_set xs in
     rbind (py_assert (length fixed = 1) (''fixed overhead is not constant: ['' @ join '', '' (map str_int fixed) @ '']''))
       (\<lambda>_. Inr (hd fixed)))"

section \<open>Client compatibility\<close>

definition compat_entry :: "json \<Rightarrow> json res" where
  "compat_entry tests = rbind (jget tests ''handshake'') (\<lambda>h. rbind (jget h ''status'') (\<lambda>st.
     rbind (str_field h ''detail'') (\<lambda>d. Inr (JObj [(''handshake'', st), (''detail'', JStr (take 180 d))]))))"

definition compat_chain :: "json list \<Rightarrow> string list \<Rightarrow> string \<Rightarrow> (string \<times> json) res" where
  "compat_chain results clients chain =
     rbind (rfilter (\<lambda>c. rbind (jget c ''chain'') (\<lambda>ch. Inr (ch = JStr chain))) results) (\<lambda>mine.
     rbind (traverse (\<lambda>c. rbind (str_field c ''client'') (\<lambda>cl. rbind (jget c ''tests'') (\<lambda>t. Inr (cl, t)))) mine) (\<lambda>ps.
     let cells = dict_of ps in
     rbind (traverse (\<lambda>cl. case map_of cells cl of None \<Rightarrow> Inr []
         | Some t \<Rightarrow> rbind (compat_entry t) (\<lambda>e. Inr [(cl, e)])) clients) (\<lambda>ess.
     Inr (chain, JObj (concat ess)))))"

definition compatibility :: "json list \<Rightarrow> string list \<Rightarrow> (string \<times> json) list res" where
  "compatibility results clients =
     rbind (traverse (\<lambda>c. str_field c ''chain'') results) (\<lambda>chs.
     traverse (compat_chain results clients) (sorted_set chs))"

definition client_versions :: "json list \<Rightarrow> (string, json) dict res" where
  "client_versions results = rbind (traverse (\<lambda>c. rbind (str_field c ''client'') (\<lambda>cl.
     rbind (jget c ''client_version'') (\<lambda>v. Inr (cl, v)))) results) (\<lambda>ps. Inr (dict_of ps))"

section \<open>The document\<close>

definition measured_chain :: "json \<Rightarrow> (string \<times> json) res" where
  "measured_chain t =
     rbind (str_field t ''chain'') (\<lambda>n.
     rbind (server_message t ''Certificate'') (\<lambda>c.
     rbind (server_message t ''CertificateVerify'') (\<lambda>v.
     rbind (jget t ''server_flight_handshake_bytes'') (\<lambda>f.
     rbind (jget t ''largest_server_record'') (\<lambda>l.
     Inr (n, JObj [(''certificate'', c), (''certificateVerify'', v), (''flight'', f), (''largestRecord'', l)]))))))"

definition provenance :: json where
  "provenance = JObj [(''source'', JStr ''https://github.com/DannyBCarrJr/pqc-cert-matrix''),
     (''doi'', JStr ''10.5281/zenodo.21749600''),
     (''measured'', JStr ''2026-07-31 to 2026-08-01, OpenSSL 3.5.5, single host''),
     (''note'', JStr ''Generated by tools/build-calculator-data.py. Do not hand-edit.'')]"

definition constants_json :: "int \<Rightarrow> int \<times> int \<times> int \<Rightarrow> int \<times> int \<times> int \<Rightarrow> rat \<Rightarrow> json" where
  "constants_json fixed leaf int_s san = (case (leaf, int_s) of ((ls, llo, lhi), (is', ilo, ihi)) \<Rightarrow>
     JObj [(''fixedFlightBytes'', JInt fixed), (''certMsgFramingBase'', JInt 4), (''certMsgFramingPerCert'', JInt 5),
       (''leafStructuralBytes'', JInt ls), (''leafStructuralRange'', JList [JInt llo, JInt lhi]),
       (''intStructuralBytes'', JInt is'), (''intStructuralRange'', JList [JInt ilo, JInt ihi]),
       (''bytesPerExtraSan'', JDec (round_digits san 2) 2),
       (''recordPlaintextCeiling'', JInt 16384), (''initialCongestionWindowSegments'', JInt 10)])"

record model_parts =
  mp_algs :: "(string, json) dict"
  mp_leaf :: "int \<times> int \<times> int"
  mp_int :: "int \<times> int \<times> int"
  mp_san :: rat
  mp_fixed :: int
  mp_compat :: "(string \<times> json) list"
  mp_versions :: "(string, json) dict"
  mp_measured :: "(string, json) dict"

definition build_model :: "json list \<Rightarrow> json list \<Rightarrow> json list \<Rightarrow> model_parts res" where
  "build_model sizes transport results =
     rbind (transport_map transport) (\<lambda>tmap.
     rbind (algs sizes tmap) (\<lambda>as.
     rbind (structural sizes ''leaf'') (\<lambda>leaf.
     rbind (structural sizes ''int'') (\<lambda>int_s.
     rbind (rbind (ladder sizes) per_san) (\<lambda>san.
     rbind (check_framing tmap) (\<lambda>_.
     rbind (fixed_overhead tmap) (\<lambda>fixed.
     rbind (traverse (\<lambda>c. str_field c ''client'') results) (\<lambda>cls.
     rbind (compatibility results (sorted_set cls)) (\<lambda>compat.
     rbind (client_versions results) (\<lambda>vs.
     rbind (traverse measured_chain (map snd tmap)) (\<lambda>ms.
     Inr \<lparr>mp_algs = as, mp_leaf = leaf, mp_int = int_s, mp_san = san, mp_fixed = fixed,
          mp_compat = compat, mp_versions = vs, mp_measured = dict_of ms\<rparr>)))))))))))"

definition model_json :: "model_parts \<Rightarrow> json" where
  "model_json m = JObj [(''provenance'', provenance),
     (''constants'', constants_json (mp_fixed m) (mp_leaf m) (mp_int m) (mp_san m)),
     (''algorithms'', JObj (mp_algs m)), (''measuredChains'', JObj (mp_measured m)),
     (''compatibility'', JObj (mp_compat m)), (''clientVersions'', JObj (mp_versions m))]"

definition load_list :: "path \<Rightarrow> ('x world_scheme, json list) eff" where
  "load_list p = ebind (read_file p) (\<lambda>txt. lift (rbind (loads (universal_newlines txt)) as_list))"

definition calculator_main :: "('x world_scheme, unit) eff" where
  "calculator_main =
     ebind (load_list [''gen'', ''sizes.json'']) (\<lambda>sizes.
     ebind (load_list [''phase3'', ''transport.json'']) (\<lambda>transport.
     ebind (load_list [''results'', ''results.json'']) (\<lambda>results.
     ebind (lift (build_model sizes transport results)) (\<lambda>m.
     print (dumps_indent 0 (model_json m))))))"

section \<open>The model is exact on what was measured\<close>

lemma transport_map_distinct: "transport_map rows = Inr tmap \<Longrightarrow> distinct (map fst tmap)"
  by (auto simp: transport_map_def res_simps dict_of_distinct)

lemma framing_entry:
  assumes "framing_list tmap = Inr fs" and "(chain, t) \<in> set tmap" and "map_of der_sizes chain = Some d"
  shows "\<exists>c. rbind (server_message t ''Certificate'') as_int = Inr c \<and> c - d \<in> set fs"
proof -
  from assms(1) obtain fss where fss: "traverse (\<lambda>(chain, t). case map_of der_sizes chain of None \<Rightarrow> Inr []
     | Some der \<Rightarrow> rbind (rbind (server_message t ''Certificate'') as_int) (\<lambda>c. Inr [c - der])) tmap = Inr fss"
      "fs = concat fss"
    by (auto simp: framing_list_def res_simps)
  obtain i where i: "i < length tmap" "tmap ! i = (chain, t)" using assms(2) by (auto simp: in_set_conv_nth)
  have "rbind (rbind (server_message t ''Certificate'') as_int) (\<lambda>c. Inr [c - d]) = Inr (fss ! i)"
    using traverse_nth[OF fss(1) i(1)] by (simp add: i(2) assms(3))
  moreover have "fss ! i \<in> set fss" using i(1) traverse_length[OF fss(1)] by simp
  ultimately obtain c where c: "rbind (server_message t ''Certificate'') as_int = Inr c" "[c - d] \<in> set fss"
    by (cases "rbind (server_message t ''Certificate'') as_int") auto
  then have "c - d \<in> set fs" using fss(2) by (auto intro!: bexI[of _ "[c - d]"])
  then show ?thesis using c(1) by blast
qed

lemma fixed_entry:
  assumes "fixed_overhead tmap = Inr x" and "(chain, t) \<in> set tmap"
  shows "fixed_of t = Inr x"
proof -
  from assms(1) obtain xs where xs: "traverse fixed_of (map snd tmap) = Inr xs" "length (sorted_set xs) = 1"
      "x = hd (sorted_set xs)"
    by (auto simp: fixed_overhead_def Let_def res_simps)
  obtain i where i: "i < length tmap" "tmap ! i = (chain, t)" using assms(2) by (auto simp: in_set_conv_nth)
  have y: "fixed_of t = Inr (xs ! i)" using traverse_nth[OF xs(1), of i] i by simp
  have "xs ! i \<in> set (sorted_set xs)" using i(1) traverse_length[OF xs(1)] by simp
  moreover have "sorted_set xs = [x]" using xs(2,3) by (cases "sorted_set xs") auto
  ultimately show ?thesis using y by simp
qed

lemma build_model_run:
  assumes "build_model sizes transport results = Inr m"
  obtains tmap fs ms where "transport_map transport = Inr tmap" "framing_list tmap = Inr fs" "set fs = {14}"
    "fixed_overhead tmap = Inr (mp_fixed m)" "traverse measured_chain (map snd tmap) = Inr ms"
    "mp_measured m = dict_of ms" "structural sizes ''leaf'' = Inr (mp_leaf m)"
    "structural sizes ''int'' = Inr (mp_int m)"
  using assms by (auto simp: build_model_def check_framing_def res_simps)

lemma traverse_present:
  "traverse (\<lambda>c. rbind (f c) (\<lambda>r. case r of None \<Rightarrow> Inr [] | Some v \<Rightarrow> rbind (g v) (\<lambda>x. Inr [x]))) cs = Inr vss \<Longrightarrow>
     \<exists>rs. traverse f cs = Inr rs \<and> traverse g (List.map_filter (\<lambda>r. r) rs) = Inr (concat vss) \<and> length (concat vss) \<le> length cs"
proof (induction cs arbitrary: vss)
  case (Cons c cs)
  from Cons.prems obtain r vs wss where r: "f c = Inr r" "(case r of None \<Rightarrow> Inr [] | Some v \<Rightarrow> rbind (g v) (\<lambda>x. Inr [x])) = Inr vs"
      "traverse (\<lambda>c. rbind (f c) (\<lambda>r. case r of None \<Rightarrow> Inr [] | Some v \<Rightarrow> rbind (g v) (\<lambda>x. Inr [x]))) cs = Inr wss" "vss = vs # wss"
    by (auto simp: res_simps)
  obtain rs where "traverse f cs = Inr rs" "traverse g (List.map_filter (\<lambda>r. r) rs) = Inr (concat wss)" "length (concat wss) \<le> length cs"
    using Cons.IH[OF r(3)] by blast
  then show ?case using r(1,2,4)
    by (cases r) (auto simp: res_simps map_filter_simps)
qed (simp add: map_filter_simps)

text \<open>The chains whose certificates are averaged.\<close>

definition structural_chains :: "string list" where
  "structural_chains = [''ecdsa'', ''mldsa44'', ''mldsa65'', ''mldsa87'', ''mixed'']"

lemma structural_mean:
  assumes "structural sizes kind = Inr (s, lo, hi)" and "0 \<le> lo" and "hi < 2 ^ 48"
  shows "\<exists>rs vals. traverse (\<lambda>chain. one sizes chain kind) structural_chains = Inr rs
    \<and> traverse structural_value (List.map_filter (\<lambda>r. r) rs) = Inr vals \<and> vals \<noteq> []
    \<and> s = round_half_even (of_int (sum_list vals) / of_int (int (length vals)))
    \<and> lo = Min (set vals) \<and> hi = Max (set vals) \<and> lo \<le> s \<and> s \<le> hi"
proof -
  obtain vss m where v: "traverse (\<lambda>chain. rbind (one sizes chain kind) (\<lambda>r. case r of None \<Rightarrow> Inr []
        | Some v \<Rightarrow> rbind (structural_value v) (\<lambda>x. Inr [x]))) structural_chains = Inr vss"
      "mean_int (concat vss) = Inr m" "s = round_digits m 0" "lo = Min (set (concat vss))" "hi = Max (set (concat vss))"
    using assms(1) by (auto simp: structural_def structural_chains_def Let_def rbind_Inr_iff)
  obtain rs where rs: "traverse (\<lambda>chain. one sizes chain kind) structural_chains = Inr rs"
      "traverse structural_value (List.map_filter (\<lambda>r. r) rs) = Inr (concat vss)" "length (concat vss) \<le> 5"
    using traverse_present[OF v(1)] by (auto simp: structural_chains_def)
  have "concat vss \<noteq> []" using v(2) by (auto simp only: mean_int_def if_True simp_thms)
  moreover have "s = round_half_even (of_int (sum_list (concat vss)) / of_int (int (length (concat vss)))) \<and> lo \<le> s \<and> s \<le> hi"
    unfolding v(3) by (rule mean_round_exact[OF v(2) rs(3)]) (use v(4,5) assms(2,3) in \<open>simp_all add: Min_le Max_ge\<close>)
  ultimately show ?thesis using rs(1,2) v(4,5) by blast
qed

section \<open>Properties\<close>

text \<open>
  C18: the published model reproduces the measurements it was built from.  When the script
  ends without a failed assertion, the flight of every uncompressed capture is its
  certificate message plus its CertificateVerify plus the published constant, and its
  certificate message is its certificates plus 4 bytes and 5 for each of the two.
\<close>

theorem model_reproduces_captures:
  assumes "build_model sizes transport results = Inr m"
  shows "\<exists>tmap. transport_map transport = Inr tmap \<and> distinct (map fst tmap) \<and>
    (\<forall>(chain, t) \<in> set tmap. \<exists>f c v.
       int_field t ''server_flight_handshake_bytes'' = Inr f
       \<and> rbind (server_message t ''Certificate'') as_int = Inr c
       \<and> rbind (server_message t ''CertificateVerify'') as_int = Inr v
       \<and> f = c + v + mp_fixed m
       \<and> (case map_of der_sizes chain of None \<Rightarrow> True | Some d \<Rightarrow> c = d + 4 + 2 * 5))"
proof -
  obtain tmap fs where t: "transport_map transport = Inr tmap" "framing_list tmap = Inr fs" "set fs = {14}"
      "fixed_overhead tmap = Inr (mp_fixed m)"
    using assms by (rule build_model_run)
  have "\<exists>f c v. int_field w ''server_flight_handshake_bytes'' = Inr f
       \<and> rbind (server_message w ''Certificate'') as_int = Inr c
       \<and> rbind (server_message w ''CertificateVerify'') as_int = Inr v
       \<and> f = c + v + mp_fixed m
       \<and> (case map_of der_sizes chain of None \<Rightarrow> True | Some d \<Rightarrow> c = d + 4 + 2 * 5)"
    if in_map: "(chain, w) \<in> set tmap" for chain w
  proof -
    have "fixed_of w = Inr (mp_fixed m)" by (rule fixed_entry[OF t(4) in_map])
    then obtain f c v where f: "int_field w ''server_flight_handshake_bytes'' = Inr f"
        "rbind (server_message w ''Certificate'') as_int = Inr c"
        "rbind (server_message w ''CertificateVerify'') as_int = Inr v" "f = c + v + mp_fixed m"
      by (cases "int_field w ''server_flight_handshake_bytes''";
          cases "rbind (server_message w ''Certificate'') as_int";
          cases "rbind (server_message w ''CertificateVerify'') as_int") (auto simp: fixed_of_def)
    have "c = d + 4 + 2 * 5" if "map_of der_sizes chain = Some d" for d
      using framing_entry[OF t(2) in_map that] t(3) f(2) by auto
    then show ?thesis using f by (auto split: option.splits)
  qed
  then show ?thesis using t(1) transport_map_distinct[OF t(1)] by blast
qed

text \<open>
  C35: the published structural overhead is the mean of the measured values, rounded half
  to even, and the published range is theirs.  The values are the bytes beside key and
  signature of the certificates of the five averaged chains that have one; when they lie
  between 0 and 2^48, the float that \<open>statistics.mean\<close> returns rounds to the same integer
  as the exact mean, which is in the range.
\<close>

theorem structural_within_range:
  assumes "structural sizes kind = Inr (s, lo, hi)" and "0 \<le> lo" and "hi < 2 ^ 48"
  shows "\<exists>rs vals. traverse (\<lambda>chain. one sizes chain kind) structural_chains = Inr rs
    \<and> traverse structural_value (List.map_filter (\<lambda>r. r) rs) = Inr vals \<and> vals \<noteq> []
    \<and> s = round_half_even (of_int (sum_list vals) / of_int (int (length vals)))
    \<and> lo = Min (set vals) \<and> hi = Max (set vals) \<and> lo \<le> s \<and> s \<le> hi"
  using assms by (rule structural_mean)

definition size_entry :: "string \<Rightarrow> string \<Rightarrow> int \<Rightarrow> int \<Rightarrow> int \<Rightarrow> json" where
  "size_entry chain kind tot spki sig = JObj [(''chain'', JStr chain), (''file'', JStr (''gen/chains/'' @ chain @ ''/'' @ kind @ ''.crt'')),
     (''total'', JInt tot), (''spki'', JInt spki), (''signature'', JInt sig)]"

definition sample_sizes :: "json list" where
  "sample_sizes = concat (map (\<lambda>(chain, k, sg, a, b). [size_entry chain ''leaf'' a k sg, size_entry chain ''int'' b k sg])
     [(''ecdsa'', 91, 71, 464, 436), (''mldsa44'', 1334, 2420, 4062, 4036), (''mldsa65'', 1974, 3309, 5591, 5565),
      (''mldsa87'', 2614, 4627, 7549, 7523)])
   @ [size_entry ''slhroot'' ''root'' 8264 50 7856, size_entry ''slhroot'' ''int'' 10112 1974 7856]
   @ map (\<lambda>(n, t). size_entry ''ecdsa'' (''leaf-san'' @ n) t 91 71) [(''10'', 680), (''50'', 1644), (''150'', 4150)]"

definition capture_entry :: "string \<Rightarrow> int \<Rightarrow> int \<Rightarrow> json" where
  "capture_entry chain c v = JObj [(''server_messages'', JObj [(''Certificate'', JInt c), (''CertificateVerify'', JInt v)]),
     (''server_flight_handshake_bytes'', JInt (c + v + 1256)), (''largest_server_record'', JInt 1),
     (''chain'', JStr chain), (''mode'', JStr ''no-compression'')]"

definition sample_transport :: "json list" where
  "sample_transport = [capture_entry ''ecdsa'' 914 74, capture_entry ''mldsa44'' 8112 2424,
     capture_entry ''mldsa65'' 11170 3313, capture_entry ''mldsa87'' 15086 4631]"

lemma sample_structural: "structural sample_sizes ''leaf'' = Inr (306, 302, 308)"
  by code_simp

definition sample_tmap :: "(string, json) dict" where
  "sample_tmap = map (\<lambda>(n, c, v). (n, capture_entry n c v))
     [(''ecdsa'', 914, 74), (''mldsa44'', 8112, 2424), (''mldsa65'', 11170, 3313), (''mldsa87'', 15086, 4631)]"

lemma sample_parts: "transport_map sample_transport = Inr sample_tmap" "\<not> isl (algs sample_sizes sample_tmap)"
    "\<not> isl (structural sample_sizes ''int'')" "ladder sample_sizes = Inr [(1, 464), (10, 680), (50, 1644), (150, 4150)]"
    "check_framing sample_tmap = Inr ()" "fixed_overhead sample_tmap = Inr 1256"
    "\<not> isl (traverse measured_chain (map snd sample_tmap))"
  by code_simp+

lemma sample_model: "\<exists>m. build_model sample_sizes sample_transport [] = Inr m \<and> mp_fixed m = 1256"
proof -
  obtain a i ms where "algs sample_sizes sample_tmap = Inr a" "structural sample_sizes ''int'' = Inr i"
      "traverse measured_chain (map snd sample_tmap) = Inr ms"
    using sample_parts(2,3,7) sum.collapse(2) by metis
  then show ?thesis
    using sample_parts(1,4,5,6) sample_structural
    by (simp add: build_model_def per_san_def true_div_def compatibility_def client_versions_def sorted_set_def)
qed

theorem model_reproduces_captures_witness:
  "\<exists>m. build_model sample_sizes sample_transport [] = Inr m \<and> mp_fixed m = 1256
     \<and> (\<exists>f. int_field (capture_entry ''mldsa44'' 8112 2424) ''server_flight_handshake_bytes'' = Inr f
        \<and> f = 8112 + 2424 + mp_fixed m)"
proof -
  obtain m where m: "build_model sample_sizes sample_transport [] = Inr m" "mp_fixed m = 1256"
    using sample_model by blast
  have "(''mldsa44'', capture_entry ''mldsa44'' 8112 2424) \<in> set sample_tmap" by (simp add: sample_tmap_def)
  then show ?thesis
    using model_reproduces_captures[OF m(1)] sample_parts(1) m
    by (fastforce simp: server_message_def capture_entry_def getitem_def)
qed

lemma sample_structural_rows:
  "rbind (traverse (\<lambda>chain. one sample_sizes chain ''leaf'') structural_chains)
     (\<lambda>rs. traverse structural_value (List.map_filter (\<lambda>r. r) rs)) = Inr [302, 308, 308, 308]"
  by code_simp

theorem structural_within_range_witness:
  "structural sample_sizes ''leaf'' = Inr (306, 302, 308) \<and> round_half_even (1226 / 4) = 306"
proof -
  obtain vals where "vals = [302, 308, 308, 308]"
      "306 = round_half_even (of_int (sum_list vals) / of_int (int (length vals)))"
    using structural_within_range[OF sample_structural] sample_structural_rows by (auto simp: rbind_Inr_iff)
  then show ?thesis using sample_structural by simp
qed

end
