(* ===== verification/Published.thy ===== *)
theory Published
  imports Harness Calculator
begin

text \<open>
  What the project publishes of a run of the harness: \<open>results.json\<close>, the matrix in
  \<open>MATRIX.md\<close>, and the compatibility table of the calculator, which is built from
  \<open>results.json\<close> by another script.  The file reads back as the collected cells and holds
  no path of the checkout, and the matrix and the calculator tell the same of every
  chain and client.
\<close>

section \<open>The cells in the file\<close>

definition collected_ok :: "collected \<Rightarrow> bool" where
  "collected_ok r = (case r of Cell c \<Rightarrow> json_ok c | Failure _ \<Rightarrow> True)"

lemma collect_cell_ok:
  assumes "collect_cell repo name client stdout = Inr (c, l)"
  shows "json_ok c"
proof -
  from assms obtain v where v: "loads (redact repo stdout) = Inr v" "tag_chain name v = Inr c"
    by (auto simp: collect_cell_def res_simps)
  then obtain kvs where kvs: "v = JObj kvs" "c = JObj (dict_set ''chain'' (JStr name) kvs)"
    by (auto simp: tag_chain_def split: json.splits)
  have "json_ok (JObj kvs)" using loads_ok[OF v(1)] kvs(1) by simp
  then show ?thesis using dict_set_ok[of json_ok kvs] by (simp add: kvs(2) distinct_update)
qed

lemma run_cell_ok:
  assumes "run_cell env repo name b server client s = (Inr r, t)"
  shows "collected_ok r"
proof -
  from assms obtain q v where "(if rr_code q \<noteq> 0 then ret (Failure (failure_line repo name client q))
      else eseq (redact_tree (he_reads env) repo (evidence_dir name client))
        (ebind (lift (collect_cell repo name client (rr_stdout q))) (\<lambda>(cell, l).
          eseq (print l) (ret (Cell cell))))) v = (Inr r, t)"
    unfolding run_cell_def by (auto simp only: run_simps)
  then show ?thesis
    by (auto simp: run_simps collected_ok_def split: if_splits dest: collect_cell_ok)
qed

lemma harness_chain_ok:
  fixes s :: "'x pworld_scheme"
  assumes "harness_chain env repo runners name s = (Inr rs, t)"
  shows "\<forall>r\<in>set rs. collected_ok r"
proof -
  from assms obtain b server and w x :: "'x pworld_scheme" where
      "emap (run_cell env repo name b server) runners w = (Inr rs, x)"
    unfolding harness_chain_def split_def by (auto simp only: run_simps)
  then show ?thesis by (rule emap_run_all) (rule run_cell_ok)
qed

lemma harness_main_ok:
  assumes "emap (harness_chain env repo runners) names s = (Inr rss, u)"
  shows "json_ok (JList (cells_of (concat rss)))"
proof -
  have "\<forall>rs\<in>set rss. \<forall>r\<in>set rs. collected_ok r"
    by (rule emap_run_all[OF assms]) (rule harness_chain_ok)
  then show ?thesis
    by (fastforce simp: cells_of_def list_all_iff collected_ok_def split: collected.splits)
qed

lemma report_cells_run:
  assumes "report_cells cells failures u = (Inr (), t)"
  shows "\<exists>md. matrix_md cells = Inr md
    \<and> files t [''results'', ''results.json''] = Some (dumps_indent 0 (JList cells) @ [CHR 0x0A])
    \<and> files t [''MATRIX.md''] = Some (join [CHR 0x0A] md @ [CHR 0x0A])"
proof -
  have quiet: "foreach (\<lambda>f. print (g f)) fs v = (Inr (), w) \<Longrightarrow> files w = files v" for g fs v w
    by (induction fs arbitrary: v) (auto simp: run_simps print_def modify_def)
  from assms show ?thesis
    unfolding report_cells_def write_matrix_def
    by (auto simp: run_simps write_file_def print_def split: if_splits dest!: quiet)
qed

section \<open>No path of the checkout in the file\<close>

text \<open>
  What a runner that follows the contract prints: the emitter's output for the three
  tests, as every \<open>run.sh\<close> calls it.
\<close>

definition reports_by_emitter :: "run_result \<Rightarrow> bool" where
  "reports_by_emitter q \<longleftrightarrow> (\<exists>fs client version rc1 f1 rc2 f2 rc3 f3.
     emit_main fs [client, version, ''parse'', rc1, f1, ''verify'', rc2, f2, ''handshake'', rc3, f3] = Inr (rr_stdout q))"

definition contract_runners :: "harness_env \<Rightarrow> bool" where
  "contract_runners env \<longleftrightarrow> (\<forall>argv fs q.
     he_run env argv fs = Inr q \<longrightarrow> rr_code q = 0 \<longrightarrow> reports_by_emitter q)"

definition free_of :: "string \<Rightarrow> collected \<Rightarrow> bool" where
  "free_of repo r = (case r of Cell c \<Rightarrow> list_all (\<lambda>s. \<not> occurs repo s) (strings_in c) | Failure _ \<Rightarrow> True)"

lemma no_slash_free: "absolute r \<Longrightarrow> CHR ''/'' \<notin> set s \<Longrightarrow> \<not> occurs r s"
  by (auto simp: absolute_def occurs_iff_sublist sublist_def)

lemma collect_cell_free:
  assumes "plain_path repo" and "reports_by_emitter q" and "CHR ''/'' \<notin> set name"
    and "collect_cell repo name client (rr_stdout q) = Inr (c, l)"
  shows "free_of repo (Cell c)"
proof -
  have abs: "absolute repo" using assms(1) by (simp add: plain_path_def)
  obtain fs cl version rc1 f1 rc2 f2 rc3 f3 where "emit_main fs
      [cl, version, ''parse'', rc1, f1, ''verify'', rc2, f2, ''handshake'', rc3, f3] = Inr (rr_stdout q)"
    using assms(2) unfolding reports_by_emitter_def by blast
  from collect_emitted_all[OF assms(1) this, of name client] obtain c1 c2 c3 where
    cells: "cell fs rc1 f1 = Inr c1" "cell fs rc2 f2 = Inr c2" "cell fs rc3 f3 = Inr c3"
    and c: "c = JObj [(''client'', JStr (redact repo cl)), (''client_version'', JStr (redact repo version)),
      (''tests'', JObj [(''parse'', redacted_test repo c1), (''verify'', redacted_test repo c2),
        (''handshake'', redacted_test repo c3)]), (''chain'', JStr name)]"
    using assms(4) by auto
  have free: "\<not> occurs repo (redact repo s)" for s using redact_removes[OF abs] .
  have key: "list_all (\<lambda>s. \<not> occurs repo s) [''client'', ''client_version'', ''tests'', ''parse'', ''verify'',
      ''handshake'', ''chain'', ''status'', ''detail'', ''ok'', ''fail'', ''skip'', name]"
    using assms(3) by (simp add: no_slash_free[OF abs])
  have "tc_status c1 \<in> {''ok'', ''fail'', ''skip''}" "tc_status c2 \<in> {''ok'', ''fail'', ''skip''}"
      "tc_status c3 \<in> {''ok'', ''fail'', ''skip''}"
    using cell_status cells by blast+
  then show ?thesis
    using key free by (auto simp: free_of_def c redacted_test_def)
qed

lemma run_cell_free:
  assumes "plain_path repo" and "contract_runners env" and "CHR ''/'' \<notin> set name"
    and "run_cell env repo name b server client s = (Inr r, t)"
  shows "free_of repo r"
proof -
  from assms(4) obtain q u v where q: "exec_runner env repo name b server client u = (Inr q, v)"
      "(if rr_code q \<noteq> 0 then ret (Failure (failure_line repo name client q))
      else eseq (redact_tree (he_reads env) repo (evidence_dir name client))
        (ebind (lift (collect_cell repo name client (rr_stdout q))) (\<lambda>(cell, l).
          eseq (print l) (ret (Cell cell))))) v = (Inr r, t)"
    unfolding run_cell_def by (auto simp only: run_simps)
  have "reports_by_emitter q" if "rr_code q = 0"
    using q(1) assms(2) that by (auto simp: exec_runner_def contract_runners_def split: sum.splits)
  then show ?thesis
    using q(2) collect_cell_free[OF assms(1) _ assms(3)]
    by (auto simp: run_simps free_of_def[of repo "Failure _"] split: if_splits)
qed

lemma harness_chain_free:
  fixes s :: "'x pworld_scheme"
  assumes "plain_path repo" and "contract_runners env" and "CHR ''/'' \<notin> set name"
    and "harness_chain env repo runners name s = (Inr rs, t)"
  shows "\<forall>r\<in>set rs. free_of repo r"
proof -
  from assms(4) obtain b server and w x :: "'x pworld_scheme" where
      "emap (run_cell env repo name b server) runners w = (Inr rs, x)"
    unfolding harness_chain_def split_def by (auto simp only: run_simps)
  then show ?thesis by (rule emap_run_all) (rule run_cell_free[OF assms(1-3)])
qed

lemma harness_main_free:
  assumes "plain_path repo" and "contract_runners env"
    and "emap (harness_chain env repo runners) chain_names s = (Inr rss, u)"
    and "c \<in> set (cells_of (concat rss))" and "x \<in> set (strings_in c)"
  shows "\<not> occurs repo x"
proof -
  have names: "CHR ''/'' \<notin> set name" if "name \<in> set chain_names" for name
    using that by (auto simp: chain_names_def chains_def)
  have "\<forall>rs\<in>set rss. \<forall>r\<in>set rs. free_of repo r"
    by (rule emap_run_all[OF assms(3)]) (rule harness_chain_free[OF assms(1,2) names])
  then show ?thesis
    using assms(4,5) by (fastforce simp: cells_of_def free_of_def list_all_iff split: collected.splits)
qed

section \<open>The matrix and the calculator\<close>

text \<open>The cells of one chain, as the calculator selects them.\<close>

lemma compat_select:
  assumes "traverse read_cell cells = Inr rows"
  shows "rfilter (\<lambda>c. rbind (jget c ''chain'') (\<lambda>ch. Inr (ch = JStr chain))) cells = Inr mine
     \<Longrightarrow> traverse (\<lambda>c. rbind (str_field c ''client'') (\<lambda>cl. rbind (jget c ''tests'') (\<lambda>t. Inr (cl, t)))) mine
        = Inr (map (\<lambda>(ch, cl, v, t). (cl, t)) (filter (\<lambda>(ch, cl, v, t). ch = chain) rows))"
  using assms
proof (induction cells arbitrary: rows mine)
  case (Cons c cells)
  from Cons.prems(2) obtain r rs where r: "read_cell c = Inr r" "traverse read_cell cells = Inr rs" "rows = r # rs"
    by (auto simp: res_simps)
  obtain ch cl v t where rr: "r = (ch, cl, v, t)" by (cases r)
  have "jget c ''chain'' = Inr (JStr ch)"
    using r(1) rr by (auto simp: read_cell_def str_field_def res_simps)
  then obtain ms where ms: "rfilter (\<lambda>c. rbind (jget c ''chain'') (\<lambda>ch. Inr (ch = JStr chain))) cells = Inr ms"
      "mine = (if ch = chain then c # ms else ms)"
    using Cons.prems(1) by (cases "ch = chain") (auto simp: rbind_Inr_iff)
  have "str_field c ''client'' = Inr cl" "jget c ''tests'' = Inr t"
    using r(1) rr by (auto simp: read_cell_def res_simps)
  then show ?case using Cons.IH[OF ms(1) r(2)] ms(2) r(3) rr by simp
qed simp

text \<open>What the calculator keeps of the cells of a chain.\<close>

definition chain_tests :: "(string \<times> string \<times> json \<times> json) list \<Rightarrow> string \<Rightarrow> (string, json) dict" where
  "chain_tests rows chain = dict_of (map (\<lambda>(ch, cl, v, t). (cl, t)) (filter (\<lambda>(ch, cl, v, t). ch = chain) rows))"

lemma chain_tests_pair: "map_of (chain_tests rows chain) client = pair_cell rows chain client"
proof -
  have "map_of (map (\<lambda>(ch, cl, v, t). (cl, t)) (filter (\<lambda>(ch, cl, v, t). ch = chain) qs)) client
      = map_option (\<lambda>(ch, cl, v, t). t) (find (\<lambda>(ch, cl, v, t). ch = chain \<and> cl = client) qs)" for qs
    by (induction qs) auto
  then show ?thesis by (simp add: chain_tests_def dict_get_of rev_map rev_filter pair_cell_def)
qed

lemma entries_map_of:
  assumes "traverse (\<lambda>cl. case map_of d cl of None \<Rightarrow> Inr [] | Some t \<Rightarrow> rbind (f t) (\<lambda>e. Inr [(cl, e)])) clients = Inr ess"
    and "distinct clients"
  shows "case map_of (concat ess) client of
      None \<Rightarrow> client \<notin> set clients \<or> map_of d client = None
    | Some e \<Rightarrow> client \<in> set clients \<and> (\<exists>t. map_of d client = Some t \<and> f t = Inr e)"
  using assms
proof (induction clients arbitrary: ess)
  case (Cons cl clients)
  from Cons.prems(1) obtain e es where e: "(case map_of d cl of None \<Rightarrow> Inr [] | Some t \<Rightarrow> rbind (f t) (\<lambda>e. Inr [(cl, e)])) = Inr e"
      "traverse (\<lambda>cl. case map_of d cl of None \<Rightarrow> Inr [] | Some t \<Rightarrow> rbind (f t) (\<lambda>e. Inr [(cl, e)])) clients = Inr es"
      "ess = e # es"
    by (auto simp: res_simps)
  show ?case using Cons.IH[OF e(2)] Cons.prems(2) e(1,3)
    by (auto simp: rbind_Inr_iff split: option.splits if_splits)
qed simp

lemma compat_chain_entry:
  assumes rows: "traverse read_cell cells = Inr rows" and "distinct clients"
    and "compat_chain cells clients chain = Inr e"
  shows "\<exists>es. e = (chain, JObj es) \<and> (\<forall>client. case map_of es client of
      None \<Rightarrow> client \<notin> set clients \<or> pair_cell rows chain client = None
    | Some x \<Rightarrow> \<exists>t. pair_cell rows chain client = Some t \<and> compat_entry t = Inr x)"
proof -
  from assms(3) obtain mine ps ess where m: "rfilter (\<lambda>c. rbind (jget c ''chain'') (\<lambda>ch. Inr (ch = JStr chain))) cells = Inr mine"
      "traverse (\<lambda>c. rbind (str_field c ''client'') (\<lambda>cl. rbind (jget c ''tests'') (\<lambda>t. Inr (cl, t)))) mine = Inr ps"
      "traverse (\<lambda>cl. case map_of (dict_of ps) cl of None \<Rightarrow> Inr []
         | Some t \<Rightarrow> rbind (compat_entry t) (\<lambda>e. Inr [(cl, e)])) clients = Inr ess" "e = (chain, JObj (concat ess))"
    unfolding compat_chain_def Let_def by (auto simp only: rbind_Inr_iff sum.inject)
  have "dict_of ps = chain_tests rows chain"
    using compat_select[OF rows m(1)] m(2) by (simp add: chain_tests_def)
  then have "case map_of (concat ess) client of
      None \<Rightarrow> client \<notin> set clients \<or> pair_cell rows chain client = None
    | Some x \<Rightarrow> \<exists>t. pair_cell rows chain client = Some t \<and> compat_entry t = Inr x" for client
    using entries_map_of[OF m(3) assms(2), of client] by (auto simp: chain_tests_pair split: option.splits)
  then show ?thesis using m(4) by blast
qed

lemma pair_cell_known: "pair_cell rows chain client = Some t \<Longrightarrow> \<exists>v. (chain, client, v, t) \<in> set rows"
  by (auto simp: pair_cell_def find_Some_iff) (metis length_rev nth_mem set_rev)

lemma compatibility_entries:
  assumes rows: "traverse read_cell cells = Inr rows" and cl: "distinct clients" "set clients = (\<lambda>(ch, cl, v, t). cl) ` set rows"
    and compat: "compatibility cells clients = Inr table"
  shows "case map_of table chain of
      None \<Rightarrow> pair_cell rows chain client = None
    | Some v \<Rightarrow> (case jget v client of
        Inl e \<Rightarrow> pair_cell rows chain client = None
      | Inr x \<Rightarrow> (\<exists>t. pair_cell rows chain client = Some t \<and> compat_entry t = Inr x))"
proof -
  have chs: "traverse (\<lambda>c. str_field c ''chain'') cells = Inr (map fst rows)"
    using rows by (induction cells arbitrary: rows) (auto simp: res_simps read_cell_def)
  then have e: "traverse (compat_chain cells clients) (sorted_set (map fst rows)) = Inr table"
    using compat by (simp add: compatibility_def)
  then have all: "list_all2 (\<lambda>ch e. compat_chain cells clients ch = Inr e) (sorted_set (map fst rows)) table"
    by (simp add: traverse_list_all2)
  have known: "pair_cell rows chain client \<noteq> None \<Longrightarrow> client \<in> set clients \<and> chain \<in> fst ` set rows"
    using pair_cell_known[of rows chain client] cl(2) by force
  have keys: "map fst table = sorted_set (map fst rows)"
  proof (rule nth_equalityI)
    show "length (map fst table) = length (sorted_set (map fst rows))" using list_all2_lengthD[OF all] by simp
    show "map fst table ! i = sorted_set (map fst rows) ! i" if "i < length (map fst table)" for i
      using compat_chain_entry[OF rows cl(1) list_all2_nthD2[OF all, of i]] that by auto
  qed
  show ?thesis
  proof (cases "map_of table chain")
    case None
    then have "chain \<notin> set (map fst table)" by (auto simp: map_of_eq_None_iff)
    then show ?thesis using known None by (auto simp: keys)
  next
    case (Some v)
    then have "(chain, v) \<in> set table" by (rule map_of_SomeD)
    then obtain i where i: "i < length table" "table ! i = (chain, v)" by (auto simp: in_set_conv_nth)
    obtain ch where "compat_chain cells clients ch = Inr (chain, v)"
      using all i by (auto simp: list_all2_conv_all_nth)
    from compat_chain_entry[OF rows cl(1) this] obtain es where es: "v = JObj es"
      "\<And>client. case map_of es client of None \<Rightarrow> client \<notin> set clients \<or> pair_cell rows chain client = None
         | Some x \<Rightarrow> \<exists>t. pair_cell rows chain client = Some t \<and> compat_entry t = Inr x"
      by auto
    show ?thesis using es(2)[of client] known Some es(1)
      by (cases "map_of es client"; cases "pair_cell rows chain client") (auto simp: getitem_def)
  qed
qed

text \<open>The mark that the matrix shows third and the status that the calculator publishes.\<close>

lemma compat_entry_mark:
  assumes "pair_cell rows chain client = Some t" and "compat_entry t = Inr x"
    and "matrix_cell (cell_tests rows) chain client = Inr e"
  shows "\<exists>a mk st d. e = a @ '' / '' @ mk \<and> mark_of st = Inr mk \<and> length d \<le> 180
    \<and> x = JObj [(''handshake'', st), (''detail'', JStr d)]"
proof -
  from assms(2) obtain st d where x: "status_of t ''handshake'' = Inr st"
      "x = JObj [(''handshake'', st), (''detail'', JStr (take 180 d))]"
    by (auto simp: compat_entry_def status_of_def res_simps)
  then have "truthy t" by (auto simp: truthy_def status_of_def res_simps)
  then have "test_marks t = Inr e" using assms(1,3) by (simp add: matrix_cell_def cell_tests_pair)
  then obtain a b c where "mark_of st = Inr c" "e = a @ '' / '' @ b @ '' / '' @ c"
    using x(1) unfolding test_marks_Inr by auto
  then show ?thesis using x(2)
    by (intro exI[of _ "a @ '' / '' @ b"] exI[of _ c] exI[of _ st] exI[of _ "take 180 d"]) simp
qed

section \<open>Properties\<close>

text \<open>
  C10: the file of results is what was collected.  After a run of the harness that ends
  normally, \<open>results.json\<close> decodes to exactly the collected cells, whatever the runners
  printed, and \<open>MATRIX.md\<close> is the matrix of these cells.
\<close>

theorem results_read_back:
  assumes "harness_main env repo runners s = (Inr (), t)"
  shows "\<exists>rss u txt md. emap (harness_chain env repo runners) chain_names s = (Inr rss, u)
    \<and> files t [''results'', ''results.json''] = Some txt
    \<and> loads (universal_newlines txt) = Inr (JList (cells_of (concat rss)))
    \<and> matrix_md (cells_of (concat rss)) = Inr md
    \<and> files t [''MATRIX.md''] = Some (join [CHR 0x0A] md @ [CHR 0x0A])"
proof -
  from harness_main_run[OF assms] obtain rss u where u: "emap (harness_chain env repo runners) chain_names s = (Inr rss, u)"
      "report_cells (cells_of (concat rss)) (failures_of (concat rss)) u = (Inr (), t)"
    by blast
  from report_cells_run[OF u(2)] read_back_indent[OF harness_main_ok[OF u(1)]] u(1) show ?thesis by blast
qed

theorem results_read_back_witness:
  "\<exists>txt. files (snd (harness_main (sample_henv 1) ''/r'' [''c''] sample_hworld)) [''results'', ''results.json''] = Some txt
    \<and> \<not> isl (loads (universal_newlines txt))"
proof -
  have "harness_main (sample_henv 1) ''/r'' [''c''] sample_hworld
      = (Inr (), snd (harness_main (sample_henv 1) ''/r'' [''c''] sample_hworld))"
    using sample_harness_ok by (metis prod.collapse)
  from results_read_back[OF this] show ?thesis by fastforce
qed

text \<open>
  C6: the matrix and the calculator agree.  Built from the same cells, the compatibility
  table of the calculator has an entry for a chain and a client exactly when the matrix
  does not show \<open>n/a\<close>, and its handshake status is the one whose mark stands third in
  the matrix, both taken from the last cell of the pair; the detail has at most 180
  characters.
\<close>

theorem matrix_and_calculator_agree:
  assumes "matrix_md cells = Inr md" and "traverse (\<lambda>c. str_field c ''client'') cells = Inr cls"
    and "compatibility cells (sorted_set cls) = Inr table"
    and "chain \<in> set chain_names" and "client \<in> set cls"
  shows "\<exists>rows e. traverse read_cell cells = Inr rows \<and> matrix_cell (cell_tests rows) chain client = Inr e
    \<and> (case map_of table chain of None \<Rightarrow> e = ''n/a''
       | Some v \<Rightarrow> (case jget v client of Inl err \<Rightarrow> e = ''n/a''
         | Inr x \<Rightarrow> \<exists>a mk st d. e = a @ '' / '' @ mk \<and> mark_of st = Inr mk \<and> length d \<le> 180
             \<and> x = JObj [(''handshake'', st), (''detail'', JStr d)]))"
proof -
  obtain rows tbl where rows: "traverse read_cell cells = Inr rows"
      "traverse (matrix_row (cell_tests rows) (cell_clients rows)) chain_names = Inr tbl"
    by (rule matrix_md_rows[OF assms(1)]) blast
  have "traverse (\<lambda>c. str_field c ''client'') cells = Inr (map (\<lambda>(ch, cl, v, t). cl) rows)"
    using rows(1) by (induction cells arbitrary: rows) (auto simp: res_simps read_cell_def)
  then have cls: "cls = map (\<lambda>(ch, cl, v, t). cl) rows" using assms(2) by simp
  have clients: "sorted_set cls = cell_clients rows" by (simp add: cls cell_clients_def)
  obtain row where "matrix_row (cell_tests rows) (cell_clients rows) chain = Inr row"
    using traverse_all[OF rows(2)] assms(4) by blast
  then obtain es where es: "traverse (matrix_cell (cell_tests rows) chain) (cell_clients rows) = Inr es"
    by (auto simp: matrix_row_def res_simps)
  have mem: "client \<in> set (cell_clients rows)" using assms(5) by (simp flip: clients)
  obtain e where e: "matrix_cell (cell_tests rows) chain client = Inr e"
    using traverse_all[OF es mem] by blast
  have none: "e = ''n/a''" if "pair_cell rows chain client = None"
    using e that by (simp add: matrix_cell_def cell_tests_pair)
  have "case map_of table chain of
      None \<Rightarrow> pair_cell rows chain client = None
    | Some v \<Rightarrow> (case jget v client of
        Inl e \<Rightarrow> pair_cell rows chain client = None
      | Inr x \<Rightarrow> (\<exists>t. pair_cell rows chain client = Some t \<and> compat_entry t = Inr x))"
    by (rule compatibility_entries[OF rows(1) _ _ assms(3)]) (auto simp: sorted_set_strict cls)
  then have "case map_of table chain of None \<Rightarrow> e = ''n/a''
       | Some v \<Rightarrow> (case jget v client of Inl err \<Rightarrow> e = ''n/a''
         | Inr x \<Rightarrow> \<exists>a mk st d. e = a @ '' / '' @ mk \<and> mark_of st = Inr mk \<and> length d \<le> 180
             \<and> x = JObj [(''handshake'', st), (''detail'', JStr d)])"
    using none compat_entry_mark[OF _ _ e]
    by (cases "map_of table chain") (simp, simp split: sum.splits, metis)
  then show ?thesis using rows(1) e by blast
qed

definition sample_tests :: "string \<Rightarrow> json" where
  "sample_tests st = JObj (map (\<lambda>(k, st). (k, JObj [(''status'', JStr st), (''detail'', JStr ''d'')]))
     [(''parse'', ''ok''), (''verify'', ''fail''), (''handshake'', st)])"

definition sample_published :: "json list" where
  "sample_published = map (\<lambda>(ch, cl, st). JObj [(''client'', JStr cl), (''client_version'', JStr ''1''),
     (''tests'', sample_tests st), (''chain'', JStr ch)])
     [(''ecdsa'', ''go'', ''skip''), (''mixed'', ''go'', ''ok''), (''ecdsa'', ''java'', ''fail'')]"

theorem matrix_and_calculator_agree_witness:
  "\<exists>md table rows. matrix_md sample_published = Inr md
    \<and> compatibility sample_published (sorted_set [''go'', ''go'', ''java'']) = Inr table
    \<and> traverse read_cell sample_published = Inr rows
    \<and> (\<exists>e. matrix_cell (cell_tests rows) ''ecdsa'' ''java'' = Inr e)"
proof -
  have "\<not> isl (matrix_md sample_published)" by code_simp
  then obtain md where md: "matrix_md sample_published = Inr md" by (cases "matrix_md sample_published") auto
  have "\<not> isl (compatibility sample_published (sorted_set [''go'', ''go'', ''java'']))" by code_simp
  then obtain table where table: "compatibility sample_published (sorted_set [''go'', ''go'', ''java'']) = Inr table"
    by (cases "compatibility sample_published (sorted_set [''go'', ''go'', ''java''])") auto
  have "traverse (\<lambda>c. str_field c ''client'') sample_published = Inr [''go'', ''go'', ''java'']" by code_simp
  moreover have "''ecdsa'' \<in> set chain_names" by (simp add: chain_names_def chains_def)
  ultimately show ?thesis
    using matrix_and_calculator_agree[OF md _ table, of "''ecdsa''" "''java''"] md table by auto
qed


text \<open>
  C11: the published results hold no path of the checkout.  When every runner that
  succeeds reports through the shared emitter, as all \<open>run.sh\<close> do, the text of
  \<open>results.json\<close> after a whole run contains the checkout's absolute path nowhere,
  whatever client names, versions and log files the runners had.
\<close>

theorem results_hold_no_path:
  assumes "plain_path repo" and "contract_runners env"
    and "harness_main env repo runners s = (Inr (), t)"
  shows "\<exists>txt. files t [''results'', ''results.json''] = Some txt \<and> \<not> occurs repo txt"
proof -
  from harness_main_run[OF assms(3)] obtain rss u where u: "emap (harness_chain env repo runners) chain_names s = (Inr rss, u)"
      "report_cells (cells_of (concat rss)) (failures_of (concat rss)) u = (Inr (), t)"
    by blast
  have "\<not> occurs repo (dumps_indent 0 (JList (cells_of (concat rss))) @ [CHR 0x0A])"
    by (rule document_free[OF assms(1) harness_main_ok[OF u(1)]])
      (use harness_main_free[OF assms(1,2) u(1)] in auto)
  then show ?thesis using report_cells_run[OF u(2)] by blast
qed

definition log_fs :: "string \<Rightarrow> string option" where
  "log_fs p = Some ''at /r/x''"

definition log_out :: string where
  "log_out = dumps (cell_json ''go'' ''1'' (map (\<lambda>k. (k, \<lparr>tc_status = ''fail'', tc_detail = ''at /r/x''\<rparr>))
     [''parse'', ''verify'', ''handshake''])) @ [CHR 0x0A]"

definition log_env :: harness_env where
  "log_env = (sample_henv 1)\<lparr>he_run := (\<lambda>argv fs. Inr \<lparr>rr_code = (if argv ! 1 = abs_path ''/r/x'' (bundle_dir ''ecdsa'') then 0 else 1),
     rr_stdout = log_out, rr_stderr = [], rr_files = []\<rparr>)\<rparr>"

lemma log_emitted: "emit_main log_fs [''go'', ''1'', ''parse'', ''1'', ''l'', ''verify'', ''1'', ''l'', ''handshake'', ''1'', ''l'']
    = Inr log_out"
  by code_simp

lemma log_run: "fst (harness_main log_env ''/r/x'' [''go''] sample_hworld) = Inr ()"
  by code_simp

theorem results_hold_no_path_witness:
  "\<exists>txt. files (snd (harness_main log_env ''/r/x'' [''go''] sample_hworld)) [''results'', ''results.json''] = Some txt
    \<and> \<not> occurs ''/r/x'' txt"
proof -
  have "plain_path ''/r/x''" by (simp add: plain_path_def absolute_def plain_def printable_def)
  moreover have "contract_runners log_env"
    using log_emitted unfolding contract_runners_def reports_by_emitter_def log_env_def by fastforce
  moreover have "harness_main log_env ''/r/x'' [''go''] sample_hworld
      = (Inr (), snd (harness_main log_env ''/r/x'' [''go''] sample_hworld))"
    using log_run by (metis prod.collapse)
  ultimately show ?thesis by (rule results_hold_no_path)
qed

text \<open>JSON with every slash written as an escape.\<close>

definition escape_slashes :: "string \<Rightarrow> string" where
  "escape_slashes s = concat (map (\<lambda>c. if c = CHR ''/'' then [CHR 0x5C, CHR ''/''] else [c]) s)"

definition escaped_out :: string where
  "escaped_out = escape_slashes (dumps (JObj [(''client'', JStr ''php''), (''client_version'', JStr ''/home/u''),
     (''tests'', sample_tests ''ok'')]))"

lemma escaped_out_collected:
  "case collect_cell ''/home/u'' ''ecdsa'' ''php'' escaped_out of Inl _ \<Rightarrow> False
     | Inr (c, l) \<Rightarrow> ''/home/u'' \<in> set (strings_in c)"
  by code_simp


end
