(* ===== verification/Harness_Success.thy ===== *)
theory Harness_Success
  imports Published
begin

text \<open>
  When a run of \<open>runners/harness.py\<close> succeeds: if the certificates are there, nothing is in
  the way of the results, servers can be started and exit, and the runners follow their
  contract, then the run ends normally, whatever the runners find out about the chains.
\<close>

section \<open>What the run relies on\<close>

text \<open>
  A runner that follows the contract: it can be called, writes only into its evidence
  directory, and when it succeeds reports through the emitter.
\<close>

definition contract_run :: "harness_env \<Rightarrow> string \<Rightarrow> string \<Rightarrow> string \<Rightarrow> bool" where
  "contract_run env repo name client \<longleftrightarrow> (\<forall>server fs. \<exists>q.
     he_run env (runner_args repo client (bundle_dir name) server (evidence_dir name client)) fs = Inr q
     \<and> (rr_code q = 0 \<longrightarrow> reports_by_emitter q)
     \<and> (\<forall>p. map_of (rr_files q) p \<noteq> None \<longrightarrow> below (evidence_dir name client) p))"

definition results_root :: path where
  "results_root = [''results'']"

text \<open>The directories the run makes, none of them taken by a file, no directory in place of a file.\<close>

definition run_dirs :: "path set" where
  "run_dirs = (\<Union>n. set (ancestors (bundle_dir n))) \<union> (\<Union>n c. set (ancestors (evidence_dir n c)))"

definition clear_results :: "'x world_scheme \<Rightarrow> bool" where
  "clear_results s \<longleftrightarrow> (\<forall>p\<in>run_dirs. files s p = None) \<and> (\<forall>n x. bundle_dir n @ [x] \<notin> dirs s)"

definition sources_there :: "'x world_scheme \<Rightarrow> string \<Rightarrow> path \<Rightarrow> path \<Rightarrow> bool" where
  "sources_there s name src ca \<longleftrightarrow>
     (if name = ''composite'' then files s (src @ [''composite-selfsigned.crt'']) \<noteq> None
      else files s (src @ [''leaf.crt'']) \<noteq> None \<and> files s (ca @ [''root.crt'']) \<noteq> None
        \<and> files s (ca @ [''int.crt'']) \<noteq> None \<and> src @ [''leaf.key''] \<notin> dirs s)"

section \<open>What the run keeps\<close>

definition keeps :: "'x world_scheme \<Rightarrow> 'x world_scheme \<Rightarrow> bool" where
  "keeps s t \<longleftrightarrow> (clear_results s \<longrightarrow> clear_results t)
     \<and> (\<forall>p. \<not> prefix results_root p \<longrightarrow> files t p = files s p) \<and> dirs s \<subseteq> dirs t \<and> dirs t \<subseteq> dirs s \<union> run_dirs"

interpretation keeps: frame keeps
  by unfold_locales (auto simp: keeps_def)

lemma run_dirs_prefix: "p \<in> run_dirs \<Longrightarrow> p = [] \<or> p = results_root \<or> (\<exists>k ks. p = ''results'' # k # ks \<and> k \<in> {''bundles'', ''evidence''})"
proof -
  have take: "take n [a, b, c] = [] \<or> take n [a, b, c] = [a] \<or> (\<exists>ks. take n [a, b, c] = a # b # ks)" for n and a b c :: string
    by (cases n; cases "n - 1") (auto simp: take_Cons' split: if_splits)
  have take4: "take n [a, b, c, d] = [] \<or> take n [a, b, c, d] = [a] \<or> (\<exists>ks. take n [a, b, c, d] = a # b # ks)"
    for n and a b c d :: string
    by (cases n; cases "n - 1") (auto simp: take_Cons' split: if_splits)
  assume "p \<in> run_dirs"
  then show ?thesis
    using take[of _ "''results''" "''bundles''"] take4[of _ "''results''" "''evidence''"]
    by (fastforce simp: run_dirs_def ancestors_def bundle_dir_def evidence_dir_def results_root_def)
qed

lemma bundle_file_not_run_dir: "bundle_dir n @ [x] \<notin> run_dirs"
proof
  assume "bundle_dir n @ [x] \<in> run_dirs"
  then consider m where "bundle_dir n @ [x] \<in> set (ancestors (bundle_dir m))"
    | m c where "bundle_dir n @ [x] \<in> set (ancestors (evidence_dir m c))"
    by (auto simp: run_dirs_def)
  then show False
    by cases (auto simp: ancestors_def bundle_dir_def evidence_dir_def take_Cons' split: if_splits)
qed

lemma below_not_run_dir: "below (evidence_dir n c) p \<Longrightarrow> p \<notin> run_dirs"
proof
  assume b: "below (evidence_dir n c) p" and d: "p \<in> run_dirs"
  then have len: "4 < length p" by (auto simp: below_def evidence_dir_def prefix_def)
  from d show False
  proof (unfold run_dirs_def, elim UnE UN_E)
    fix m assume "p \<in> set (ancestors (bundle_dir m))"
    then show False using len by (auto simp: ancestors_def bundle_dir_def)
  next
    fix m d assume "p \<in> set (ancestors (evidence_dir m d))"
    then show False using len by (auto simp: ancestors_def evidence_dir_def)
  qed
qed

text \<open>Steps that keep: a directory of the run, a file that is not one, output and processes.\<close>

lemma keeps_mkdir:
  assumes "clear_results s" and "set (ancestors d) \<subseteq> run_dirs"
  shows "\<exists>t. mkdir d s = (Inr (), t) \<and> keeps s t \<and> files t = files s \<and> d \<in> dirs t"
proof -
  have "\<not> list_ex (\<lambda>q. files s q \<noteq> None) (ancestors d)"
    using assms by (auto simp: clear_results_def list_ex_iff)
  moreover have "d \<in> set (ancestors d)" by (auto simp: ancestors_def intro!: image_eqI[of _ _ "length d"])
  ultimately show ?thesis using assms bundle_file_not_run_dir
    by (auto simp: mkdir_def keeps_def clear_results_def)
qed

lemma keeps_files:
  assumes "\<And>p. f p \<noteq> files s p \<Longrightarrow> prefix results_root p \<and> p \<notin> run_dirs"
  shows "keeps s (s\<lparr>files := f\<rparr>)"
  using assms by (auto simp: keeps_def clear_results_def) (metis not_None_eq)+

section \<open>Assembling a bundle\<close>

lemma root_file: "prefix results_root (bundle_dir n @ [x])" "bundle_dir n @ [x] \<notin> run_dirs"
  by (simp add: results_root_def bundle_dir_def) (rule bundle_file_not_run_dir)

text \<open>One file of the bundle, written or copied from a file outside the results.\<close>

lemma keeps_write:
  assumes "bundle_dir n \<in> dirs s" and "clear_results s"
  shows "\<exists>t. write_file (bundle_dir n @ [x]) c s = (Inr (), t) \<and> keeps s t \<and> bundle_dir n \<in> dirs t"
proof -
  have "bundle_dir n @ [x] \<notin> dirs s" using assms(2) by (simp add: clear_results_def)
  moreover have "keeps s (s\<lparr>files := (files s)(bundle_dir n @ [x] \<mapsto> c)\<rparr>)"
    by (rule keeps_files) (metis fun_upd_other root_file)
  ultimately show ?thesis using assms(1) by (simp add: write_file_def)
qed

lemma keeps_copy:
  assumes "bundle_dir n \<in> dirs s" and "clear_results s" and "files s a \<noteq> None"
  shows "\<exists>t. copy_file a (bundle_dir n @ [x]) s = (Inr (), t) \<and> keeps s t \<and> bundle_dir n \<in> dirs t"
proof -
  obtain c where c: "files s a = Some c" using assms(3) by blast
  have "bundle_dir n @ [x] \<notin> dirs s" using assms(2) by (simp add: clear_results_def)
  then have "copy_file a (bundle_dir n @ [x]) s = write_file (bundle_dir n @ [x]) c s"
    by (simp add: copy_file_def ebind_def read_file_def c)
  then show ?thesis using keeps_write[OF assms(1,2)] by simp
qed

text \<open>
  The steps of a bundle one after the other: \<open>ready\<close> is what each needs and leaves, that
  the directory is there, the results are clear, and the sources are as at the start.
\<close>

definition ready :: "string \<Rightarrow> 'x world_scheme \<Rightarrow> 'x world_scheme \<Rightarrow> bool" where
  "ready n s t \<longleftrightarrow> keeps s t \<and> clear_results t \<and> bundle_dir n \<in> dirs t"

lemma ready_file: "ready n s t \<Longrightarrow> \<not> prefix results_root p \<Longrightarrow> files t p = files s p"
  by (simp add: ready_def keeps_def)

lemma ready_copy:
  assumes "ready n s t" and "files s a \<noteq> None" and "\<not> prefix results_root a"
  shows "\<exists>u. copy_file a (bundle_dir n @ [x]) t = (Inr (), u) \<and> ready n s u"
proof -
  have "files t a \<noteq> None" using assms ready_file by metis
  then obtain u where "copy_file a (bundle_dir n @ [x]) t = (Inr (), u)" "keeps t u" "bundle_dir n \<in> dirs u"
    using keeps_copy[of n t a x] assms(1) by (auto simp: ready_def)
  then show ?thesis using assms(1) keeps.trans[of s t u] by (auto simp: ready_def keeps_def)
qed

lemma ready_write:
  assumes "ready n s t"
  shows "\<exists>u. write_file (bundle_dir n @ [x]) c t = (Inr (), u) \<and> ready n s u"
proof -
  obtain u where "write_file (bundle_dir n @ [x]) c t = (Inr (), u)" "keeps t u" "bundle_dir n \<in> dirs u"
    using keeps_write[of n t x c] assms by (auto simp: ready_def)
  then show ?thesis using assms keeps.trans[of s t u] by (auto simp: ready_def keeps_def)
qed

lemma bundle_self_succeeds:
  assumes "ready n s t" and "files s (src @ [''composite-selfsigned.crt'']) \<noteq> None"
    and "\<And>x. \<not> prefix results_root (src @ [x])"
  shows "\<exists>u. bundle_self src (bundle_dir n) t = (Inr (), u) \<and> ready n s u"
proof -
  let ?leaf = "src @ [''composite-selfsigned.crt'']"
  obtain a where a: "copy_file ?leaf (bundle_dir n @ [''leaf.crt'']) t = (Inr (), a)" "ready n s a"
    using ready_copy[OF assms(1,2)] assms(3) by blast
  obtain b where b: "copy_file ?leaf (bundle_dir n @ [''root.crt'']) a = (Inr (), b)" "ready n s b"
    using ready_copy[OF a(2) assms(2)] assms(3) by blast
  obtain c where c: "copy_file ?leaf (bundle_dir n @ [''chain.pem'']) b = (Inr (), c)" "ready n s c"
    using ready_copy[OF b(2) assms(2)] assms(3) by blast
  show ?thesis using c(2) by (simp add: bundle_self_def Let_def eseq_def ebind_def a(1) b(1) c(1))
qed

lemma bundle_chain_succeeds:
  assumes "ready n s t" and leaf: "files s (src @ [''leaf.crt'']) \<noteq> None" and root: "files s (ca @ [''root.crt'']) \<noteq> None"
    and int: "files s (ca @ [''int.crt'']) \<noteq> None" and key: "src @ [''leaf.key''] \<notin> dirs s" "src @ [''leaf.key''] \<notin> run_dirs"
    and out: "\<And>x. \<not> prefix results_root (src @ [x])" "\<And>x. \<not> prefix results_root (ca @ [x])"
  shows "\<exists>u. bundle_chain src ca (bundle_dir n) t = (Inr (), u) \<and> ready n s u"
proof -
  let ?b = "bundle_dir n"
  obtain a where a: "copy_file (src @ [''leaf.crt'']) (?b @ [''leaf.crt'']) t = (Inr (), a)" "ready n s a"
    using ready_copy[OF assms(1) leaf out(1)] by blast
  obtain b where b: "copy_file (ca @ [''root.crt'']) (?b @ [''root.crt'']) a = (Inr (), b)" "ready n s b"
    using ready_copy[OF a(2) root out(2)] by blast
  obtain c where c: "copy_file (ca @ [''int.crt'']) (?b @ [''int.crt'']) b = (Inr (), c)" "ready n s c"
    using ready_copy[OF b(2) int out(2)] by blast
  obtain l i where li: "files c (src @ [''leaf.crt'']) = Some l" "files c (ca @ [''int.crt'']) = Some i"
    using leaf int ready_file[OF c(2) out(1)] ready_file[OF c(2) out(2)] by auto
  obtain d where d: "write_file (?b @ [''chain.pem'']) (l @ i) c = (Inr (), d)" "ready n s d"
    using ready_write[OF c(2)] by blast
  let ?k = "files d (src @ [''leaf.key'']) \<noteq> None \<or> src @ [''leaf.key''] \<in> dirs d"
  have nodir: "src @ [''leaf.key''] \<notin> dirs d" using d(2) key by (auto simp: ready_def keeps_def)
  have "\<exists>u. (if ?k then copy_file (src @ [''leaf.key'']) (?b @ [''leaf.key'']) else ret ()) d = (Inr (), u) \<and> ready n s u"
  proof (cases ?k)
    case True
    then have "files s (src @ [''leaf.key'']) \<noteq> None" using nodir ready_file[OF d(2) out(1)] by auto
    then show ?thesis using ready_copy[OF d(2) _ out(1)] True by auto
  next
    case False
    then show ?thesis using d(2) by (simp add: ret_def)
  qed
  then obtain u where u: "(if ?k then copy_file (src @ [''leaf.key'']) (?b @ [''leaf.key'']) else ret ()) d = (Inr (), u)"
      "ready n s u" by blast
  have "bundle_chain src ca ?b t = (Inr (), u)"
    using u(1) by (simp add: bundle_chain_def eseq_def ebind_def a(1) b(1) c(1) d(1) read_file_def exists_file_def li)
  then show ?thesis using u(2) by blast
qed

lemma chains_outside:
  "getitem chains name = Inr (src, ca) \<Longrightarrow> \<not> prefix results_root (src @ [x]) \<and> src @ [x] \<notin> run_dirs
     \<and> (name \<noteq> ''composite'' \<longrightarrow> \<not> prefix results_root (ca @ [x]))"
  using run_dirs_prefix[of "src @ [x]"]
  by (auto simp: chains_def gen_dir_def p0_dir_def getitem_def results_root_def split: if_splits)

lemma bundle_of_succeeds:
  assumes "getitem chains name = Inr (src, ca)" and "sources_there s name src ca" and "clear_results s"
  shows "\<exists>t. bundle_of name s = (Inr (bundle_dir name), t) \<and> keeps s t"
proof -
  have anc: "set (ancestors (bundle_dir name)) \<subseteq> run_dirs" by (auto simp: run_dirs_def)
  obtain a where a: "mkdir (bundle_dir name) s = (Inr (), a)" "keeps s a" "files a = files s" "bundle_dir name \<in> dirs a"
    using keeps_mkdir[OF assms(3) anc] by blast
  have r: "ready name s a" using a assms(3) by (simp add: ready_def keeps_def)
  note out = chains_outside[OF assms(1)]
  have "\<exists>t. (if name = ''composite'' then bundle_self src (bundle_dir name) else bundle_chain src ca (bundle_dir name)) a
      = (Inr (), t) \<and> ready name s t"
  proof (cases "name = ''composite''")
    case True
    then have "files s (src @ [''composite-selfsigned.crt'']) \<noteq> None"
      using assms(2) by (simp add: sources_there_def)
    then have "\<exists>t. bundle_self src (bundle_dir name) a = (Inr (), t) \<and> ready name s t"
      by (rule bundle_self_succeeds[OF r]) (use out in blast)
    then show ?thesis using True by simp
  next
    case False
    then have src: "files s (src @ [''leaf.crt'']) \<noteq> None" "files s (ca @ [''root.crt'']) \<noteq> None"
        "files s (ca @ [''int.crt'']) \<noteq> None" "src @ [''leaf.key''] \<notin> dirs s"
      using assms(2) by (simp_all only: sources_there_def if_False) blast+
    have "\<exists>t. bundle_chain src ca (bundle_dir name) a = (Inr (), t) \<and> ready name s t"
      by (rule bundle_chain_succeeds[OF r src]) (use out False in blast)+
    then show ?thesis using False by simp
  qed
  then show ?thesis
    by (auto simp: bundle_of_def ebind_def lift_def assms(1) eseq_def a(1) ret_def ready_def)
qed

section \<open>One runner on one chain\<close>

text \<open>A cell that the matrix can render.\<close>

definition good_cell :: "json \<Rightarrow> bool" where
  "good_cell v \<longleftrightarrow> (\<exists>chain client version tests m. read_cell v = Inr (chain, client, version, tests)
     \<and> test_marks tests = Inr m)"

definition good_result :: "collected \<Rightarrow> bool" where
  "good_result r = (case r of Cell v \<Rightarrow> good_cell v | Failure _ \<Rightarrow> True)"

lemma collect_contract:
  assumes "plain_path repo" and "reports_by_emitter q"
  shows "\<exists>v l. collect_cell repo name client (rr_stdout q) = Inr (v, l) \<and> good_cell v"
proof -
  obtain fs cl version rc1 f1 rc2 f2 rc3 f3 where "emit_main fs
      [cl, version, ''parse'', rc1, f1, ''verify'', rc2, f2, ''handshake'', rc3, f3] = Inr (rr_stdout q)"
    using assms(2) unfolding reports_by_emitter_def by blast
  from collect_emitted_read[OF assms(1) this, of name client] show ?thesis
    unfolding good_cell_def by blast
qed

lemma keeps_redact: "keeps s (snd (redact_tree readable repo (evidence_dir n c) s))"
proof -
  have "keeps s (s\<lparr>files := (\<lambda>p. if below (evidence_dir n c) p \<and> readable p then map_option (redact_content repo) (files s p) else files s p)\<rparr>)"
  proof (rule keeps_files)
    fix p
    assume "(if below (evidence_dir n c) p \<and> readable p then map_option (redact_content repo) (files s p) else files s p) \<noteq> files s p"
    then have "below (evidence_dir n c) p" by (simp split: if_splits)
    then show "prefix results_root p \<and> p \<notin> run_dirs"
      using below_not_run_dir by (auto simp: below_def evidence_dir_def results_root_def prefix_def)
  qed
  then show ?thesis by (simp add: redact_tree_def modify_def)
qed

lemma keeps_print: "keeps s (s\<lparr>out := x\<rparr>)"
  by (simp add: keeps_def clear_results_def)

lemma keeps_procs: "keeps s (s\<lparr>running := x, trace := y\<rparr>)" "keeps s (s\<lparr>trace := y\<rparr>)"
  for s :: "'x pworld_scheme"
  by (simp_all add: keeps_def clear_results_def)

lemma exec_succeeds:
  fixes s :: "'x pworld_scheme"
  assumes "contract_run env repo name client"
  shows "\<exists>q t. exec_runner env repo name (bundle_dir name) server client s = (Inr q, t) \<and> keeps s t
    \<and> (rr_code q = 0 \<longrightarrow> reports_by_emitter q)"
proof -
  obtain q where q: "he_run env (runner_args repo client (bundle_dir name) server (evidence_dir name client)) (files s) = Inr q"
      "rr_code q = 0 \<longrightarrow> reports_by_emitter q"
      "\<forall>p. map_of (rr_files q) p \<noteq> None \<longrightarrow> below (evidence_dir name client) p"
    using assms unfolding contract_run_def by blast
  let ?t = "s\<lparr>files := files s ++ map_of (rr_files q)\<rparr>"
  have "keeps s ?t"
  proof (rule keeps_files)
    fix p assume "(files s ++ map_of (rr_files q)) p \<noteq> files s p"
    then have "below (evidence_dir name client) p" using q(3) by (auto simp: map_add_def split: option.splits)
    then show "prefix results_root p \<and> p \<notin> run_dirs"
      using below_not_run_dir by (auto simp: below_def evidence_dir_def results_root_def prefix_def)
  qed
  then have "keeps s (?t\<lparr>trace := trace ?t @ [Ran client name server]\<rparr>)"
    by (rule keeps.trans) (rule keeps_procs)
  then show ?thesis using q by (auto simp: exec_runner_def)
qed

lemma run_cell_succeeds:
  fixes s :: "'x pworld_scheme"
  assumes "plain_path repo" and "contract_run env repo name client" and "clear_results s"
  shows "\<exists>r t. run_cell env repo name (bundle_dir name) server client s = (Inr r, t) \<and> keeps s t \<and> good_result r"
proof -
  have anc: "set (ancestors (evidence_dir name client)) \<subseteq> run_dirs" by (auto simp: run_dirs_def)
  obtain a where a: "mkdir (evidence_dir name client) s = (Inr (), a)" "keeps s a"
    using keeps_mkdir[OF assms(3) anc] by blast
  obtain q b where b: "exec_runner env repo name (bundle_dir name) server client a = (Inr q, b)" "keeps a b"
      "rr_code q = 0 \<longrightarrow> reports_by_emitter q"
    using exec_succeeds[OF assms(2), of server a] by blast
  have sb: "keeps s b" using keeps.trans[OF a(2) b(2)] .
  show ?thesis
  proof (cases "rr_code q = 0")
    case False
    then show ?thesis using sb by (simp add: run_cell_def eseq_def ebind_def a(1) b(1) ret_def good_result_def)
  next
    case True
    then obtain v l where v: "collect_cell repo name client (rr_stdout q) = Inr (v, l)" "good_cell v"
      using collect_contract[OF assms(1)] b(3) by blast
    let ?c = "snd (redact_tree (he_reads env) repo (evidence_dir name client) b)"
    obtain c where c: "redact_tree (he_reads env) repo (evidence_dir name client) b = (Inr (), c)" "c = ?c"
      by (simp add: redact_tree_def modify_def)
    have "run_cell env repo name (bundle_dir name) server client s = (Inr (Cell v), c\<lparr>out := out c @ [l]\<rparr>)"
      by (simp add: c(1) run_cell_def eseq_def ebind_def a(1) b(1) True lift_def v(1) print_def ret_def)
    moreover have "keeps s (c\<lparr>out := out c @ [l]\<rparr>)"
      unfolding c(2) using keeps.trans[OF keeps.trans[OF sb keeps_redact] keeps_print] .
    ultimately show ?thesis using v(2) by (auto simp: good_result_def)
  qed
qed

lemma run_cells_succeed:
  fixes s :: "'x pworld_scheme"
  assumes "plain_path repo" and "\<And>c. c \<in> set runners \<Longrightarrow> contract_run env repo name c" and "clear_results s"
  shows "\<exists>rs t. emap (run_cell env repo name (bundle_dir name) server) runners s = (Inr rs, t) \<and> keeps s t
    \<and> list_all good_result rs"
  using assms(2,3)
proof (induction runners arbitrary: s)
  case (Cons c cs)
  obtain r u where u: "run_cell env repo name (bundle_dir name) server c s = (Inr r, u)" "keeps s u" "good_result r"
    using run_cell_succeeds[OF assms(1) Cons.prems(1) Cons.prems(2)] by (metis list.set_intros(1))
  have "clear_results u" using u(2) Cons.prems(2) by (simp add: keeps_def)
  then obtain rs t where t: "emap (run_cell env repo name (bundle_dir name) server) cs u = (Inr rs, t)" "keeps u t"
      "list_all good_result rs"
    using Cons.IH[of u] Cons.prems(1) by auto
  then show ?case using u keeps.trans[OF u(2) t(2)] by (simp add: ebind_def ret_def)
qed (simp add: ret_def keeps.refl)

section \<open>One chain\<close>

lemma start_succeeds:
  fixes s :: "'x pworld_scheme"
  assumes "\<And>argv. he_spawn env argv = Inr ()"
  shows "\<exists>server live t. start_server env repo name b key s = (Inr (server, live), t) \<and> keeps s t"
  by (auto simp: start_server_def eff_simps assms keeps_def clear_results_def)

lemma stop_succeeds:
  fixes s :: "'x pworld_scheme"
  assumes "\<And>p. he_exits env p"
  shows "\<exists>t. stop_server env name live s = (Inr (), t) \<and> keeps s t"
  by (auto simp: stop_server_def eff_simps assms keeps_def clear_results_def)

lemma harness_chain_succeeds:
  fixes s :: "'x pworld_scheme"
  assumes "plain_path repo" and env: "\<And>argv. he_spawn env argv = Inr ()" "\<And>p. he_exits env p"
    and "\<And>c. c \<in> set runners \<Longrightarrow> contract_run env repo name c"
    and src: "getitem chains name = Inr (src, ca)" "sources_there s name src ca" and clear: "clear_results s"
  shows "\<exists>rs t. harness_chain env repo runners name s = (Inr rs, t) \<and> keeps s t \<and> list_all good_result rs"
proof -
  let ?b = "bundle_dir name"
  obtain a where a: "bundle_of name s = (Inr ?b, a)" "keeps s a" using bundle_of_succeeds[OF src clear] by blast
  let ?key = "files a (?b @ [''leaf.key'']) \<noteq> None \<or> ?b @ [''leaf.key''] \<in> dirs a"
  obtain server live b where b: "start_server env repo name ?b ?key a = (Inr (server, live), b)" "keeps a b"
    using start_succeeds[of env repo name ?b ?key a] env(1) by blast
  have "clear_results b" using a(2) b(2) clear by (simp add: keeps_def)
  then obtain rs c where c: "emap (run_cell env repo name ?b server) runners b = (Inr rs, c)" "keeps b c"
      "list_all good_result rs"
    using run_cells_succeed[OF assms(1,4)] by metis
  obtain d where d: "stop_server env name live c = (Inr (), d)" "keeps c d" using stop_succeeds[of env name live c] env(2) by blast
  have "keeps s d" using keeps.trans[OF keeps.trans[OF keeps.trans[OF a(2) b(2)] c(2)] d(2)] .
  moreover have "harness_chain env repo runners name s = (Inr rs, d)"
    using b(1) by (simp add: harness_chain_def ebind_def a(1) exists_file_def c(1) eseq_def d(1) ret_def)
  ultimately show ?thesis using c(3) by blast
qed

text \<open>The sources stay, as the run changes nothing outside the results.\<close>

lemma sources_kept:
  assumes "keeps s t" and "getitem chains name = Inr (src, ca)" and "sources_there s name src ca"
  shows "sources_there t name src ca"
proof -
  note out = chains_outside[OF assms(2)]
  have f: "files t (src @ [x]) = files s (src @ [x])" for x using assms(1) out by (simp add: keeps_def)
  have g: "name \<noteq> ''composite'' \<Longrightarrow> files t (ca @ [x]) = files s (ca @ [x])" for x
    using assms(1) out by (simp add: keeps_def)
  have d: "src @ [x] \<in> dirs t \<Longrightarrow> src @ [x] \<in> dirs s" for x using assms(1) out by (auto simp: keeps_def)
  show ?thesis using assms(3) f g d by (auto simp: sources_there_def)
qed

section \<open>The report\<close>

lemma traverse_total: "(\<And>x. x \<in> set xs \<Longrightarrow> \<exists>y. f x = Inr y) \<Longrightarrow> \<exists>ys. traverse f xs = Inr ys"
  by (induction xs) (auto, metis rbind.simps(2))

lemma dict_of_member: "map_of (dict_of ps) k = Some v \<Longrightarrow> (k, v) \<in> set ps"
  unfolding dict_get_of using map_of_SomeD by fastforce

lemma dict_of_there: "k \<in> fst ` set ps \<Longrightarrow> \<exists>v. map_of (dict_of ps) k = Some v"
  using dict_of_keys[of ps] by (metis map_of_eq_None_iff not_None_eq)

lemma good_cell_reads:
  assumes "good_cell v"
  shows "\<exists>cl. cell_client v = Inr cl" and "\<exists>p. cell_test v = Inr p" and "\<exists>p. cell_version v = Inr p"
    and "cell_test v = Inr (k, tests) \<Longrightarrow> \<exists>m. test_marks tests = Inr m"
  using assms
  by (auto simp: good_cell_def read_cell_def cell_client_def cell_test_def cell_version_def rbind_Inr_iff)

lemma matrix_md_succeeds:
  assumes "list_all good_cell cells"
  shows "\<exists>md. matrix_md cells = Inr md"
proof -
  have good: "good_cell v" if "v \<in> set cells" for v using assms that by (simp add: list_all_iff)
  obtain cls where cls: "traverse cell_client cells = Inr cls"
    using traverse_total[of cells cell_client] good_cell_reads(1) good by blast
  obtain ts where ts: "traverse cell_test cells = Inr ts"
    using traverse_total[of cells cell_test] good_cell_reads(2) good by blast
  obtain vs where vs: "traverse cell_version cells = Inr vs"
    using traverse_total[of cells cell_version] good_cell_reads(3) good by blast
  have marks: "\<exists>m. test_marks tests = Inr m" if "(k, tests) \<in> set ts" for k tests
    using traverse_set[OF ts that] good good_cell_reads(4) by blast
  have cell: "\<exists>e. matrix_cell (dict_of ts) chain client = Inr e" for chain client
    using marks dict_of_member[of ts "(chain, client)"] by (auto simp: matrix_cell_def split: option.splits)
  have row: "\<exists>r. matrix_row (dict_of ts) (sorted_set cls) chain = Inr r" for chain
    using traverse_total[of "sorted_set cls" "matrix_cell (dict_of ts) chain"] cell by (auto simp: matrix_row_def)
  obtain table where table: "traverse (matrix_row (dict_of ts) (sorted_set cls)) (map fst chains) = Inr table"
    using traverse_total[of "map fst chains" "matrix_row (dict_of ts) (sorted_set cls)"] row by blast
  have version: "\<exists>v. map_of (dict_of vs) c = Some v" if "c \<in> set (sorted_set cls)" for c
  proof -
    have "c \<in> set cls" using that by (simp add: sorted_set_strict)
    then obtain v where v: "v \<in> set cells" "cell_client v = Inr c" using traverse_set[OF cls] by blast
    then obtain ver where "cell_version v = Inr (c, ver)"
      using good_cell_reads(3)[OF good[OF v(1)]] by (auto simp: cell_client_def cell_version_def rbind_Inr_iff)
    then have "(c, ver) \<in> set vs" using traverse_list_all2[of cell_version cells vs] vs v(1)
      by (auto simp: list_all2_conv_all_nth in_set_conv_nth)
    then show ?thesis using dict_of_there[of c vs] by force
  qed
  obtain ls where "traverse (\<lambda>c. rbind (getitem (dict_of vs) c) (\<lambda>v. Inr (''- '' @ c @ '': '' @ py_str v))) (sorted_set cls) = Inr ls"
    using traverse_total[of "sorted_set cls" "\<lambda>c. rbind (getitem (dict_of vs) c) (\<lambda>v. Inr (''- '' @ c @ '': '' @ py_str v))"]
      version by (fastforce simp: getitem_def)
  then show ?thesis by (simp add: matrix_md_def Let_def cls ts vs table)
qed

lemma report_cells_succeeds:
  assumes "list_all good_cell cells" and "[''results''] \<in> dirs s" and "[''results'', ''results.json''] \<notin> dirs s"
    and "[] \<in> dirs s" and "[''MATRIX.md''] \<notin> dirs s"
  shows "\<exists>t. report_cells cells failures s = (Inr (), t)"
proof -
  obtain md where md: "matrix_md cells = Inr md" using matrix_md_succeeds[OF assms(1)] by blast
  have each: "\<exists>u. foreach (\<lambda>f. print (g f)) fs w = (Inr (), u)" for g fs and w :: "'a world_scheme"
    by (induction fs arbitrary: w) (simp_all add: ret_def eseq_def ebind_def print_def)
  obtain u where u: "write_file [''results'', ''results.json''] (dumps_indent 0 (JList cells) @ [CHR 0x0A]) s = (Inr (), u)"
      "dirs u = dirs s"
    using assms(2,3) by (simp add: write_file_def)
  obtain v where v: "write_matrix cells u = (Inr (), v)"
    using assms(4,5) u(2) by (simp add: write_matrix_def ebind_def lift_def md write_file_def)
  obtain w where w: "print ([CHR 0x0A] @ str_nat (length cells) @ '' cells -> results/results.json, MATRIX.md'') v = (Inr (), w)"
    by (simp add: print_def)
  show ?thesis using u(1) v w each[of "\<lambda>f. ''RUNNER FAILURE: '' @ f" failures w]
    unfolding report_cells_def run_simps by blast
qed

section \<open>The run\<close>

definition all_sources :: "'x world_scheme \<Rightarrow> bool" where
  "all_sources s \<longleftrightarrow> list_all (\<lambda>(name, src, ca). sources_there s name src ca) chains"

lemma chains_distinct: "distinct (map fst chains)"
  by (simp add: chains_def)

lemma harness_chains_succeed:
  fixes s :: "'x pworld_scheme"
  assumes "plain_path repo" and "\<And>argv. he_spawn env argv = Inr ()" "\<And>p. he_exits env p"
    and "\<And>n c. n \<in> set names \<Longrightarrow> c \<in> set runners \<Longrightarrow> contract_run env repo n c"
    and "set names \<subseteq> set chain_names" and "all_sources s" and "clear_results s"
  shows "\<exists>rss t. emap (harness_chain env repo runners) names s = (Inr rss, t) \<and> keeps s t
    \<and> list_all good_result (concat rss)"
  using assms(4-)
proof (induction names arbitrary: s)
  case (Cons n ns)
  obtain src ca where n: "(n, src, ca) \<in> set chains" using Cons.prems(2) by (auto simp: chain_names_def)
  then have g: "getitem chains n = Inr (src, ca)"
    using map_of_is_SomeI[OF chains_distinct] by (simp add: getitem_def)
  have there: "sources_there s n src ca" using Cons.prems(3) n by (auto simp: all_sources_def list_all_iff)
  have cr: "contract_run env repo n c" if "c \<in> set runners" for c using Cons.prems(1)[of n c] that by simp
  obtain rs u where u: "harness_chain env repo runners n s = (Inr rs, u)" "keeps s u" "list_all good_result rs"
    using harness_chain_succeeds[OF assms(1-3) cr g there Cons.prems(4)] by blast
  have "all_sources u"
    using Cons.prems(3) sources_kept[OF u(2)] map_of_is_SomeI[OF chains_distinct]
    by (auto simp: all_sources_def list_all_iff getitem_def)
  moreover have "clear_results u" using u(2) Cons.prems(4) by (simp add: keeps_def)
  ultimately obtain rss t where t: "emap (harness_chain env repo runners) ns u = (Inr rss, t)" "keeps u t"
      "list_all good_result (concat rss)"
    using Cons.IH[of u] Cons.prems(1,2) by auto
  then show ?case using u keeps.trans[OF u(2) t(2)] by (auto simp: ebind_def ret_def)
qed (simp add: ret_def keeps.refl)

lemma harness_main_succeeds:
  fixes s :: "'x pworld_scheme"
  assumes "plain_path repo" and "\<And>argv. he_spawn env argv = Inr ()" and "\<And>p. he_exits env p"
    and "\<And>n c. n \<in> set chain_names \<Longrightarrow> c \<in> set runners \<Longrightarrow> contract_run env repo n c"
    and "all_sources s" and "clear_results s" and "[''results''] \<in> dirs s" and "[] \<in> dirs s"
    and "[''results'', ''results.json''] \<notin> dirs s" and "[''MATRIX.md''] \<notin> dirs s"
  shows "\<exists>t. harness_main env repo runners s = (Inr (), t)"
proof -
  obtain rss u where u: "emap (harness_chain env repo runners) chain_names s = (Inr rss, u)" "keeps s u"
      "list_all good_result (concat rss)"
    using harness_chains_succeed[OF assms(1-3) assms(4) _ assms(5,6)] by blast
  have cells: "list_all good_cell (cells_of (concat rss))"
    using u(3) by (fastforce simp: cells_of_def list_all_iff good_result_def split: collected.splits)
  have d: "p \<in> dirs u \<longleftrightarrow> p \<in> dirs s" if "p \<notin> run_dirs" for p using u(2) that by (auto simp: keeps_def)
  have "[''results'', ''results.json''] \<notin> run_dirs" "[''MATRIX.md''] \<notin> run_dirs"
    using run_dirs_prefix by (fastforce simp: results_root_def)+
  then have "[''results'', ''results.json''] \<notin> dirs u" "[''MATRIX.md''] \<notin> dirs u" using d assms(9,10) by simp_all
  moreover have "[''results''] \<in> dirs u" "[] \<in> dirs u" using u(2) assms(7,8) by (auto simp: keeps_def)
  ultimately obtain t where "report_cells (cells_of (concat rss)) (failures_of (concat rss)) u = (Inr (), t)"
    using report_cells_succeeds[OF cells] by blast
  then show ?thesis
    using u(1) by (simp add: harness_main_def ebind_def chain_names_def Let_def)
qed

section \<open>Properties\<close>

text \<open>
  C7: a run with runners that follow the contract ends normally.  When the certificates
  are there, nothing is in the way of the results, servers start and exit, and every
  runner can be called, writes only its evidence and reports a success through the
  emitter, then the harness raises nothing, whatever the runners found, whether the
  ports answered, and whichever runners failed.
\<close>

theorem harness_ends_normally:
  fixes s :: "'x pworld_scheme"
  assumes "plain_path repo" and "\<And>argv. he_spawn env argv = Inr ()" and "\<And>p. he_exits env p"
    and "\<And>n c. n \<in> set chain_names \<Longrightarrow> c \<in> set runners \<Longrightarrow> contract_run env repo n c"
    and "all_sources s" and "clear_results s" and "[''results''] \<in> dirs s" and "[] \<in> dirs s"
    and "[''results'', ''results.json''] \<notin> dirs s" and "[''MATRIX.md''] \<notin> dirs s"
  shows "\<exists>t. harness_main env repo runners s = (Inr (), t)"
  using assms by (rule harness_main_succeeds)

theorem harness_ends_normally_witness:
  "\<exists>t. harness_main log_env ''/r/x'' [''go'', ''java''] (sample_hworld\<lparr>dirs := {[], [''results'']}\<rparr>) = (Inr (), t)"
proof (rule harness_ends_normally)
  let ?w = "sample_hworld\<lparr>dirs := {[], [''results'']}\<rparr>"
  show "plain_path ''/r/x''" by (simp add: plain_path_def absolute_def plain_def printable_def)
  show "he_spawn log_env argv = Inr ()" "he_exits log_env p" for argv p by (simp_all add: log_env_def sample_henv_def)
  show "contract_run log_env ''/r/x'' n c" for n c
    using log_emitted unfolding contract_run_def reports_by_emitter_def log_env_def by fastforce
  show "all_sources ?w"
    by (simp add: all_sources_def chains_def sources_there_def sample_hworld_def gen_dir_def p0_dir_def)
  have "files ?w p = None" if "p \<in> run_dirs" for p
    using run_dirs_prefix[OF that] by (auto simp: sample_hworld_def results_root_def)
  then show "clear_results ?w" by (simp add: clear_results_def bundle_dir_def)
qed simp_all

end
