(* ===== verification/Py_Client.thy ===== *)
theory Py_Client
  imports Emit
begin

text \<open>
  \<open>runners/python/client.py\<close>: one test per invocation, exit code 0 or 1, one line of
  output, and what \<open>lib/emit.py\<close> makes of it.  The \<open>ssl\<close> and \<open>socket\<close> modules are the
  environment.  An exception is its class name and text; exceptions that are no
  \<open>Exception\<close> (interrupts) are outside the model.
\<close>

datatype exc = Exc string string

record ssl_env =
  se_subject :: "string \<Rightarrow> exc + string"
  se_context :: "string \<Rightarrow> exc + unit"
  se_connect :: "int \<Rightarrow> exc + unit"
  se_wrap :: "string \<Rightarrow> string \<Rightarrow> int \<Rightarrow> exc + (string \<times> string)"

fun xbind :: "exc + 'a \<Rightarrow> ('a \<Rightarrow> exc + 'b) \<Rightarrow> exc + 'b" where
  "xbind (Inl e) f = Inl e"
| "xbind (Inr x) f = f x"

text \<open>\<open>sys.argv[i]\<close>, with \<open>argv\<close> the arguments after the program name.\<close>

definition argument :: "string list \<Rightarrow> nat \<Rightarrow> exc + string" where
  "argument argv i = (if i \<le> length argv \<and> 0 < i then Inr (argv ! (i - 1))
     else Inl (Exc ''IndexError'' ''list index out of range''))"

definition to_int :: "string \<Rightarrow> exc + int" where
  "to_int s = (case py_int s of Inr n \<Rightarrow> Inr n
     | Inl _ \<Rightarrow> Inl (Exc ''ValueError'' (''invalid literal for int() with base 10: '' @ [CHR 0x27] @ s @ [CHR 0x27])))"

definition parse_test :: "ssl_env \<Rightarrow> string \<Rightarrow> exc + string" where
  "parse_test env leaf = xbind (se_subject env leaf) (\<lambda>d. Inr (''parsed: '' @ d))"

definition handshake_test :: "ssl_env \<Rightarrow> string \<Rightarrow> string \<Rightarrow> string \<Rightarrow> exc + string" where
  "handshake_test env root_pem host port =
     xbind (se_context env root_pem) (\<lambda>_.
     xbind (to_int port) (\<lambda>p.
     xbind (se_connect env p) (\<lambda>_.
     xbind (se_wrap env root_pem host p) (\<lambda>(version, cipher).
     Inr (''handshake: OK '' @ version @ '' '' @ cipher)))))"

definition client_test :: "ssl_env \<Rightarrow> string list \<Rightarrow> exc + string" where
  "client_test env argv =
     xbind (argument argv 1) (\<lambda>cmd.
     if cmd = ''parse'' then xbind (argument argv 2) (parse_test env)
     else if cmd = ''handshake'' then
       xbind (argument argv 2) (\<lambda>r. xbind (argument argv 3) (\<lambda>h. xbind (argument argv 4) (\<lambda>p.
         handshake_test env r h p)))
     else Inl (Exc ''ValueError'' ''usage: parse|handshake''))"

text \<open>The program: the printed line and the exit code.\<close>

definition client_main :: "ssl_env \<Rightarrow> string list \<Rightarrow> string \<times> int" where
  "client_main env argv = (case client_test env argv of
     Inr line \<Rightarrow> (line, 0)
   | Inl (Exc name msg) \<Rightarrow> (name @ '': '' @ msg, 1))"

lemma client_main_exit: "snd (client_main env argv) = 0 \<longleftrightarrow> (\<exists>l. client_test env argv = Inr l)"
  by (auto simp: client_main_def split: sum.splits exc.splits)

section \<open>What the emitter makes of it\<close>

text \<open>What the emitter reports for a run of the client whose output went to the file.\<close>

lemma client_cell_all:
  assumes "client_main env argv = (line, rc)" and "fs log = Some (line @ [CHR 0x0A])" and "one_line line"
  shows "cell fs (str_int rc) log = Inr \<lparr>tc_status = (if rc = 0 then ''ok'' else ''fail''), tc_detail = take 400 line\<rparr>"
proof -
  have "str_int rc \<noteq> ''skip''"
    using str_int_chars[of "CHR ''s''" rc] by (auto simp: is_digit_def)
  then show ?thesis
    using assms by (simp add: cell_def Let_def py_int_str output_lines_line last_two_def)
qed

text \<open>A client that parses, and whose handshake fails.\<close>

definition sample_ssl :: ssl_env where
  "sample_ssl = \<lparr>se_subject = (\<lambda>_. Inr ''CN''), se_context = (\<lambda>_. Inr ()), se_connect = (\<lambda>_. Inr ()),
     se_wrap = (\<lambda>_ _ _. Inl (Exc ''SSLError'' ''unknown ca''))\<rparr>"

end
