(* ===== verification/Runners.thy ===== *)
theory Runners
  imports Scripts Harness_Success Py_Client
begin

text \<open>
  The runner contract (\<open>runners/CONTRACT.md\<close>) as an interface between the harness and its
  runners, and the scripts of the repository as its provider: what a script reports for a
  client is what the client's exit codes and logs say, it writes only the logs of its
  tests, and a harness that calls these scripts publishes nothing else.
\<close>

section \<open>Paths on a command line\<close>

definition path_ok :: "path \<Rightarrow> bool" where
  "path_ok p \<longleftrightarrow> p \<noteq> [] \<and> list_all (\<lambda>x. CHR ''/'' \<notin> set x) p"

lemma path_of_abs: "path_ok p \<Longrightarrow> path_of repo (abs_path repo p) = Some p"
  by (simp add: path_of_def abs_path_def path_ok_def path_str_def split_on_join list_all_iff)

lemma path_ok_append: "path_ok p \<Longrightarrow> CHR ''/'' \<notin> set x \<Longrightarrow> path_ok (p @ [x])"
  by (simp add: path_ok_def)

section \<open>What the logs say\<close>

text \<open>The cell of a test from the exit code and the log, without emitter and files.\<close>

definition log_cell :: "int \<times> string \<Rightarrow> test_cell" where
  "log_cell r = (case r of (rc, text) \<Rightarrow> let ls = output_lines text in
     \<lparr>tc_status = (if rc = 0 then ''ok'' else ''fail''),
      tc_detail = take 400 (if rc = 0 then (if ls = [] then [] else last ls) else join '' | '' (last_two ls))\<rparr>)"

definition plan_cell :: "shell \<Rightarrow> plan \<Rightarrow> files \<Rightarrow> test_cell" where
  "plan_cell sh p fs = (case logged sh p fs of Some r \<Rightarrow> log_cell r
     | None \<Rightarrow> \<lparr>tc_status = ''skip'', tc_detail = (case p of Skip why \<Rightarrow> why | _ \<Rightarrow> [])\<rparr>)"

fun verdicts :: "shell \<Rightarrow> path \<Rightarrow> (string \<times> plan) list \<Rightarrow> files \<Rightarrow> (string \<times> test_cell) list" where
  "verdicts sh ev [] fs = []"
| "verdicts sh ev ((name, p) # ps) fs = (let log = log_path ev name in
     (name, plan_cell sh p (fs(log \<mapsto> []))) # verdicts sh ev ps
       (fs ++ (case logged sh p (fs(log \<mapsto> [])) of None \<Rightarrow> Map.empty | Some (rc, text) \<Rightarrow> [log \<mapsto> text])))"

lemma verdict_names: "map fst (verdicts sh ev ps fs) = map fst ps"
  by (induction sh ev ps fs rule: verdicts.induct) (simp_all add: Let_def)

lemma cell_of_log:
  "F path = Some text \<Longrightarrow> cell F (str_int rc) path = Inr (log_cell (rc, text))"
proof -
  have "str_int rc \<noteq> ''skip''" using str_int_chars[of "CHR ''s''" rc] by (auto simp: is_digit_def)
  then show "F path = Some text \<Longrightarrow> ?thesis"
    by (simp add: cell_def log_cell_def Let_def py_int_str)
qed

lemma plans_emitted:
  assumes "path_ok ev" and "list_all (\<lambda>(n, p). CHR ''/'' \<notin> set n) ps"
    and "run_plans sh repo ev ps fs = (args, logs)" and "\<forall>(p, c)\<in>set logs. F p = Some c"
  shows "emit_tests (read_path repo F) args acc = Inr (dict_fill acc (verdicts sh ev ps fs))"
  using assms
proof (induction ps arbitrary: fs args logs acc)
  case (Cons np ps)
  obtain name p where np: "np = (name, p)" by (cases np)
  let ?log = "log_path ev name"
  let ?l = "logged sh p (fs(?log \<mapsto> []))"
  obtain as ls where one: "run_plan sh repo ev name p fs = (as, ls)" by fastforce
  obtain bs ms where rest: "run_plans sh repo ev ps (fs ++ map_of ls) = (bs, ms)" by fastforce
  have eqs: "args = as @ bs" "logs = ls @ ms" using Cons.prems(3) one rest by (auto simp: np)
  have log: "path_ok ?log" using Cons.prems(1,2) by (simp add: log_path_def path_ok_append np)
  have step: "\<exists>rc arg. as = [name, rc, arg]
      \<and> cell (read_path repo F) rc arg = Inr (plan_cell sh p (fs(?log \<mapsto> [])))
      \<and> map_of ls = (case ?l of None \<Rightarrow> Map.empty | Some (rc, text) \<Rightarrow> [?log \<mapsto> text])"
  proof (cases ?l)
    case None
    then show ?thesis using one by (auto simp: run_plan_def Let_def plan_cell_def cell_skip)
  next
    case (Some r)
    obtain rc body where r: "r = (rc, body)" by (cases r)
    then have a: "as = [name, str_int rc, abs_path repo ?log]" "ls = [(?log, body)]"
      using one Some by (auto simp: run_plan_def Let_def)
    then have "F ?log = Some body" using Cons.prems(4) eqs(2) by auto
    then have "read_path repo F (abs_path repo ?log) = Some body"
      using log by (simp add: read_path_def path_of_abs)
    from cell_of_log[of "read_path repo F", OF this] show ?thesis using a Some r by (simp add: plan_cell_def)
  qed
  then obtain rc arg where a: "as = [name, rc, arg]"
      "cell (read_path repo F) rc arg = Inr (plan_cell sh p (fs(?log \<mapsto> [])))"
      "map_of ls = (case ?l of None \<Rightarrow> Map.empty | Some (rc, text) \<Rightarrow> [?log \<mapsto> text])"
    by blast
  have "emit_tests (read_path repo F) bs (dict_set name (plan_cell sh p (fs(?log \<mapsto> []))) acc)
      = Inr (dict_fill (dict_set name (plan_cell sh p (fs(?log \<mapsto> []))) acc) (verdicts sh ev ps (fs ++ map_of ls)))"
    by (rule Cons.IH[OF Cons.prems(1) _ rest]) (use Cons.prems(2,4) eqs(2) np in auto)
  then show ?case using a by (simp add: eqs np Let_def)
qed simp

text \<open>The logs of different tests are different files, below the evidence directory.\<close>

lemma run_plan_log: "run_plan sh repo ev name p fs = (as, ls) \<Longrightarrow> fst ` set ls \<subseteq> {log_path ev name} \<and> length ls \<le> 1"
  by (auto simp: run_plan_def Let_def split: option.splits)

lemma run_plans_logs:
  "run_plans sh repo ev ps fs = (args, logs) \<Longrightarrow> distinct (map fst ps) \<Longrightarrow>
     distinct (map fst logs) \<and> fst ` set logs \<subseteq> log_path ev ` fst ` set ps"
proof (induction ps arbitrary: fs args logs)
  case (Cons np ps)
  obtain name p where np: "np = (name, p)" by (cases np)
  obtain as ls where one: "run_plan sh repo ev name p fs = (as, ls)" by fastforce
  obtain bs ms where rest: "run_plans sh repo ev ps (fs ++ map_of ls) = (bs, ms)" by fastforce
  have ms: "distinct (map fst ms)" "fst ` set ms \<subseteq> log_path ev ` fst ` set ps" "log_path ev name \<notin> fst ` set ms"
    using Cons.IH[OF rest] Cons.prems(2) by (auto simp: np log_path_def)
  have "logs = ls @ ms" using Cons.prems(1) one rest by (simp add: np)
  then show ?case using run_plan_log[OF one] ms by (cases ls) (auto simp: np)
qed simp

definition three_tests :: "script \<Rightarrow> bool" where
  "three_tests sc \<longleftrightarrow> map fst (sc_plans sc) = [''parse'', ''verify'', ''handshake'']"

definition started :: "shell \<Rightarrow> script \<Rightarrow> files \<Rightarrow> bool" where
  "started sh sc fs \<longleftrightarrow> list_all goes_on (steps_before sh sc fs)"

definition shown_version :: "shell \<Rightarrow> script \<Rightarrow> files \<Rightarrow> string" where
  "shown_version sh sc fs = sc_shown sc (cr_out (sh None (sc_version sc) fs))"

definition script_args :: "shell \<Rightarrow> string \<Rightarrow> path \<Rightarrow> script \<Rightarrow> files \<Rightarrow> string list" where
  "script_args sh repo ev sc fs = [sc_client sc, shown_version sh sc fs] @ fst (run_plans sh repo ev (sc_plans sc) fs)"

definition script_logs :: "shell \<Rightarrow> string \<Rightarrow> path \<Rightarrow> script \<Rightarrow> files \<Rightarrow> (path \<times> string) list" where
  "script_logs sh repo ev sc fs = snd (run_plans sh repo ev (sc_plans sc) fs)"

lemma takeWhile_all: "length (takeWhile P xs) < length xs \<longleftrightarrow> \<not> list_all P xs"
proof -
  have "length (takeWhile P xs) = length xs \<longleftrightarrow> list_all P xs"
    by (metis list_all_iff set_takeWhileD takeWhile_eq_all_conv takeWhile_eq_take take_all order_refl)
  then show ?thesis using length_takeWhile_le[of P xs] by linarith
qed

lemma run_script_fails:
  assumes "\<not> started sh sc fs"
  shows "rr_code (run_script sh repo ev sc fs) \<noteq> 0" and "rr_files (run_script sh repo ev sc fs) = []"
proof -
  let ?s = "steps_before sh sc fs"
  have l: "length (takeWhile goes_on ?s) < length ?s"
    using assms by (simp add: takeWhile_all started_def)
  then show "rr_code (run_script sh repo ev sc fs) \<noteq> 0" "rr_files (run_script sh repo ev sc fs) = []"
    using nth_length_takeWhile[OF l] by (simp_all add: run_script_def Let_def goes_on_def)
qed

lemma script_tests:
  assumes "path_ok ev" and "three_tests sc"
  shows "emit_tests (read_path repo (fs ++ map_of (script_logs sh repo ev sc fs)))
    (fst (run_plans sh repo ev (sc_plans sc) fs)) [] = Inr (verdicts sh ev (sc_plans sc) fs)"
proof -
  let ?F = "fs ++ map_of (script_logs sh repo ev sc fs)"
  obtain args logs where al: "run_plans sh repo ev (sc_plans sc) fs = (args, logs)" by fastforce
  have names: "map fst (sc_plans sc) = [''parse'', ''verify'', ''handshake'']" using assms(2) by (simp add: three_tests_def)
  then have d: "distinct (map fst logs)" using run_plans_logs[OF al] by simp
  have "list_all (\<lambda>n. CHR ''/'' \<notin> set n) (map fst (sc_plans sc))" by (simp add: names)
  then have plain: "list_all (\<lambda>(n, p). CHR ''/'' \<notin> set n) (sc_plans sc)" by (simp add: list_all_iff split_def)
  have "\<forall>(p, c)\<in>set logs. ?F p = Some c" using d by (auto simp: script_logs_def al map_add_Some_iff)
  from plans_emitted[OF assms(1) plain al this, of "[]"]
  have "emit_tests (read_path repo ?F) args [] = Inr (dict_fill [] (verdicts sh ev (sc_plans sc) fs))" .
  moreover have "dict_fill [] xs = xs" if "map fst xs = [''parse'', ''verify'', ''handshake'']" for xs :: "(string \<times> test_cell) list"
    using that by (auto simp: map_eq_Cons_conv)
  ultimately show ?thesis using names by (simp add: al verdict_names)
qed

lemma emitted_by_script:
  assumes "path_ok ev" and "three_tests sc"
  shows "emit_main (read_path repo (fs ++ map_of (script_logs sh repo ev sc fs))) (script_args sh repo ev sc fs)
    = Inr (dumps (cell_json (sc_client sc) (shown_version sh sc fs) (verdicts sh ev (sc_plans sc) fs)) @ [CHR 0x0A])"
  using script_tests[OF assms] by (simp add: script_args_def emit_main_def)

lemma run_script_reports:
  assumes "path_ok ev" and "three_tests sc" and "started sh sc fs"
  shows "rr_code (run_script sh repo ev sc fs) = 0"
    and "rr_stdout (run_script sh repo ev sc fs)
      = dumps (cell_json (sc_client sc) (shown_version sh sc fs) (verdicts sh ev (sc_plans sc) fs)) @ [CHR 0x0A]"
    and "rr_files (run_script sh repo ev sc fs) = script_logs sh repo ev sc fs"
proof -
  let ?s = "steps_before sh sc fs"
  have l: "\<not> length (takeWhile goes_on ?s) < length ?s"
    using assms(3) by (simp add: takeWhile_all started_def)
  have v: "sc_shown sc (cr_out (snd (last ?s))) = shown_version sh sc fs"
    by (simp add: steps_before_def shown_version_def)
  have "run_script sh repo ev sc fs = \<lparr>rr_code = 0,
      rr_stdout = dumps (cell_json (sc_client sc) (shown_version sh sc fs) (verdicts sh ev (sc_plans sc) fs)) @ [CHR 0x0A],
      rr_stderr = concat (map (cr_err \<circ> snd) ?s), rr_files = script_logs sh repo ev sc fs\<rparr>"
    using emitted_by_script[OF assms(1,2), of repo fs sh] l
    by (simp add: run_script_def Let_def v split_def script_args_def script_logs_def)
  then show "rr_code (run_script sh repo ev sc fs) = 0"
    "rr_stdout (run_script sh repo ev sc fs)
      = dumps (cell_json (sc_client sc) (shown_version sh sc fs) (verdicts sh ev (sc_plans sc) fs)) @ [CHR 0x0A]"
    "rr_files (run_script sh repo ev sc fs) = script_logs sh repo ev sc fs" by simp_all
qed

section \<open>The runner contract\<close>

text \<open>
  The interface, in two steps: a runner that succeeds reports through the emitter; and
  every runner of a chain can be called and writes only below its evidence directory.
\<close>

locale emitting_runners =
  fixes run :: "string list \<Rightarrow> files \<Rightarrow> run_result res"
  assumes reports: "run argv fs = Inr q \<Longrightarrow> rr_code q = 0 \<Longrightarrow> reports_by_emitter q"
begin

lemma emits: "he_run env = run \<Longrightarrow> contract_runners env"
  using reports by (simp add: contract_runners_def)

lemma cells_free:
  assumes "plain_path repo" and "he_run env = run" and "emap (harness_chain env repo runners) chain_names s = (Inr rss, u)"
  shows "\<not> occurs repo (dumps_indent 0 (JList (cells_of (concat rss))) @ [CHR 0x0A])"
  by (rule document_free[OF assms(1) harness_main_ok[OF assms(3)]])
    (use harness_main_free[OF assms(1) emits[OF assms(2)] assms(3)] in auto)

end

locale runner_contract = emitting_runners run
  for run :: "string list \<Rightarrow> files \<Rightarrow> run_result res" +
  fixes repo :: string
    and clients :: "string list"
  assumes callable: "n \<in> set chain_names \<Longrightarrow> c \<in> set clients \<Longrightarrow>
      \<exists>q. run (runner_args repo c (bundle_dir n) server (evidence_dir n c)) fs = Inr q"
    and writes_evidence: "n \<in> set chain_names \<Longrightarrow> c \<in> set clients \<Longrightarrow>
      run (runner_args repo c (bundle_dir n) server (evidence_dir n c)) fs = Inr q \<Longrightarrow>
      map_of (rr_files q) p \<noteq> None \<Longrightarrow> below (evidence_dir n c) p"
begin

lemma follows: "he_run env = run \<Longrightarrow> n \<in> set chain_names \<Longrightarrow> c \<in> set clients \<Longrightarrow> contract_run env repo n c"
  unfolding contract_run_def using callable writes_evidence reports by metis

lemma publishes:
  fixes s :: "'x pworld_scheme"
  assumes "plain_path repo" and "he_run env = run" and "\<And>argv. he_spawn env argv = Inr ()" and "\<And>p. he_exits env p"
    and "set runners \<subseteq> set clients" and "all_sources s" and "clear_results s"
    and "[''results''] \<in> dirs s" and "[] \<in> dirs s"
    and "[''results'', ''results.json''] \<notin> dirs s" and "[''MATRIX.md''] \<notin> dirs s"
  shows "\<exists>t rss u txt. harness_main env repo runners s = (Inr (), t)
    \<and> emap (harness_chain env repo runners) chain_names s = (Inr rss, u)
    \<and> files t [''results'', ''results.json''] = Some txt
    \<and> loads (universal_newlines txt) = Inr (JList (cells_of (concat rss))) \<and> \<not> occurs repo txt"
proof -
  have "contract_run env repo n c" if "n \<in> set chain_names" "c \<in> set runners" for n c
    using follows[OF assms(2)] that assms(5) by blast
  from harness_main_succeeds[OF assms(1,3,4) this assms(6-)]
  obtain t where t: "harness_main env repo runners s = (Inr (), t)" by blast
  from harness_main_run[OF t] obtain rss u where u: "emap (harness_chain env repo runners) chain_names s = (Inr rss, u)"
      "report_cells (cells_of (concat rss)) (failures_of (concat rss)) u = (Inr (), t)"
    by blast
  let ?txt = "dumps_indent 0 (JList (cells_of (concat rss))) @ [CHR 0x0A]"
  have "files t [''results'', ''results.json''] = Some ?txt" using report_cells_run[OF u(2)] by blast
  moreover have "loads (universal_newlines ?txt) = Inr (JList (cells_of (concat rss)))"
    by (rule read_back_indent[OF harness_main_ok[OF u(1)]])
  moreover have "\<not> occurs repo ?txt" by (rule cells_free[OF assms(1,2) u(1)])
  ultimately show ?thesis using t u(1) by blast
qed

end

section \<open>The scripts follow the contract\<close>

lemmas script_defs = bouncycastle_script_def dotnet_script_def gnutls_script_def go_script_def java_script_def
  node_script_def openssl30_script_def openssl35_script_def python_script_def rustls_script_def schannel_script_def

lemma script_shape:
  assumes "map_of scripts client = Some f"
  shows "sc_client (f sh repo b server fs) = client" and "three_tests (f sh repo b server fs)"
  using assms unfolding scripts_def
  by (auto simp: script_defs three_tests_def client_plans_def Let_def split: if_splits)

lemma script_names: "map_of scripts client = Some f \<Longrightarrow> CHR ''/'' \<notin> set client"
  by (auto simp: scripts_def split: if_splits)

lemma chain_paths:
  assumes "n \<in> set chain_names" and "CHR ''/'' \<notin> set client"
  shows "path_ok (bundle_dir n)" and "path_ok (evidence_dir n client)"
proof -
  have "CHR ''/'' \<notin> set n" using assms(1) by (auto simp: chain_names_def chains_def)
  then show "path_ok (bundle_dir n)" "path_ok (evidence_dir n client)"
    using assms(2) by (simp_all add: path_ok_def bundle_dir_def evidence_dir_def)
qed

lemma script_at_iff: "script_at repo (abs_path repo [''runners'', client, ''run.sh'']) = map_of scripts client"
proof -
  have "map_option snd (find (\<lambda>(c, f). abs_path repo [''runners'', c, ''run.sh''] = abs_path repo [''runners'', client, ''run.sh'']) xs)
      = map_of xs client" for xs :: "(string \<times> (shell \<Rightarrow> string \<Rightarrow> path \<Rightarrow> string \<Rightarrow> files \<Rightarrow> script)) list"
    by (induction xs) (auto simp: abs_path_def path_str_def)
  then show ?thesis by (simp add: script_at_def)
qed

lemma script_at_known:
  assumes "script_at repo prog = Some f"
  shows "\<exists>client. map_of scripts client = Some f"
proof -
  from assms obtain client where "(client, f) \<in> set scripts"
    by (auto simp: script_at_def find_Some_iff) (metis nth_mem)
  moreover have "distinct (map fst scripts)" by (simp add: scripts_def)
  ultimately show ?thesis using map_of_is_SomeI by metis
qed

lemma call_script_run:
  assumes "map_of scripts client = Some f" and "path_ok b" and "path_ok ev"
  shows "call_script sh repo (runner_args repo client b server ev) fs
    = Inr (run_script sh repo ev (f sh repo b server fs) fs)"
  using assms by (simp add: call_script_def runner_args_def path_of_abs script_at_iff)

lemma path_of_ok: "path_of repo s = Some p \<Longrightarrow> path_ok p"
  using split_on_parts[of _ "CHR ''/''"] by (auto simp: path_of_def path_ok_def list_all_iff split: if_splits)

lemma call_script_inv:
  assumes "call_script sh repo argv fs = Inr q"
  obtains client f b server ev where "map_of scripts client = Some f" "path_ok ev"
    "q = run_script sh repo ev (f sh repo b server fs) fs"
proof -
  from assms obtain prog b server ev f bp evp where "argv = [prog, b, server, ev]"
      "script_at repo prog = Some f" "path_of repo ev = Some evp"
      "q = run_script sh repo evp (f sh repo bp server fs) fs"
    unfolding call_script_def by (auto split: list.splits option.splits)
  then show thesis using that path_of_ok script_at_known by blast
qed

lemma call_script_started:
  assumes "map_of scripts client = Some f" and "path_ok b" and "path_ok ev" and "started sh (f sh repo b server fs) fs"
  shows "\<exists>q. call_script sh repo (runner_args repo client b server ev) fs = Inr q \<and> rr_code q = 0
    \<and> loads (rr_stdout q) = Inr (cell_json client (shown_version sh (f sh repo b server fs) fs)
        (verdicts sh ev (sc_plans (f sh repo b server fs)) fs))"
proof -
  let ?sc = "f sh repo b server fs"
  note sc = script_shape[OF assms(1), of sh repo b server fs]
  have ok: "json_ok (cell_json client (shown_version sh ?sc fs) (verdicts sh ev (sc_plans ?sc) fs))"
    by (rule cell_json_ok) (use sc(2) in \<open>simp add: verdict_names three_tests_def\<close>)
  show ?thesis
    using call_script_run[OF assms(1-3)] run_script_reports(1,2)[OF assms(3) sc(2) assms(4)]
      loads_dumps_all[OF ok, of "[CHR 0x0A]"] sc(1) by simp
qed

text \<open>The arguments of the emitter are a triple for each test.\<close>

lemma run_plans_triples:
  "\<exists>ts. fst (run_plans sh repo ev ps fs) = concat (map (\<lambda>(n, rc, arg). [n, rc, arg]) ts) \<and> map fst ts = map fst ps"
proof (induction ps arbitrary: fs)
  case (Cons np ps)
  obtain name p where np: "np = (name, p)" by (cases np)
  obtain as ls where one: "run_plan sh repo ev name p fs = (as, ls)" by fastforce
  then obtain rc arg where "as = [name, rc, arg]" by (auto simp: run_plan_def Let_def split: option.splits)
  moreover obtain ts where "fst (run_plans sh repo ev ps (fs ++ map_of ls)) = concat (map (\<lambda>(n, rc, arg). [n, rc, arg]) ts)"
      "map fst ts = map fst ps"
    using Cons.IH by blast
  ultimately show ?case by (intro exI[of _ "(name, rc, arg) # ts"]) (simp add: np one split_def)
qed simp

lemma script_args_three:
  assumes "three_tests sc"
  obtains rc1 f1 rc2 f2 rc3 f3 where "script_args sh repo ev sc fs =
    [sc_client sc, shown_version sh sc fs, ''parse'', rc1, f1, ''verify'', rc2, f2, ''handshake'', rc3, f3]"
proof -
  obtain ts where ts: "fst (run_plans sh repo ev (sc_plans sc) fs) = concat (map (\<lambda>(n, rc, arg). [n, rc, arg]) ts)"
      "map fst ts = [''parse'', ''verify'', ''handshake'']"
    using run_plans_triples[of sh repo ev "sc_plans sc" fs] assms unfolding three_tests_def by metis
  then obtain t1 t2 t3 where "ts = [(''parse'', t1), (''verify'', t2), (''handshake'', t3)]"
    by (auto simp: map_eq_Cons_conv)
  then show thesis
    using that[of "fst t1" "snd t1" "fst t2" "snd t2" "fst t3" "snd t3"] ts(1)
    by (simp add: script_args_def split_def)
qed

lemma script_reports_by_emitter:
  assumes "path_ok ev" and "three_tests sc" and "rr_code (run_script sh repo ev sc fs) = 0"
  shows "reports_by_emitter (run_script sh repo ev sc fs)"
proof -
  have s: "started sh sc fs" using run_script_fails(1) assms(3) by blast
  show ?thesis
    unfolding reports_by_emitter_def run_script_reports(2)[OF assms(1,2) s]
    using emitted_by_script[OF assms(1,2)] script_args_three[OF assms(2)] by metis
qed

lemma script_files_below:
  assumes "path_ok ev" and "three_tests sc" and "map_of (rr_files (run_script sh repo ev sc fs)) p \<noteq> None"
  shows "\<exists>name\<in>{''parse'', ''verify'', ''handshake''}. p = log_path ev name"
proof -
  obtain args logs where al: "run_plans sh repo ev (sc_plans sc) fs = (args, logs)" by fastforce
  have names: "map fst (sc_plans sc) = [''parse'', ''verify'', ''handshake'']" using assms(2) by (simp add: three_tests_def)
  have "started sh sc fs"
  proof (rule ccontr)
    assume "\<not> started sh sc fs"
    from run_script_fails(2)[OF this] assms(3) show False by simp
  qed
  then have "rr_files (run_script sh repo ev sc fs) = logs"
    by (simp add: run_script_reports(3)[OF assms(1,2)] script_logs_def al)
  then have "p \<in> fst ` set logs" using assms(3) by (auto dest: map_of_SomeD intro: rev_image_eqI)
  moreover have "fst ` set (sc_plans sc) = {''parse'', ''verify'', ''handshake''}"
    using arg_cong[OF names, of set] by simp
  ultimately show ?thesis using run_plans_logs[OF al] names by auto
qed

interpretation repo_emitters: emitting_runners "call_script sh repo" for sh repo
proof unfold_locales
  fix argv fs q
  assume "call_script sh repo argv fs = Inr q" and "rr_code q = 0"
  then show "reports_by_emitter q"
    using script_reports_by_emitter script_shape(2) by (metis call_script_inv)
qed

interpretation repo_runners: runner_contract "call_script sh repo" repo "map fst scripts" for sh repo
proof unfold_locales
  fix n c server fs q p
  assume "n \<in> set chain_names" and "c \<in> set (map fst scripts)"
  then obtain f where f: "map_of scripts c = Some f" by (metis list.set_map map_of_eq_None_iff not_None_eq)
  note paths = chain_paths[OF \<open>n \<in> set chain_names\<close> script_names[OF f]]
  show "\<exists>q. call_script sh repo (runner_args repo c (bundle_dir n) server (evidence_dir n c)) fs = Inr q"
    using call_script_run[OF f paths] by blast
  assume "call_script sh repo (runner_args repo c (bundle_dir n) server (evidence_dir n c)) fs = Inr q"
    and "map_of (rr_files q) p \<noteq> None"
  then have "map_of (rr_files (run_script sh repo (evidence_dir n c) (f sh repo (bundle_dir n) server fs) fs)) p \<noteq> None"
    by (simp add: call_script_run[OF f paths])
  from script_files_below[OF paths(2) script_shape(2)[OF f] this]
  obtain name where "p = log_path (evidence_dir n c) name" by blast
  then show "below (evidence_dir n c) p" by (simp add: below_def log_path_def)
qed

section \<open>What the harness publishes of a script\<close>

text \<open>
  The cell of a client on a chain: its version and, for every test, what the exit code and
  the log of the client's command say, with the checkout's path redacted.
\<close>

definition published_cell :: "string \<Rightarrow> string \<Rightarrow> string \<Rightarrow> string \<Rightarrow> (string \<times> test_cell) list \<Rightarrow> json" where
  "published_cell repo name client version tests =
     JObj [(''client'', JStr client), (''client_version'', JStr (redact repo version)),
       (''tests'', JObj (map (\<lambda>(k, c). (k, redacted_test repo c)) tests)), (''chain'', JStr name)]"

definition published :: "shell \<Rightarrow> string \<Rightarrow> string \<Rightarrow> string \<Rightarrow> collected \<Rightarrow> bool" where
  "published sh repo name client r \<longleftrightarrow> (\<exists>f server fs sc. map_of scripts client = Some f
     \<and> server \<in> {''-'', server_name name} \<and> sc = f sh repo (bundle_dir name) server fs
     \<and> (case r of
          Cell v \<Rightarrow> started sh sc fs \<and> v = published_cell repo name client (shown_version sh sc fs)
            (verdicts sh (evidence_dir name client) (sc_plans sc) fs)
        | Failure _ \<Rightarrow> \<not> started sh sc fs))"

lemma script_collected:
  assumes "plain_path repo" and "path_ok ev" and "three_tests sc" and "started sh sc fs"
    and "CHR ''/'' \<notin> set (sc_client sc)"
    and "collect_cell repo name runner (rr_stdout (run_script sh repo ev sc fs)) = Inr (v, l)"
  shows "v = published_cell repo name (sc_client sc) (shown_version sh sc fs) (verdicts sh ev (sc_plans sc) fs)"
proof -
  let ?F = "read_path repo (fs ++ map_of (script_logs sh repo ev sc fs))"
  obtain rc1 f1 rc2 f2 rc3 f3 where args: "script_args sh repo ev sc fs =
      [sc_client sc, shown_version sh sc fs, ''parse'', rc1, f1, ''verify'', rc2, f2, ''handshake'', rc3, f3]"
    by (rule script_args_three[OF assms(3)])
  have emitted: "emit_main ?F (script_args sh repo ev sc fs) = Inr (rr_stdout (run_script sh repo ev sc fs))"
    using emitted_by_script[OF assms(2,3)] run_script_reports(2)[OF assms(2-4)] by simp
  from collect_emitted_all[OF assms(1) emitted[unfolded args], of name runner] obtain c1 c2 c3 where
      c: "cell ?F rc1 f1 = Inr c1" "cell ?F rc2 f2 = Inr c2" "cell ?F rc3 f3 = Inr c3"
    and v: "v = JObj [(''client'', JStr (redact repo (sc_client sc))),
      (''client_version'', JStr (redact repo (shown_version sh sc fs))),
      (''tests'', JObj [(''parse'', redacted_test repo c1), (''verify'', redacted_test repo c2),
        (''handshake'', redacted_test repo c3)]), (''chain'', JStr name)]"
    using assms(6) by auto
  have "verdicts sh ev (sc_plans sc) fs = [(''parse'', c1), (''verify'', c2), (''handshake'', c3)]"
    using script_tests[OF assms(2,3), of repo fs sh] args c by (simp add: script_args_def)
  moreover have "redact repo (sc_client sc) = sc_client sc"
  proof (rule redact_unchanged)
    have "absolute repo" using assms(1) by (simp add: plain_path_def)
    then show "\<not> occurs repo (sc_client sc)" "repo \<noteq> []" using no_slash_free assms(5) by (auto simp: absolute_def)
  qed
  ultimately show ?thesis by (simp add: v published_cell_def)
qed

lemma run_cell_published:
  fixes s :: "'x pworld_scheme"
  assumes "plain_path repo" and "he_run env = call_script sh repo" and "name \<in> set chain_names"
    and "client \<in> set (map fst scripts)" and "server \<in> {''-'', server_name name}"
    and "run_cell env repo name (bundle_dir name) server client s = (Inr r, t)"
  shows "published sh repo name client r"
proof -
  obtain f where f: "map_of scripts client = Some f"
    using assms(4) by (metis list.set_map map_of_eq_None_iff not_None_eq)
  note paths = chain_paths[OF assms(3) script_names[OF f]]
  from assms(6) obtain q and u v :: "'x pworld_scheme" where
      q: "exec_runner env repo name (bundle_dir name) server client u = (Inr q, v)"
      "(if rr_code q \<noteq> 0 then ret (Failure (failure_line repo name client q))
      else eseq (redact_tree (he_reads env) repo (evidence_dir name client))
        (ebind (lift (collect_cell repo name client (rr_stdout q))) (\<lambda>(cell, l).
          eseq (print l) (ret (Cell cell))))) v = (Inr r, t)"
    unfolding run_cell_def by (auto simp only: run_simps)
  let ?sc = "f sh repo (bundle_dir name) server (files u)"
  have run: "q = run_script sh repo (evidence_dir name client) ?sc (files u)"
    using q(1) by (auto simp: exec_runner_def assms(2) call_script_run[OF f paths])
  note sc = script_shape[OF f, of sh repo "bundle_dir name" server "files u"]
  show ?thesis
  proof (cases "started sh ?sc (files u)")
    case False
    then have "rr_code q \<noteq> 0" using run_script_fails(1) run by blast
    then have "\<exists>l. r = Failure l" using q(2) by (auto simp: run_simps)
    then show ?thesis unfolding published_def using f assms(5) False 
      by (intro exI[of _ f] exI[of _ server] exI[of _ "files u"] exI[of _ ?sc]) auto
  next
    case True
    have "rr_code q = 0" using run_script_reports(1)[OF paths(2) sc(2) True] run by simp
    then obtain c l where c: "collect_cell repo name client (rr_stdout q) = Inr (c, l)" "r = Cell c"
      using q(2) by (auto simp: run_simps)
    have "CHR ''/'' \<notin> set (sc_client ?sc)" using script_names[OF f] sc(1) by simp
    from script_collected[OF assms(1) paths(2) sc(2) True this] c(1) run
    have "c = published_cell repo name client (shown_version sh ?sc (files u))
        (verdicts sh (evidence_dir name client) (sc_plans ?sc) (files u))"
      by (auto simp: sc(1))
    then show ?thesis unfolding published_def using f assms(5) True c(2) 
      by (intro exI[of _ f] exI[of _ server] exI[of _ "files u"] exI[of _ ?sc]) auto
  qed
qed

lemma bundle_of_dir: "bundle_of name s = (Inr b, t) \<Longrightarrow> b = bundle_dir name"
  unfolding bundle_of_def by (auto simp: run_simps split: prod.splits)

lemma harness_chain_published:
  fixes s :: "'x pworld_scheme"
  assumes "plain_path repo" and "he_run env = call_script sh repo" and "name \<in> set chain_names"
    and "set runners \<subseteq> set (map fst scripts)" and "harness_chain env repo runners name s = (Inr rs, t)"
  shows "list_all2 (published sh repo name) runners rs"
proof -
  from assms(5) obtain b server live key and u v w x :: "'x pworld_scheme" where steps:
      "bundle_of name s = (Inr b, u)" "start_server env repo name b key v = (Inr (server, live), w)"
      "emap (run_cell env repo name b server) runners w = (Inr rs, x)"
    unfolding harness_chain_def split_def by (auto simp only: run_simps) (metis prod.collapse)
  have b: "b = bundle_dir name" by (rule bundle_of_dir[OF steps(1)])
  have server: "server \<in> {''-'', server_name name}"
    using steps(2) by (auto simp: start_server_def run_simps split: if_splits)
  show ?thesis
    by (rule emap_run_all2[OF steps(3)])
      (use run_cell_published[OF assms(1-3) _ server] assms(4) b in blast)
qed

section \<open>The Python runner\<close>

text \<open>
  The container runs \<open>client.py\<close> with the arguments after its name and hands on its output
  and exit code; what the client sees of the files is the mounted bundle.
\<close>

definition mounted :: "files \<Rightarrow> path \<Rightarrow> string \<Rightarrow> string option" where
  "mounted fs b = (\<lambda>x. fs (b @ [x]))"

definition runs_client :: "shell \<Rightarrow> string \<Rightarrow> path \<Rightarrow> string \<Rightarrow> ((string \<Rightarrow> string option) \<Rightarrow> ssl_env) \<Rightarrow> bool" where
  "runs_client sh repo b server E \<longleftrightarrow> (\<forall>args fs line rc.
     client_main (E (mounted fs b)) args = (line, rc) \<longrightarrow>
     (let r = sh None (dock repo b server (script_mount repo ''python'') [''python:3.13-slim'', ''python3'', ''/r/client.py''] @ args) fs in
      cr_code r = rc \<and> cr_both r = line @ [CHR 0x0A]))"

definition client_verdict :: "exc + string \<Rightarrow> test_cell" where
  "client_verdict r = (case r of Inr l \<Rightarrow> \<lparr>tc_status = ''ok'', tc_detail = take 400 l\<rparr>
    | Inl (Exc name msg) \<Rightarrow> \<lparr>tc_status = ''fail'', tc_detail = take 400 (name @ '': '' @ msg)\<rparr>)"

lemma client_log:
  assumes "one_line (fst (client_main env args))"
  shows "log_cell (snd (client_main env args), fst (client_main env args) @ [CHR 0x0A]) = client_verdict (client_test env args)"
proof -
  obtain line rc where m: "client_main env args = (line, rc)" by fastforce
  let ?F = "\<lambda>_. Some (line @ [CHR 0x0A])"
  have "cell ?F (str_int rc) [] = Inr (log_cell (rc, line @ [CHR 0x0A]))" by (rule cell_of_log) simp
  then show ?thesis
    using client_cell_all[of env args line rc ?F "[]"] m assms
    by (auto simp: client_main_def client_verdict_def split: sum.splits exc.splits)
qed

lemma python_plan:
  assumes "runs_client sh repo b server E" and "\<And>x. fs (b @ [x]) = gs (b @ [x])"
    and "one_line (fst (client_main (E (mounted gs b)) args))"
  shows "plan_cell sh (Run None (dock repo b server (script_mount repo ''python'')
      [''python:3.13-slim'', ''python3'', ''/r/client.py''] @ args)) fs
    = client_verdict (client_test (E (mounted gs b)) args)"
proof -
  have m: "mounted fs b = mounted gs b" using assms(2) by (simp add: mounted_def)
  obtain line rc where c: "client_main (E (mounted gs b)) args = (line, rc)" by fastforce
  then have "client_main (E (mounted fs b)) args = (line, rc)" by (simp add: m)
  then show ?thesis
    using assms(1) client_log[OF assms(3)] c unfolding runs_client_def plan_cell_def by (simp add: Let_def)
qed

section \<open>Properties\<close>

text \<open>
  C4: a runner reports its client.  Called as the harness calls it, a script of the
  repository fails before its tests (and writes nothing) exactly when its image, its
  staging or its version command fails; otherwise it succeeds, whatever the client does,
  and prints one object that decodes to the client, its version and three tests, each
  with the verdict that the exit code and the log of its own command give.  It writes
  the logs of its tests and no other file.
\<close>

theorem script_reports_client:
  assumes "map_of scripts client = Some f" and "path_ok b" and "path_ok ev"
  shows "\<exists>q sc. call_script sh repo (runner_args repo client b server ev) fs = Inr q \<and> sc = f sh repo b server fs
    \<and> (rr_code q = 0 \<longleftrightarrow> started sh sc fs)
    \<and> (if rr_code q = 0
       then loads (rr_stdout q) = Inr (cell_json client (shown_version sh sc fs) (verdicts sh ev (sc_plans sc) fs))
       else rr_files q = [])
    \<and> map fst (sc_plans sc) = [''parse'', ''verify'', ''handshake'']
    \<and> fst ` set (rr_files q) \<subseteq> log_path ev ` {''parse'', ''verify'', ''handshake''}"
proof -
  let ?sc = "f sh repo b server fs"
  let ?q = "run_script sh repo ev ?sc fs"
  note sc = script_shape[OF assms(1), of sh repo b server fs]
  have names: "map fst (sc_plans ?sc) = [''parse'', ''verify'', ''handshake'']" using sc(2) by (simp add: three_tests_def)
  have code: "rr_code ?q = 0 \<longleftrightarrow> started sh ?sc fs"
    using run_script_fails(1) run_script_reports(1)[OF assms(3) sc(2)] by blast
  moreover have "if rr_code ?q = 0
      then loads (rr_stdout ?q) = Inr (cell_json client (shown_version sh ?sc fs) (verdicts sh ev (sc_plans ?sc) fs))
      else rr_files ?q = []"
    using code run_script_fails(2) call_script_started[OF assms] call_script_run[OF assms] by fastforce
  moreover have "fst ` set (rr_files ?q) \<subseteq> log_path ev ` {''parse'', ''verify'', ''handshake''}"
  proof
    fix p
    assume "p \<in> fst ` set (rr_files ?q)"
    then have "map_of (rr_files ?q) p \<noteq> None" by (simp add: map_of_eq_None_iff)
    from script_files_below[OF assms(3) sc(2) this]
    show "p \<in> log_path ev ` {''parse'', ''verify'', ''handshake''}" by blast
  qed
  ultimately show ?thesis
    using call_script_run[OF assms] names by (intro exI[of _ ?q] exI[of _ ?sc] conjI) (simp_all only:)
qed

definition sample_shell :: shell where
  "sample_shell fed argv fs = \<lparr>cr_code = (if ''verify'' \<in> set argv then 1 else 0), cr_out = ''v1'', cr_err = [], cr_both = ''at /r/x''\<rparr>"

theorem script_reports_client_witness:
  "\<exists>q. call_script sample_shell ''/r/x'' (runner_args ''/r/x'' ''go'' [''b''] ''-'' [''ev'']) (\<lambda>_. None) = Inr q
    \<and> loads (rr_stdout q) = Inr (cell_json ''go'' ''v1'' [(''parse'', \<lparr>tc_status = ''ok'', tc_detail = ''at /r/x''\<rparr>),
       (''verify'', \<lparr>tc_status = ''fail'', tc_detail = ''at /r/x''\<rparr>),
       (''handshake'', \<lparr>tc_status = ''skip'', tc_detail = ''no server for this chain''\<rparr>)])"
proof -
  have f: "map_of scripts ''go'' = Some go_script" by (simp add: scripts_def)
  let ?sc = "go_script sample_shell ''/r/x'' [''b''] ''-'' (\<lambda>_. None)"
  let ?tests = "[(''parse'', \<lparr>tc_status = ''ok'', tc_detail = ''at /r/x''\<rparr>),
       (''verify'', \<lparr>tc_status = ''fail'', tc_detail = ''at /r/x''\<rparr>),
       (''handshake'', \<lparr>tc_status = ''skip'', tc_detail = ''no server for this chain''\<rparr>)]"
  have s: "started sample_shell ?sc (\<lambda>_. None)" "shown_version sample_shell ?sc (\<lambda>_. None) = ''v1''"
    "verdicts sample_shell [''ev''] (sc_plans ?sc) (\<lambda>_. None) = ?tests"
    by code_simp+
  have "path_ok [''b'']" "path_ok [''ev'']" by (simp_all add: path_ok_def)
  from script_reports_client[OF f this, of sample_shell "''/r/x''" "''-''" "\<lambda>_. None"]
  obtain q where "call_script sample_shell ''/r/x'' (runner_args ''/r/x'' ''go'' [''b''] ''-'' [''ev'']) (\<lambda>_. None) = Inr q"
      "rr_code q = 0"
      "if rr_code q = 0 then loads (rr_stdout q) = Inr (cell_json ''go'' (shown_version sample_shell ?sc (\<lambda>_. None))
         (verdicts sample_shell [''ev''] (sc_plans ?sc) (\<lambda>_. None))) else rr_files q = []"
    using s(1) by blast
  then show ?thesis using s(2,3) by (metis (no_types))
qed

text \<open>
  C1: a run with the repository's own runners.  When the certificates are there, nothing
  is in the way of the results, and servers start and exit, then a run of the harness
  with scripts among the eleven below \<open>runners/\<close> ends normally, whatever \<open>docker\<close>, the clients and the
  network do.  On every chain every client has its turn in order, giving a failure when
  its script could not start and otherwise the cell of its version and verdicts;
  \<open>results.json\<close> decodes to these cells and holds the checkout's path nowhere.
\<close>

theorem scripts_publish:
  fixes s :: "'x pworld_scheme"
  assumes "plain_path repo" and "he_run env = call_script sh repo"
    and "\<And>argv. he_spawn env argv = Inr ()" and "\<And>p. he_exits env p"
    and "set (runner_names entries s) \<subseteq> set (map fst scripts)" and "all_sources s" and "clear_results s"
    and "[''results''] \<in> dirs s" and "[] \<in> dirs s"
    and "[''results'', ''results.json''] \<notin> dirs s" and "[''MATRIX.md''] \<notin> dirs s"
  shows "\<exists>t rss txt. harness_script env repo entries s = (Inr (), t)
    \<and> list_all2 (\<lambda>name. list_all2 (published sh repo name) (runner_names entries s)) chain_names rss
    \<and> files t [''results'', ''results.json''] = Some txt
    \<and> loads (universal_newlines txt) = Inr (JList (cells_of (concat rss))) \<and> \<not> occurs repo txt"
proof -
  let ?runners = "runner_names entries s"
  from repo_runners.publishes[OF assms] obtain t rss u doc where
      r: "harness_main env repo ?runners s = (Inr (), t)"
      "emap (harness_chain env repo ?runners) chain_names s = (Inr rss, u)"
      "files t [''results'', ''results.json''] = Some doc"
      "loads (universal_newlines doc) = Inr (JList (cells_of (concat rss)))" "\<not> occurs repo doc"
    by blast
  have "list_all2 (\<lambda>name. list_all2 (published sh repo name) ?runners) chain_names rss"
    by (rule emap_run_all2[OF r(2)]) (rule harness_chain_published[OF assms(1,2) _ assms(5)])
  moreover have "harness_script env repo entries s = (Inr (), t)"
    using r(1) by (simp add: harness_script_def ebind_def gets_def)
  ultimately show ?thesis using r(3-5) by blast
qed

text \<open>A checkout with the eleven scripts.\<close>

definition checkout :: pworld where
  "checkout = \<lparr>files = (\<lambda>p. if p \<noteq> [] \<and> hd p \<in> set [''gen'', ''phase0'', ''composite'']
       \<or> p \<in> set (map (\<lambda>c. [''runners'', c, ''run.sh'']) (map fst scripts)) then Some ''pem'' else None),
     dirs = {[], [''results'']}, out = [], running = [], trace = []\<rparr>"

lemma checkout_runners: "runner_names (''lib'' # rev (map fst scripts)) checkout = map fst scripts"
  by code_simp

theorem scripts_publish_witness:
  "\<exists>t rss. harness_script ((sample_henv 1)\<lparr>he_run := call_script sample_shell ''/r/x''\<rparr>) ''/r/x'' (''lib'' # rev (map fst scripts)) checkout
      = (Inr (), t) \<and> list_all2 (\<lambda>name. list_all2 (published sample_shell ''/r/x'' name) (map fst scripts)) chain_names rss"
proof -
  let ?env = "(sample_henv 1)\<lparr>he_run := call_script sample_shell ''/r/x''\<rparr>" and ?e = "''lib'' # rev (map fst scripts)"
  have "\<exists>t rss txt. harness_script ?env ''/r/x'' ?e checkout = (Inr (), t)
    \<and> list_all2 (\<lambda>name. list_all2 (published sample_shell ''/r/x'' name) (runner_names ?e checkout)) chain_names rss
    \<and> files t [''results'', ''results.json''] = Some txt
    \<and> loads (universal_newlines txt) = Inr (JList (cells_of (concat rss))) \<and> \<not> occurs ''/r/x'' txt"
  proof (rule scripts_publish)
    show "plain_path ''/r/x''" by (simp add: plain_path_def absolute_def plain_def printable_def)
    show "he_spawn ?env argv = Inr ()" "he_exits ?env p" for argv p by (simp_all add: sample_henv_def)
    show "set (runner_names ?e checkout) \<subseteq> set (map fst scripts)" by (simp only: checkout_runners subset_refl)
    show "all_sources checkout"
      by (simp add: all_sources_def chains_def sources_there_def checkout_def gen_dir_def p0_dir_def)
    have "files checkout p = None" if "p \<in> run_dirs" for p
      using run_dirs_prefix[OF that] by (auto simp: checkout_def results_root_def)
    then show "clear_results checkout" by (simp add: clear_results_def bundle_dir_def checkout_def)
  qed (simp_all add: checkout_def)
  then show ?thesis unfolding checkout_runners by blast
qed

text \<open>
  C21: the Python column.  When the container runs \<open>client.py\<close> on the mounted bundle and
  the client's output is one line, the Python script reports for \<open>parse\<close> and, when there
  is a server, for \<open>handshake\<close> exactly what the client's test did: ok with its line, or fail
  with the class and text of the exception, cut at 400 characters; and \<open>verify\<close> is
  skipped with the reason that the standard library cannot do it.
\<close>

theorem python_column:
  assumes "runs_client sh repo b server E" and "b \<noteq> ev" and "path_ok b" and "path_ok ev"
    and "started sh (python_script sh repo b server fs) fs"
    and "one_line (fst (client_main (E (mounted fs b)) [''parse'', ''/b/leaf.crt'']))"
    and "one_line (fst (client_main (E (mounted fs b)) [''handshake'', ''/b/root.crt'', docker_host server, port_of server]))"
  shows "\<exists>q version. call_script sh repo (runner_args repo ''python'' b server ev) fs = Inr q
    \<and> loads (rr_stdout q) = Inr (cell_json ''python'' version
      [(''parse'', client_verdict (client_test (E (mounted fs b)) [''parse'', ''/b/leaf.crt''])),
       (''verify'', \<lparr>tc_status = ''skip'', tc_detail = ''stdlib has no offline chain-verification API''\<rparr>),
       (''handshake'', if server = ''-'' then \<lparr>tc_status = ''skip'', tc_detail = ''no server for this chain''\<rparr>
          else client_verdict (client_test (E (mounted fs b)) [''handshake'', ''/b/root.crt'', host_of server, port_of server]))])"
proof -
  let ?sc = "python_script sh repo b server fs"
  have f: "map_of scripts ''python'' = Some python_script" by (simp add: scripts_def)
  note sc = script_shape[OF f, of sh repo b server fs]
  have apart: "b @ [x] \<noteq> log_path ev name" for x name using assms(2) by (simp add: log_path_def)
  note plan = python_plan[OF assms(1), of _ fs]
  have d: "docker_host server = host_of server" if "server \<noteq> ''-''" using that by (simp add: docker_host_def)
  have "verdicts sh ev (sc_plans ?sc) fs =
      [(''parse'', client_verdict (client_test (E (mounted fs b)) [''parse'', ''/b/leaf.crt''])),
       (''verify'', \<lparr>tc_status = ''skip'', tc_detail = ''stdlib has no offline chain-verification API''\<rparr>),
       (''handshake'', if server = ''-'' then \<lparr>tc_status = ''skip'', tc_detail = ''no server for this chain''\<rparr>
          else client_verdict (client_test (E (mounted fs b)) [''handshake'', ''/b/root.crt'', host_of server, port_of server]))]"
    using plan[OF _ assms(6)] plan[OF _ assms(7)] apart d
    by (auto simp: python_script_def Let_def if_served_def plan_cell_def[of sh "Skip _"] map_add_def
        simp del: logged.simps(2) split: option.splits)
  then show ?thesis
    using call_script_started[OF f assms(3-5)] by metis
qed

definition container :: shell where
  "container fed argv fs = (if ''/r/client.py'' \<in> set argv
     then (case client_main sample_ssl (tl (dropWhile (\<lambda>x. x \<noteq> ''/r/client.py'') argv)) of (line, rc) \<Rightarrow>
       \<lparr>cr_code = rc, cr_out = [], cr_err = [], cr_both = line @ [CHR 0x0A]\<rparr>)
     else \<lparr>cr_code = 0, cr_out = ''Python 3.13'', cr_err = [], cr_both = []\<rparr>)"

theorem python_column_witness:
  "\<exists>q version. call_script container ''/r'' (runner_args ''/r'' ''python'' [''b''] ''m:1'' [''ev'']) (\<lambda>_. None) = Inr q
    \<and> loads (rr_stdout q) = Inr (cell_json ''python'' version
      [(''parse'', \<lparr>tc_status = ''ok'', tc_detail = ''parsed: CN''\<rparr>),
       (''verify'', \<lparr>tc_status = ''skip'', tc_detail = ''stdlib has no offline chain-verification API''\<rparr>),
       (''handshake'', \<lparr>tc_status = ''fail'', tc_detail = ''SSLError: unknown ca''\<rparr>)])"
proof -
  have "runs_client container ''/r'' [''b''] ''m:1'' (\<lambda>_. sample_ssl)"
    unfolding runs_client_def by (simp add: container_def dock_def bundle_mount_def script_mount_def script_dir_def
        docker_host_def host_of_def abs_path_def path_str_def Let_def)
  moreover have "started container (python_script container ''/r'' [''b''] ''m:1'' (\<lambda>_. None)) (\<lambda>_. None)" by code_simp
  moreover have "one_line (fst (client_main sample_ssl [''parse'', ''/b/leaf.crt'']))"
    "one_line (fst (client_main sample_ssl [''handshake'', ''/b/root.crt'', docker_host ''m:1'', port_of ''m:1'']))" by code_simp+
  moreover have "path_ok [''b'']" "path_ok [''ev'']" "[''b''] \<noteq> [''ev'']" by (simp_all add: path_ok_def)
  moreover have "client_verdict (client_test sample_ssl [''parse'', ''/b/leaf.crt'']) = \<lparr>tc_status = ''ok'', tc_detail = ''parsed: CN''\<rparr>"
    "client_verdict (client_test sample_ssl [''handshake'', ''/b/root.crt'', host_of ''m:1'', port_of ''m:1''])
      = \<lparr>tc_status = ''fail'', tc_detail = ''SSLError: unknown ca''\<rparr>" by code_simp+
  ultimately show ?thesis
    using python_column[of container "''/r''" "[''b'']" "''m:1''" "\<lambda>_. sample_ssl" "[''ev'']" "\<lambda>_. None"] by simp
qed

end
