(* ===== verification/Catalyst.thy ===== *)
theory Catalyst
  imports Der Effects
begin

text \<open>
  \<open>phase0/catalyst_build.py\<close>: the hybrid certificate, a classical leaf that carries an
  ML-DSA key and signature in three non-critical extensions.  What the \<open>cryptography\<close>
  package and \<open>openssl\<close> do is the environment: a builder is the record of what the script
  passes to it, and signing turns it into a certificate.  The length writer \<open>der_len\<close>
  is in theory \<open>Der\<close>.  Files hold bytes written as characters; \<open>sh\<close> runs a command
  that may leave files.
\<close>

section \<open>Constants\<close>

definition chain_dir :: path where
  "chain_dir = [''phase0'', ''chains'', ''ecdsa'']"

definition out_dir :: path where
  "out_dir = [''phase0'', ''chains'', ''catalyst'']"

type_synonym oid = "nat list"

definition oid_sapki :: oid where
  "oid_sapki = [2, 5, 29, 72]"

definition oid_alt_alg :: oid where
  "oid_alt_alg = [2, 5, 29, 73]"

definition oid_alt_sig :: oid where
  "oid_alt_sig = [2, 5, 29, 74]"

definition alt_alg_der :: bytes where
  "alt_alg_der = [0x30, 0x0b, 0x06, 0x09, 0x60, 0x86, 0x48, 0x01, 0x65, 0x03, 0x04, 0x03, 0x12]"

section \<open>The builder\<close>

datatype aki = From_SKI bytes | From_Key bytes

datatype extension =
    Basic_Constraints bool "nat option"
  | Key_Usage "bool list"
  | Extended_Key_Usage "string list"
  | Subject_Alternative_Name "string list"
  | Subject_Key_Identifier bytes
  | Authority_Key_Identifier aki
  | Unrecognized oid bytes

record ca_cert =
  ca_subject :: string
  ca_ski :: "bytes option"
  ca_public :: bytes

text \<open>Dates are seconds since the epoch (31 July 2026, 00:00 UTC, and 30 days later).\<close>

record builder =
  b_subject :: string
  b_issuer :: string
  b_public :: bytes
  b_serial :: int
  b_not_before :: int
  b_not_after :: int
  b_extensions :: "(extension \<times> bool) list"

definition issuer_aki :: "ca_cert \<Rightarrow> aki" where
  "issuer_aki ca = (case ca_ski ca of Some ski \<Rightarrow> From_SKI ski | None \<Rightarrow> From_Key (ca_public ca))"

definition add_extension :: "extension \<Rightarrow> bool \<Rightarrow> builder \<Rightarrow> builder" where
  "add_extension e critical b = b\<lparr>b_extensions := b_extensions b @ [(e, critical)]\<rparr>"

definition build_base :: "bytes \<Rightarrow> ca_cert \<Rightarrow> builder" where
  "build_base leaf_key ca =
     \<lparr>b_subject = ''matrix-hybrid.test'', b_issuer = ca_subject ca, b_public = leaf_key,
      b_serial = 0x504D4D30, b_not_before = 1785456000, b_not_after = 1785456000 + 30 * 86400,
      b_extensions = []\<rparr>"

definition build :: "extension option \<Rightarrow> bytes \<Rightarrow> ca_cert \<Rightarrow> bytes \<Rightarrow> builder" where
  "build extra_ext leaf_key ca sapki =
     (let b = fold (\<lambda>(e, critical). add_extension e critical)
        [(Basic_Constraints False None, False),
         (Key_Usage [True, False, False, False, False, False, False, False, False], True),
         (Extended_Key_Usage [''serverAuth''], False),
         (Subject_Alternative_Name [''matrix-hybrid.test''], False),
         (Subject_Key_Identifier leaf_key, False),
         (Authority_Key_Identifier (issuer_aki ca), False),
         (Unrecognized oid_sapki sapki, False),
         (Unrecognized oid_alt_alg alt_alg_der, False)] (build_base leaf_key ca) in
      case extra_ext of None \<Rightarrow> b | Some e \<Rightarrow> add_extension e False b)"

section \<open>The alternative signature\<close>

definition alt_sig_der :: "bytes \<Rightarrow> bytes res" where
  "alt_sig_der sig = rbind (der_len (length sig + 1)) (\<lambda>h. Inr ([0x03] @ h @ [0x00] @ sig))"

section \<open>The script\<close>

record signed_cert =
  sc_tbs :: bytes
  sc_pem :: string
  sc_der :: bytes

record pki_env =
  pe_load_key :: "string \<Rightarrow> string res"
  pe_load_cert :: "string \<Rightarrow> ca_cert res"
  pe_leaf_public :: bytes
  pe_leaf_pem :: string
  pe_sign :: "builder \<Rightarrow> string \<Rightarrow> signed_cert res"
  pe_sh :: "string list \<Rightarrow> (path \<Rightarrow> string option) \<Rightarrow> (string \<times> (path \<times> string) list) res"

definition path_arg :: "path \<Rightarrow> string" where
  "path_arg p = join ''/'' p"

definition run_tool :: "pki_env \<Rightarrow> string list \<Rightarrow> ('x world_scheme, string) eff" where
  "run_tool env args s = (case pe_sh env args (files s) of
     Inl e \<Rightarrow> (Inl e, s)
   | Inr (stdout, ws) \<Rightarrow> (Inr stdout, s\<lparr>files := files s ++ map_of ws\<rparr>))"

definition sh :: "pki_env \<Rightarrow> string list \<Rightarrow> ('x world_scheme, string) eff" where
  "sh env args = eseq (print (''$ '' @ join '' '' args)) (run_tool env args)"

definition alt_key_file :: path where
  "alt_key_file = out_dir @ [''alt-mldsa65.key'']"

definition tbs_file :: path where
  "tbs_file = out_dir @ [''tbs-for-altsig.der'']"

definition sig_file :: path where
  "sig_file = out_dir @ [''altsig.bin'']"

definition out_pem :: path where
  "out_pem = out_dir @ [''leaf.crt'']"

definition pub_pem :: path where
  "pub_pem = out_dir @ [''alt-mldsa65.pub.pem'']"

text \<open>The alternative key pair and the leaf key.\<close>

definition make_keys :: "pki_env \<Rightarrow> ('x world_scheme, bytes) eff" where
  "make_keys env =
     ebind (sh env [''openssl'', ''genpkey'', ''-algorithm'', ''ML-DSA-65'', ''-out'', path_arg alt_key_file]) (\<lambda>_.
     ebind (sh env [''openssl'', ''pkey'', ''-in'', path_arg alt_key_file, ''-pubout'', ''-outform'', ''DER'']) (\<lambda>sapki.
     eseq (write_file (out_dir @ [''alt-mldsa65.pub.der'']) sapki) (
     eseq (write_file (out_dir @ [''leaf.key'']) (pe_leaf_pem env)) (
     ret (ascii sapki)))))"

text \<open>Build 1 and the signature over its TBS.\<close>

definition sign_alt :: "pki_env \<Rightarrow> string \<Rightarrow> ca_cert \<Rightarrow> bytes \<Rightarrow> ('x world_scheme, bytes) eff" where
  "sign_alt env ca_key ca sapki =
     ebind (lift (pe_sign env (build None (pe_leaf_public env) ca sapki) ca_key)) (\<lambda>cert1.
     eseq (write_file tbs_file (text_of (sc_tbs cert1))) (
     ebind (sh env [''openssl'', ''pkeyutl'', ''-sign'', ''-inkey'', path_arg alt_key_file, ''-rawin'',
       ''-in'', path_arg tbs_file, ''-out'', path_arg sig_file]) (\<lambda>_.
     ebind (read_file sig_file) (\<lambda>sig.
     eseq (print (''ML-DSA-65 alt signature: '' @ str_nat (length sig) @ '' bytes'')) (ret (ascii sig))))))"

text \<open>Build 2, with the signature as the last extension.\<close>

definition write_leaf :: "pki_env \<Rightarrow> string \<Rightarrow> ca_cert \<Rightarrow> bytes \<Rightarrow> bytes \<Rightarrow> ('x world_scheme, unit) eff" where
  "write_leaf env ca_key ca sapki sig =
     ebind (lift (alt_sig_der sig)) (\<lambda>v.
     ebind (lift (pe_sign env (build (Some (Unrecognized oid_alt_sig v)) (pe_leaf_public env) ca sapki) ca_key)) (\<lambda>cert2.
     eseq (write_file out_pem (sc_pem cert2))
       (print (''catalyst leaf DER size: '' @ str_nat (length (sc_der cert2)) @ '' bytes''))))"

definition check_leaf :: "pki_env \<Rightarrow> ('x world_scheme, unit) eff" where
  "check_leaf env =
     ebind (sh env [''openssl'', ''pkey'', ''-in'', path_arg alt_key_file, ''-pubout'']) (\<lambda>pub.
     eseq (write_file pub_pem pub) (
     ebind (sh env [''openssl'', ''pkeyutl'', ''-verify'', ''-pubin'', ''-inkey'', path_arg pub_pem, ''-rawin'',
       ''-in'', path_arg tbs_file, ''-sigfile'', path_arg sig_file]) (\<lambda>_.
     eseq (print ''alt signature verifies over TBS-without-altSignatureValue: OK'') (
     ebind (run_tool env [''openssl'', ''verify'', ''-CAfile'', path_arg (chain_dir @ [''root.crt'']),
       ''-untrusted'', path_arg (chain_dir @ [''int.crt'']), path_arg out_pem]) (\<lambda>stdout.
     print (strip (universal_newlines stdout)))))))"

definition catalyst_main :: "pki_env \<Rightarrow> ('x world_scheme, unit) eff" where
  "catalyst_main env =
     eseq (mkdir out_dir) (
     ebind (read_file (chain_dir @ [''int.key''])) (\<lambda>key_pem.
     ebind (lift (pe_load_key env key_pem)) (\<lambda>ca_key.
     ebind (read_file (chain_dir @ [''int.crt''])) (\<lambda>ca_pem.
     ebind (lift (pe_load_cert env ca_pem)) (\<lambda>ca.
     ebind (make_keys env) (\<lambda>sapki.
     ebind (sign_alt env ca_key ca sapki) (\<lambda>sig.
     eseq (write_leaf env ca_key ca sapki sig) (check_leaf env))))))))"

section \<open>What the extensions say\<close>

definition ext_oid :: "extension \<Rightarrow> oid" where
  "ext_oid e = (case e of Basic_Constraints _ _ \<Rightarrow> [2, 5, 29, 19] | Key_Usage _ \<Rightarrow> [2, 5, 29, 15]
     | Extended_Key_Usage _ \<Rightarrow> [2, 5, 29, 37] | Subject_Alternative_Name _ \<Rightarrow> [2, 5, 29, 17]
     | Subject_Key_Identifier _ \<Rightarrow> [2, 5, 29, 14] | Authority_Key_Identifier _ \<Rightarrow> [2, 5, 29, 35]
     | Unrecognized oid _ \<Rightarrow> oid)"

text \<open>The content octets of an OBJECT IDENTIFIER (X.690, 8.19), read as arcs.\<close>

fun base128 :: "nat \<Rightarrow> bytes \<Rightarrow> nat list" where
  "base128 acc [] = []"
| "base128 acc (b # bs) = (let v = 128 * acc + unat b mod 128 in
     if unat b \<ge> 128 then base128 v bs else v # base128 0 bs)"

definition oid_arcs :: "bytes \<Rightarrow> oid" where
  "oid_arcs bs = (case base128 0 bs of [] \<Rightarrow> []
     | v # vs \<Rightarrow> (if v < 80 then [v div 40, v mod 40] else [2, v - 80]) @ vs)"

text \<open>The TBS a verifier reconstructs: the builder without its last extension.\<close>

definition strip_last :: "builder \<Rightarrow> builder" where
  "strip_last b = b\<lparr>b_extensions := butlast (b_extensions b)\<rparr>"

text \<open>What a verifier that ignores unknown non-critical extensions sees.\<close>

definition known :: "extension \<Rightarrow> bool" where
  "known e \<longleftrightarrow> (case e of Unrecognized _ _ \<Rightarrow> False | _ \<Rightarrow> True)"

lemma build_extensions:
  "b_extensions (build None k ca sapki) =
     [(Basic_Constraints False None, False),
      (Key_Usage [True, False, False, False, False, False, False, False, False], True),
      (Extended_Key_Usage [''serverAuth''], False), (Subject_Alternative_Name [''matrix-hybrid.test''], False),
      (Subject_Key_Identifier k, False), (Authority_Key_Identifier (issuer_aki ca), False),
      (Unrecognized oid_sapki sapki, False), (Unrecognized oid_alt_alg alt_alg_der, False)]"
  "build (Some e) k ca sapki = add_extension e False (build None k ca sapki)"
  by (simp_all add: build_def build_base_def add_extension_def)

lemma strip_last_build: "strip_last (build (Some e) k ca sapki) = build None k ca sapki"
  by (simp add: build_extensions(2) strip_last_def add_extension_def)

lemma alt_sig_tlv:
  assumes "length sig + 1 < 256 ^ 127"
  shows "alt_sig_der sig = Inr (tlv (0x03, 0x00 # sig))"
  using der_len_Inr[OF assms] by (auto simp: alt_sig_der_def tlv_def)

section \<open>What is on disk at the end\<close>

text \<open>The environment's commands write only the file named after \<open>-out\<close>.\<close>

definition named_out :: "string list \<Rightarrow> string \<Rightarrow> bool" where
  "named_out args p \<longleftrightarrow> (''-out'', p) \<in> set (zip args (tl args))"

definition writes_out :: "pki_env \<Rightarrow> bool" where
  "writes_out env \<longleftrightarrow> (\<forall>args fs stdout ws. pe_sh env args fs = Inr (stdout, ws)
     \<longrightarrow> (\<forall>(p, c) \<in> set ws. named_out args (path_arg p)))"

lemma run_tool_keeps:
  assumes "writes_out env" and "run_tool env args s = (Inr r, t)" and "\<not> named_out args (path_arg p)"
  shows "files t p = files s p"
proof -
  from assms(2) obtain ws where ws: "pe_sh env args (files s) = Inr (r, ws)"
      "t = s\<lparr>files := files s ++ map_of ws\<rparr>"
    by (auto simp: run_tool_def split: sum.splits)
  have "p \<notin> fst ` set ws" using assms(1,3) ws(1) unfolding writes_out_def by fastforce
  then show ?thesis using ws(2) by (simp add: map_add_def map_of_eq_None_iff[symmetric])
qed

lemma sh_run:
  assumes "sh env args s = (Inr r, t)"
  shows "\<exists>ws. pe_sh env args (files s) = Inr (r, ws)"
    and "writes_out env \<Longrightarrow> \<not> named_out args (path_arg p) \<Longrightarrow> files t p = files s p"
proof -
  from assms obtain u where u: "print (''$ '' @ join '' '' args) s = (Inr (), u)" "run_tool env args u = (Inr r, t)"
    by (auto simp: sh_def run_simps)
  have f: "files u = files s" using u(1) by (auto simp: print_def)
  show "\<exists>ws. pe_sh env args (files s) = Inr (r, ws)"
    using u(2) f by (auto simp: run_tool_def split: sum.splits)
  show "writes_out env \<Longrightarrow> \<not> named_out args (path_arg p) \<Longrightarrow> files t p = files s p"
    using run_tool_keeps[OF _ u(2), of p] f by simp
qed

lemma write_file_run: "write_file p c s = (Inr (), t) \<Longrightarrow> files t = (files s)(p \<mapsto> c)"
  by (auto simp: write_file_def split: if_splits)

lemma print_run: "print l s = (Inr (), t) \<Longrightarrow> files t = files s"
  by (auto simp: print_def)

lemma read_file_run: "read_file p s = (Inr c, t) \<Longrightarrow> t = s \<and> files s p = Some c"
  by (auto simp: read_file_def split: option.splits)

lemmas paths = alt_key_file_def tbs_file_def sig_file_def out_pem_def pub_pem_def out_dir_def chain_dir_def path_arg_def

definition sign_args :: "string list" where
  "sign_args = [''openssl'', ''pkeyutl'', ''-sign'', ''-inkey'', path_arg alt_key_file, ''-rawin'',
     ''-in'', path_arg tbs_file, ''-out'', path_arg sig_file]"

definition verify_args :: "string list" where
  "verify_args = [''openssl'', ''pkeyutl'', ''-verify'', ''-pubin'', ''-inkey'', path_arg pub_pem, ''-rawin'',
     ''-in'', path_arg tbs_file, ''-sigfile'', path_arg sig_file]"

lemma sign_alt_run:
  assumes "sign_alt env ca_key ca sapki s = (Inr sig, t)" and "writes_out env"
  shows "\<exists>cert1 text_sig. pe_sign env (build None (pe_leaf_public env) ca sapki) ca_key = Inr cert1
    \<and> sig = ascii text_sig \<and> files t tbs_file = Some (text_of (sc_tbs cert1)) \<and> files t sig_file = Some text_sig"
proof -
  from assms(1) obtain cert1 u so v text_sig w x where st:
    "pe_sign env (build None (pe_leaf_public env) ca sapki) ca_key = Inr cert1"
    "write_file tbs_file (text_of (sc_tbs cert1)) s = (Inr (), u)"
    "sh env sign_args u = (Inr so, v)" "read_file sig_file v = (Inr text_sig, w)"
    "print (''ML-DSA-65 alt signature: '' @ str_nat (length text_sig) @ '' bytes'') w = (Inr (), x)"
    "sig = ascii text_sig" "t = x"
    unfolding sign_alt_def sign_args_def[symmetric] by (auto simp only: run_simps)
  have "\<not> named_out sign_args (path_arg tbs_file)" by (simp add: named_out_def sign_args_def paths)
  then have "files v tbs_file = Some (text_of (sc_tbs cert1))"
    using sh_run(2)[OF st(3) assms(2)] write_file_run[OF st(2)] by simp
  then show ?thesis using st(1,6,7) read_file_run[OF st(4)] print_run[OF st(5)] by auto
qed

lemma write_leaf_run:
  assumes "write_leaf env ca_key ca sapki sig s = (Inr (), t)"
  shows "\<exists>v cert2. alt_sig_der sig = Inr v
    \<and> pe_sign env (build (Some (Unrecognized oid_alt_sig v)) (pe_leaf_public env) ca sapki) ca_key = Inr cert2
    \<and> files t = (files s)(out_pem \<mapsto> sc_pem cert2)"
proof -
  from assms obtain v cert2 u where st: "alt_sig_der sig = Inr v"
    "pe_sign env (build (Some (Unrecognized oid_alt_sig v)) (pe_leaf_public env) ca sapki) ca_key = Inr cert2"
    "write_file out_pem (sc_pem cert2) s = (Inr (), u)"
    "print (''catalyst leaf DER size: '' @ str_nat (length (sc_der cert2)) @ '' bytes'') u = (Inr (), t)"
    unfolding write_leaf_def by (auto simp only: run_simps)
  then show ?thesis using write_file_run[OF st(3)] print_run[OF st(4)] by auto
qed

lemma check_leaf_run:
  assumes "check_leaf env s = (Inr (), t)" and "writes_out env"
  shows "\<exists>fs so. pe_sh env verify_args fs = Inr so \<and> fs tbs_file = files s tbs_file \<and> fs sig_file = files s sig_file"
    and "p \<in> {tbs_file, sig_file, out_pem} \<Longrightarrow> files t p = files s p"
proof -
  define a1 where "a1 = [''openssl'', ''pkey'', ''-in'', path_arg alt_key_file, ''-pubout'']"
  define a3 where "a3 = [''openssl'', ''verify'', ''-CAfile'', path_arg (chain_dir @ [''root.crt'']),
       ''-untrusted'', path_arg (chain_dir @ [''int.crt'']), path_arg out_pem]"
  from assms(1) obtain pub u v so w x stdout y where st:
    "sh env a1 s = (Inr pub, u)" "write_file pub_pem pub u = (Inr (), v)" "sh env verify_args v = (Inr so, w)"
    "print ''alt signature verifies over TBS-without-altSignatureValue: OK'' w = (Inr (), x)"
    "run_tool env a3 x = (Inr stdout, y)" "print (strip (universal_newlines stdout)) y = (Inr (), t)"
    unfolding check_leaf_def verify_args_def[symmetric] a1_def[symmetric] a3_def[symmetric]
    by (auto simp only: run_simps)
  have no: "\<not> named_out a1 q" "\<not> named_out a3 q" "\<not> named_out verify_args q" for q
    by (auto simp: named_out_def a1_def a3_def verify_args_def paths)
  have v: "files v p = files s p" if "p \<in> {tbs_file, sig_file, out_pem}" for p
    using that sh_run(2)[OF st(1) assms(2) no(1)] write_file_run[OF st(2)] by (auto simp: paths)
  then show "\<exists>fs so. pe_sh env verify_args fs = Inr so \<and> fs tbs_file = files s tbs_file \<and> fs sig_file = files s sig_file"
    using sh_run(1)[OF st(3)] by blast
  show "p \<in> {tbs_file, sig_file, out_pem} \<Longrightarrow> files t p = files s p"
    using v sh_run(2)[OF st(3) assms(2) no(3)] print_run[OF st(4)] run_tool_keeps[OF assms(2) st(5) no(2)] print_run[OF st(6)]
    by simp
qed

text \<open>
  The evidence left behind: the leaf is the second build, its last extension wraps the
  content of \<open>altsig.bin\<close>, and \<open>openssl\<close> accepted that content over the TBS of the
  same builder without the extension.
\<close>

definition catalyst_evidence :: "pki_env \<Rightarrow> (path \<Rightarrow> string option) \<Rightarrow> bool" where
  "catalyst_evidence env f \<longleftrightarrow> (\<exists>ca_key ca sapki v cert1 cert2 text_sig fs so.
     f tbs_file = Some (text_of (sc_tbs cert1)) \<and> f sig_file = Some text_sig \<and> f out_pem = Some (sc_pem cert2)
     \<and> alt_sig_der (ascii text_sig) = Inr v
     \<and> pe_sign env (build (Some (Unrecognized oid_alt_sig v)) (pe_leaf_public env) ca sapki) ca_key = Inr cert2
     \<and> pe_sign env (strip_last (build (Some (Unrecognized oid_alt_sig v)) (pe_leaf_public env) ca sapki)) ca_key = Inr cert1
     \<and> pe_sh env verify_args fs = Inr so \<and> fs tbs_file = f tbs_file \<and> fs sig_file = f sig_file)"

lemma catalyst_main_evidence:
  assumes "catalyst_main env s = (Inr (), t)" and "writes_out env"
  shows "catalyst_evidence env (files t)"
proof -
  from assms(1) obtain ca_key ca sapki sig u v w where st:
    "sign_alt env ca_key ca sapki u = (Inr sig, v)" "write_leaf env ca_key ca sapki sig v = (Inr (), w)"
    "check_leaf env w = (Inr (), t)"
    unfolding catalyst_main_def by (auto simp only: run_simps)
  obtain cert1 text_sig where 1: "pe_sign env (build None (pe_leaf_public env) ca sapki) ca_key = Inr cert1"
      "sig = ascii text_sig" "files v tbs_file = Some (text_of (sc_tbs cert1))" "files v sig_file = Some text_sig"
    using sign_alt_run[OF st(1) assms(2)] by blast
  obtain x cert2 where 2: "alt_sig_der sig = Inr x"
      "pe_sign env (build (Some (Unrecognized oid_alt_sig x)) (pe_leaf_public env) ca sapki) ca_key = Inr cert2"
      "files w = (files v)(out_pem \<mapsto> sc_pem cert2)"
    using write_leaf_run[OF st(2)] by blast
  obtain fs so where 3: "pe_sh env verify_args fs = Inr so" "fs tbs_file = files w tbs_file" "fs sig_file = files w sig_file"
    using check_leaf_run(1)[OF st(3) assms(2)] by blast
  have keep: "files t p = files w p" if "p \<in> {tbs_file, sig_file, out_pem}" for p
    using check_leaf_run(2)[OF st(3) assms(2) that] .
  have "files w tbs_file = files v tbs_file" "files w sig_file = files v sig_file" "files w out_pem = Some (sc_pem cert2)"
    using 2(3) by (simp_all add: paths)
  then show ?thesis unfolding catalyst_evidence_def
    by (intro exI[of _ ca_key] exI[of _ ca] exI[of _ sapki] exI[of _ x] exI[of _ cert1] exI[of _ cert2]
        exI[of _ text_sig] exI[of _ fs] exI[of _ so]) (use 1 2 3 keep in \<open>simp add: strip_last_build\<close>)
qed

section \<open>Properties\<close>

text \<open>
  C30: what the catalyst script leaves on disk.  When it ends normally, the leaf is the
  certificate built with the alternative signature, the signature in it is the content
  of \<open>altsig.bin\<close>, the file it was made over is the TBS of the same builder with the
  last extension stripped, and \<open>openssl\<close> accepted that signature over that file.
\<close>

theorem catalyst_leaves_evidence:
  assumes "catalyst_main env s = (Inr (), t)" and "writes_out env"
  shows "catalyst_evidence env (files t)"
  using assms by (rule catalyst_main_evidence)

definition sample_pki :: pki_env where
  "sample_pki = \<lparr>pe_load_key = (\<lambda>k. Inr k),
     pe_load_cert = (\<lambda>c. Inr \<lparr>ca_subject = c, ca_ski = None, ca_public = [1]\<rparr>),
     pe_leaf_public = [2], pe_leaf_pem = ''key'',
     pe_sign = (\<lambda>b k. Inr \<lparr>sc_tbs = [of_nat (length (b_extensions b))], sc_pem = ''pem'', sc_der = [4]\<rparr>),
     pe_sh = (\<lambda>args fs. Inr (''out'', if args = sign_args then [(sig_file, ''sig'')] else []))\<rparr>"

definition sample_pki_world :: world where
  "sample_pki_world = \<lparr>files = (\<lambda>p. if p \<noteq> [] \<and> butlast p = chain_dir then Some ''pem'' else None), dirs = {[]}, out = []\<rparr>"

lemma sample_pki_writes: "writes_out sample_pki"
  by (auto simp: writes_out_def sample_pki_def named_out_def sign_args_def split: if_splits)

lemma sample_catalyst: "fst (catalyst_main sample_pki sample_pki_world) = Inr ()"
  by code_simp

theorem catalyst_leaves_evidence_witness:
  "catalyst_evidence sample_pki (files (snd (catalyst_main sample_pki sample_pki_world)))"
proof (rule catalyst_leaves_evidence[OF _ sample_pki_writes])
  show "catalyst_main sample_pki sample_pki_world = (Inr (), snd (catalyst_main sample_pki sample_pki_world))"
    using sample_catalyst by (metis prod.collapse)
qed

text \<open>
  C32: the alternative signature extension is well-formed DER: its value reads back as one
  BIT STRING without unused bits that holds the signature, and the algorithm
  identifier is a SEQUENCE of the one object identifier 2.16.840.1.101.3.4.3.18
  (id-ml-dsa-65).
\<close>

theorem alt_signature_reads_back:
  assumes "length sig + 1 < 256 ^ 127"
  shows "\<exists>v. alt_sig_der sig = Inr v \<and> der_children v = Inr [(0x03, 0x00 # sig)]
    \<and> (\<exists>content. der_children alt_alg_der = Inr [(0x30, tlv (0x06, content))]
         \<and> oid_arcs content = [2, 16, 840, 1, 101, 3, 4, 3, 18])"
proof -
  let ?oid = "[0x60, 0x86, 0x48, 0x01, 0x65, 0x03, 0x04, 0x03, 0x12] :: bytes"
  have "der_children (concat (map tlv [(0x03, 0x00 # sig)])) = Inr [(0x03, 0x00 # sig)]"
    by (rule der_children_concat) (use assms in auto)
  moreover have alg: "alt_alg_der = concat (map tlv [(0x30, tlv (0x06, ?oid))])"
    by (simp add: alt_alg_der_def tlv_def der_len_short)
  moreover have "der_children (concat (map tlv [(0x30, tlv (0x06, ?oid))])) = Inr [(0x30, tlv (0x06, ?oid))]"
    by (rule der_children_concat) (simp add: tlv_def der_len_short)
  moreover have "oid_arcs ?oid = [2, 16, 840, 1, 101, 3, 4, 3, 18]" by (simp add: oid_arcs_def)
  ultimately show ?thesis using alt_sig_tlv[OF assms] by auto
qed

theorem alt_signature_reads_back_witness:
  "\<exists>v. alt_sig_der [1, 2, 3] = Inr v \<and> der_children v = Inr [(0x03, [0, 1, 2, 3])]"
  using alt_signature_reads_back[of "[1, 2, 3]"] by auto

text \<open>
  C31: the hybrid is a classical certificate plus three non-critical extensions.  The two
  builds differ in the last extension alone, so that stripping it gives the signed TBS;
  only KeyUsage is critical; the object identifiers are distinct; and what a verifier
  that ignores unknown extensions sees does not depend on the alternative material.
\<close>

theorem builds_differ_in_last:
  "strip_last (build (Some (Unrecognized oid_alt_sig v)) k ca sapki) = build None k ca sapki
   \<and> map fst (filter snd (b_extensions (build (Some (Unrecognized oid_alt_sig v)) k ca sapki)))
       = [Key_Usage [True, False, False, False, False, False, False, False, False]]
   \<and> distinct (map (\<lambda>(e, c). ext_oid e) (b_extensions (build (Some (Unrecognized oid_alt_sig v)) k ca sapki)))
   \<and> filter (\<lambda>(e, c). known e) (b_extensions (build (Some (Unrecognized oid_alt_sig v)) k ca sapki))
       = filter (\<lambda>(e, c). known e) (b_extensions (build None k ca []))"
  unfolding strip_last_build
  by (simp add: build_extensions add_extension_def known_def ext_oid_def
      oid_sapki_def oid_alt_alg_def oid_alt_sig_def)

end
