(* ===== verification/Spec2Isabelle.thy ===== *)
theory Spec2Isabelle
  imports Sizes Compressibility Capture_Success Report Runners Catalyst
begin

text \<open>
  A formal model of \<^bold>\<open>pqc-cert-matrix\<close>: the Python programs that measure how
  post-quantum certificate chains behave.  All files named are under \<open>src/\<close>.

  \<^bold>\<open>The programs and how they interact.\<close>  They communicate through files.
  \<^item> \<open>gen/sizes.py\<close> measures every certificate of the corpus: \<open>sizes.json\<close>, \<open>SIZES.md\<close>.
  \<^item> \<open>phase0/catalyst_build.py\<close> builds the hybrid certificate that joins the corpus.
  \<^item> \<open>runners/harness.py\<close> assembles a bundle per chain, serves it, runs every client on
    it and collects cells: \<open>results.json\<close>, \<open>MATRIX.md\<close>.  A client is called through its
    \<open>run.sh\<close>, which reports through \<open>runners/lib/emit.py\<close>; the client of the Python column is
    \<open>runners/python/client.py\<close>.
  \<^item> \<open>phase3/compressibility.py\<close> compresses the chains of the bundles.
  \<^item> \<open>phase3/transport.py\<close> captures a handshake of every bundle that has a key and
    attributes its bytes (\<open>transport.json\<close>), and \<open>phase3/report.py\<close> makes the report of it.
  \<^item> \<open>tools/build-calculator-data.py\<close> reads \<open>sizes.json\<close>, \<open>transport.json\<close> and
    \<open>results.json\<close> and prints the data of the public calculator.

  \<^bold>\<open>How the code is modelled.\<close>  A Python exception is a value (\<open>err\<close>, theory Prelude), code
  that may raise returns \<open>err + 'a\<close>, and code with effects takes the state of the world to
  a result and the next state, which survives an exception (theory Effects).  The world
  holds files, directories and output lines, and for the programs that start processes
  also the processes that may be up and the trace of events (theory Servers): a process
  may be up from its start until a \<open>wait\<close> for it returned; \<open>terminate\<close> only asks it to stop,
  and whether it exits in time is the environment's.  A path is the list of
  its names below the checkout, whose absolute path is the argument \<open>repo\<close>.  A Python
  dict is an insertion-ordered association list, bytes are \<open>8 word list\<close>, integers are
  unbounded, floats are rounded rationals (\<open>fl\<close>, 53 bits).

  \<^bold>\<open>Theories.\<close>
  \<^item> Prelude, Effects, Py_Strings, Py_Bytes, Py_Float, Base64, Json, Json_Read: the parts of
    Python and its standard library that the programs use.  Json_Read shows that what
    \<open>json.dumps\<close> writes, compact or indented, decodes to the same value, and that the
    reader returns only such values.
  \<^item> Der: the DER reader of \<open>sizes.py\<close> and the length writer of \<open>catalyst_build.py\<close>.
  \<^item> Sizes: \<open>gen/sizes.py\<close>.  Catalyst: \<open>phase0/catalyst_build.py\<close>.
  \<^item> Pem, Compressibility: \<open>phase3/compressibility.py\<close>.
  \<^item> Servers: the child processes and \<open>wait_port\<close>, which \<open>harness.py\<close> and \<open>transport.py\<close>
    have in common.
  \<^item> Transport: \<open>phase3/transport.py\<close>.  Captures: the order of events of its run and the
    command line of every process.  Capture_Success: a run in a healthy environment.
  \<^item> Tables: a line of a Markdown table and how it is read back.  Report:
    \<open>phase3/report.py\<close>.
  \<^item> Emit: \<open>runners/lib/emit.py\<close>.  Py_Client: \<open>runners/python/client.py\<close>.
  \<^item> Scripts: the eleven \<open>runners/<client>/run.sh\<close>, each as what it runs before its tests
    and the plan of the three tests.  Runners: the runner contract, that the scripts
    follow it, and a run of the harness with them.
  \<^item> Redact: \<open>redact\<close> of \<open>harness.py\<close>; Redact_Json: redaction of JSON text;
    Harness: the rest of \<open>harness.py\<close>.  Harness_Success: a run with runners that follow
    the contract.
  \<^item> Calculator: \<open>tools/build-calculator-data.py\<close>.
  \<^item> Published: the results file, the matrix and the calculator together.
  \<^item> This theory: properties that span programs.

  \<^bold>\<open>What the lemmas show.\<close>
  \<^item> Measuring: DER and PEM are read back exactly, \<open>measure\<close> is exact on the encoding of
    a certificate and refuses trailing bytes, sizes and savings add up, the window
    verdict computed with floats is the exact one, the calculator's model reproduces the
    captures it was built from.
  \<^item> Attribution: every handshake byte is counted once, for the side and message it
    belongs to, and the flight excludes exactly the session tickets.
  \<^item> Processes: one server in service at a time and the right one for every runner, which
    servers may still be up beside it (those whose port did not answer, which the harness
    stops but does not wait for), the events and command lines of a whole run of the
    harness and of the captures, which files the server of a chain serves, exactly when a
    capture leaves a process behind and which (\<open>capture_stops_processes\<close>), and when the
    harness leaves its server in service (\<open>server_left_running\<close>).
  \<^item> Runners: a script reports its client's exit codes and logs
    (\<open>script_reports_client\<close>), and what the harness publishes with the repository's own
    scripts is these verdicts (\<open>scripts_publish\<close>), for Python those of the client's code
    (\<open>python_column\<close>).
  \<^item> Liveness: the harness ends normally when the corpus is there and every runner follows
    the contract (\<open>harness_ends_normally\<close>); every capture succeeds when the programs start,
    the port answers, processes exit and the capture decodes (\<open>captures_succeed\<close>).
  \<^item> Privacy: after redaction the checkout's path, when JSON does not escape it
    (\<open>plain_path\<close>), occurs nowhere, in text, in JSON or in the files of an evidence
    directory that can be read, and with runners that use the emitter it is nowhere in
    \<open>results.json\<close>; a path that the emitter's cut leaves incomplete
    (\<open>truncated_path_survives\<close>) or with escaped slashes (\<open>escaped_path_collected\<close>) gets through.
  \<^item> Files between programs: bundles, \<open>results.json\<close>, \<open>transport.json\<close> and \<open>sizes.json\<close>
    are read by the next program as what the previous one meant, a failed capture
    included, which the report leaves out and the calculator stops at.
  \<^item> Generated documents: the tables of \<open>SIZES.md\<close> and \<open>TRANSPORT.md\<close>, read as text, hold the
    measurements, and \<open>MATRIX.md\<close> has one entry for each chain and client.
  \<^item> The hybrid certificate: what the script leaves on disk, the alternative signature as
    DER, and that it differs from the signed build in its last extension alone.

  Interfaces are locales: \<open>frame\<close> (a relation between states that all effect combinators
  preserve, in Effects, interpreted for the growth of the output, for the processes, and
  for the files and directories that a capture or a harness run keeps), \<open>scanner\<close> (a
  reader of one element and the loop over it, in Py_Bytes, interpreted for DER and PEM), \<open>rounding\<close> (in Py_Float, interpreted for
  binary64), \<open>emitting_runners\<close> and its extension \<open>runner_contract\<close> (what the harness
  relies on in a runner, in Runners, interpreted for the repository's scripts).

  \<^bold>\<open>Bounds.\<close>  The JSON reader has the length of its input plus one as fuel; every call
  consumes a character, so it suffices (\<open>renders_read\<close>).  \<open>wait_port\<close> makes at most 50
  attempts in its 5 seconds, as every failure sleeps 100 ms.  A DER length has at most 127
  bytes, hence the bound \<open>256 ^ 127\<close>.  The float results hold below \<open>2 ^ 53\<close>,
  that of the mean, of at most five integers, below \<open>2 ^ 48\<close>.

  \<^bold>\<open>Parameters.\<close>  \<open>openssl\<close> (\<open>sizes.py\<close>, \<open>catalyst_build.py\<close>), the \<open>cryptography\<close> library,
  the compressors, \<open>tshark\<close>, \<open>dumpcap\<close>, \<open>docker\<close> and the clients, \<open>ssl\<close> and sockets are
  arguments of the definitions that use them: records of functions that take the command line the code
  builds (or the arguments of the call) and return an output or an exception.  Their laws,
  where a property needs one, are hypotheses of it, and its witness has concrete functions
  that meet them.

  \<^bold>\<open>Not modelled.\<close>  Pauses; failures of the file system other than a missing file, a
  directory in the way, a missing parent or, in an evidence directory, a file that cannot
  be read; text encodings (text is a list of byte-sized characters; decoding with
  \<open>errors="replace"\<close> is modelled, the strict decoding of the files that the programs wrote
  is not; what a process prints is taken after decoding, whose failure is one of the
  exceptions that the environment may raise for the process); JSON numbers with an
  exponent, \<open>NaN\<close> and infinities.  In the shell scripts, a pipe whose first command is
  stopped by its second, and directories given to a script that do not exist.  Of the repository, the clients that are not Python, the
  shell scripts that mint the corpus and run the isolation experiment, the Java builder of
  the composite certificate, and the recorded results.
\<close>

section \<open>From transport.json to the report\<close>

definition result_ok :: "result \<Rightarrow> bool" where
  "result_ok r \<longleftrightarrow> (case rs_outcome r of Failed _ \<Rightarrow> True
     | Captured c \<Rightarrow> distinct (map fst (cp_server_messages c)) \<and> distinct (map fst (cp_client_messages c))
         \<and> cp_flight c = flight_bytes (cp_server_messages c))"

lemma result_json_ok: "result_ok r \<Longrightarrow> json_ok (result_json r)"
  by (auto simp: result_ok_def result_json_def ints_json_def list_all_iff comp_def split_def
      split: outcome.splits)

text \<open>The row that the report makes of a captured result.\<close>

definition report_row :: "result \<Rightarrow> trow list" where
  "report_row r = (case rs_outcome r of Failed _ \<Rightarrow> []
     | Captured c \<Rightarrow> if rs_mode r = ''no-compression''
       then [\<lparr>t_chain = rs_chain r, t_flight = cp_flight c, t_largest = cp_largest c,
              t_server = map (\<lambda>(k, v). (k, JInt v)) (cp_server_messages c),
              t_client = map (\<lambda>(k, v). (k, JInt v)) (cp_client_messages c)\<rparr>]
       else [])"

definition result_fields :: "result \<Rightarrow> (string \<times> json) list" where
  "result_fields r = projr (as_obj (result_json r))"

lemma result_fields_json: "result_json r = JObj (result_fields r)"
  by (simp add: result_fields_def result_json_def)

lemma keep_result: "keep_row (result_fields r) \<longleftrightarrow> report_row r \<noteq> []"
  by (auto simp: keep_row_def result_fields_def result_json_def report_row_def split: outcome.splits)

lemma decode_result: "report_row r = [row] \<Longrightarrow> decode_row (result_json r) = Inr row"
  by (auto simp: report_row_def decode_row_def result_json_def int_field_def str_field_def getitem_def ints_json_def
      split: outcome.splits if_splits)

lemma report_rows_results:
  "report_rows (JList (map result_json rs)) = Inr (sort_key t_flight (concat (map report_row rs)))"
proof -
  have objs: "traverse as_obj (map result_json rs) = Inr (map result_fields rs)"
    by (induction rs) (simp_all add: result_fields_json)
  have "traverse decode_row (map JObj (filter keep_row (map result_fields rs))) = Inr (concat (map report_row rs))"
  proof (induction rs)
    case (Cons r rs)
    show ?case
    proof (cases "report_row r = []")
      case True
      then show ?thesis using Cons keep_result by simp
    next
      case False
      then obtain row where row: "report_row r = [row]"
        by (auto simp: report_row_def split: outcome.splits if_splits)
      then show ?thesis using Cons keep_result[of r] decode_result[OF row] by (simp add: result_fields_json)
    qed
  qed simp
  then show ?thesis using objs by (simp add: report_rows_def)
qed

text \<open>Every result of a run has dictionaries: no message name twice.\<close>

lemma capture_of_ok:
  assumes "attribute_messages rows = Inr m"
  shows "distinct (map fst (cp_server_messages (capture_of m r))) \<and> distinct (map fst (cp_client_messages (capture_of m r)))
    \<and> cp_flight (capture_of m r) = flight_bytes (cp_server_messages (capture_of m r))"
proof -
  have "\<forall>w. distinct (map fst (msgs_of w m))" using attribute_messages_sums[OF assms] by blast
  from this[rule_format, of Server] this[rule_format, of Client]
  show ?thesis by (simp add: capture_of_def Let_def msgs_of_def)
qed

lemma capture_one_ok:
  assumes "capture_one env repo chain mode extra ev s = (Inr o', t)"
  shows "result_ok \<lparr>rs_outcome = o', rs_chain = chain, rs_mode = mode\<rparr>"
proof -
  from assms obtain u where "capture_serve env repo chain mode ev u = (Inr o', t)"
    unfolding capture_one_def by (auto simp only: run_simps)
  then show ?thesis
    unfolding capture_serve_def capture_read_def analyze_def Let_def
    by (auto simp: run_simps efinally_run result_ok_def split: if_splits dest: capture_of_ok)
qed

lemma run_capture_ok: "run_capture env repo chain mx s = (Inr r, t) \<Longrightarrow> result_ok r"
  unfolding run_capture_def Let_def by (auto simp: run_simps split: prod.splits dest: capture_one_ok)

lemma run_chain_ok: "run_chain env repo chain s = (Inr rs, t) \<Longrightarrow> \<forall>r\<in>set rs. result_ok r"
  unfolding run_chain_def
  by (auto simp: run_simps split: if_splits dest!: emap_run_all[where P = result_ok] run_capture_ok)

lemma transport_main_reread:
  assumes "transport_main env repo s = (Inr (), t)"
  shows "\<exists>rss u txt. emap (run_chain env repo) transport_chains s = (Inr rss, u)
    \<and> files t [''phase3'', ''transport.json''] = Some txt
    \<and> loads (universal_newlines txt) = Inr (JList (map result_json (concat rss)))
    \<and> report_rows (JList (map result_json (concat rss)))
        = Inr (sort_key t_flight (concat (map report_row (concat rss))))"
proof -
  from assms obtain rss u v where u: "emap (run_chain env repo) transport_chains s = (Inr rss, u)"
      "write_file [''phase3'', ''transport.json''] (dumps_indent 0 (JList (map result_json (concat rss))) @ [CHR 0x0A]) u
         = (Inr (), v)" "files t = files v"
    unfolding transport_main_def Let_def by (auto simp: run_simps print_def)
  have "\<forall>rs\<in>set rss. \<forall>r\<in>set rs. result_ok r"
    by (rule emap_run_all[OF u(1)]) (use run_chain_ok in blast)
  then have "json_ok (JList (map result_json (concat rss)))"
    by (auto simp: list_all_iff result_json_ok)
  then have "loads (universal_newlines (dumps_indent 0 (JList (map result_json (concat rss))) @ [CHR 0x0A]))
      = Inr (JList (map result_json (concat rss)))" by (rule read_back_indent)
  moreover have "files t [''phase3'', ''transport.json'']
      = Some (dumps_indent 0 (JList (map result_json (concat rss))) @ [CHR 0x0A])"
    using u(2,3) by (auto simp: write_file_def split: if_splits)
  ultimately show ?thesis
    by (intro exI conjI) (rule u(1), assumption, assumption, rule report_rows_results)
qed

section \<open>From transport.json to TRANSPORT.md\<close>

lemma report_main_run:
  assumes "report_main s = (Inr (), t)" and "files s [''phase3'', ''transport.json''] = Some txt"
    and "rbind (loads (universal_newlines txt)) report_rows = Inr rows"
  shows "\<exists>md. report_md rows = Inr md
    \<and> files t [''phase3'', ''TRANSPORT.md''] = Some (join [CHR 0x0A] md @ [CHR 0x0A])"
proof -
  have quiet: "foreach (\<lambda>r. print (g r)) rs v = (Inr (), w) \<Longrightarrow> files w = files v" for g rs and v w :: "'a world_scheme"
    by (induction rs arbitrary: v) (auto simp: run_simps print_def)
  from assms show ?thesis
    unfolding report_main_def
    by (auto simp: run_simps read_file_def write_file_def print_def split: if_splits dest!: quiet)
qed

lemma both_modes_rows:
  assumes "list_all2 both_modes cs rss" and "r \<in> set (concat (map report_row (concat rss)))"
  shows "t_chain r \<in> set cs"
proof -
  obtain rs q where q: "rs \<in> set rss" "q \<in> set rs" "r \<in> set (report_row q)" using assms(2) by auto
  obtain i where i: "i < length rss" "rs = rss ! i" using q(1) by (auto simp: in_set_conv_nth)
  have "both_modes (cs ! i) rs" "i < length cs"
    using assms(1) i by (auto simp: list_all2_conv_all_nth)
  then have "rs_chain q \<in> set cs" using q(2) by (auto simp: both_modes_def map_eq_Cons_conv)
  moreover have "t_chain r = rs_chain q"
    using q(3) by (auto simp: report_row_def split: outcome.splits if_splits)
  ultimately show ?thesis by simp
qed

text \<open>
  C5: the report shows what was captured.  When \<open>report.py\<close> ends normally after
  \<open>transport.py\<close> did, the two tables of \<open>TRANSPORT.md\<close> have one line for each uncompressed
  captured handshake in the order of their flights, and read back, the lines hold the
  chain, the bytes captured for the named messages, the flight and the largest record,
  and the flight, its segments and the verdict.
\<close>

theorem report_shows_captures:
  assumes "transport_main env repo s = (Inr (), t)" and "report_main t = (Inr (), u)"
  shows "\<exists>rss v rows md. emap (run_chain env repo) transport_chains s = (Inr rss, v)
    \<and> rows = sort_key t_flight (concat (map report_row (concat rss)))
    \<and> files u [''phase3'', ''TRANSPORT.md''] = Some (join [CHR 0x0A] md @ [CHR 0x0A])
    \<and> list_all2 row_shown rows (take (length rows) (drop 11 md))
    \<and> list_all2 window_shown rows (take (length rows) (drop (32 + length rows) md))"
proof -
  obtain rss v doc where v: "emap (run_chain env repo) transport_chains s = (Inr rss, v)"
      "files t [''phase3'', ''transport.json''] = Some doc"
      "loads (universal_newlines doc) = Inr (JList (map result_json (concat rss)))"
      "report_rows (JList (map result_json (concat rss)))
        = Inr (sort_key t_flight (concat (map report_row (concat rss))))"
    using transport_main_reread[OF assms(1)] by blast
  define rows where "rows = sort_key t_flight (concat (map report_row (concat rss)))"
  obtain md where md: "report_md rows = Inr md"
      "files u [''phase3'', ''TRANSPORT.md''] = Some (join [CHR 0x0A] md @ [CHR 0x0A])"
    using report_main_run[OF assms(2) v(2), of rows] v(3,4) by (auto simp: rows_def)
  have modes: "list_all2 both_modes transport_chains rss"
    using transport_main_trace[OF assms(1)] v(1) by (metis prod.inject sum.inject(2))
  have "plain_cell (t_chain r)" if "r \<in> set rows" for r
    using both_modes_rows[OF modes, of r] that
    by (auto simp: rows_def transport_chains_def plain_cell_def strip_def is_space_def)
  from report_md_tables[OF md(1) this] show ?thesis
    using v(1) md(2) by (intro exI conjI) (assumption, rule rows_def, assumption+)
qed

lemma served_report: "fst (report_main (snd (transport_main served_env ''/r'' served_world))) = Inr ()"
proof -
  obtain v t where t: "emap (run_chain served_env ''/r'') transport_chains served_world
        = (Inr (served_results # map (\<lambda>_. []) (tl transport_chains)), v)"
      "transport_main served_env ''/r'' served_world = (Inr (), t)"
      "[''phase3''] \<in> dirs t" "[''phase3'', ''TRANSPORT.md''] \<notin> dirs t"
    using transport_main_ends[OF served_first] by blast
  let ?row = "\<lparr>t_chain = ''ecdsa'', t_flight = 914, t_largest = 0, t_server = [(''Certificate'', JInt 914)], t_client = []\<rparr>"
  have rows: "sort_key t_flight (concat (map report_row (concat (served_results # map (\<lambda>_. []) (tl transport_chains))))) = [?row]"
    by (simp add: served_results_def report_row_def transport_chains_def)
  obtain doc where doc: "files t [''phase3'', ''transport.json''] = Some doc"
      "rbind (loads (universal_newlines doc)) report_rows = Inr [?row]"
    using transport_main_reread[OF t(2)] t(1) rows by auto
  obtain ms where ms: "traverse measured_line [?row] = Inr ms"
    by (simp add: measured_line_def get_commas_def)
  have "heaviest_fitting [?row] = Inr ?row" "biggest_record [?row] = Inr ?row"
    by (simp_all add: heaviest_fitting_def fits_window_iff biggest_record_def)
  then obtain md where md: "report_md [?row] = Inr md" by (simp only: report_md_def ms rbind.simps)
  have "fst (foreach (\<lambda>r. print (g r)) rs w) = Inr ()" for g rs and w :: pworld
    by (induction rs arbitrary: w) (simp_all add: eff_simps)
  then show ?thesis using doc md t(3,4)
    by (simp add: report_main_def t(2) ebind_def eseq_def read_file_def write_file_def lift_def print_def ret_def)
qed

theorem report_shows_captures_witness:
  "\<exists>md. files (snd (report_main (snd (transport_main served_env ''/r'' served_world)))) [''phase3'', ''TRANSPORT.md'']
     = Some (join [CHR 0x0A] md @ [CHR 0x0A])"
proof -
  let ?t = "snd (transport_main served_env ''/r'' served_world)"
  have "transport_main served_env ''/r'' served_world = (Inr (), ?t)" using served_run by (metis prod.collapse)
  moreover have "report_main ?t = (Inr (), snd (report_main ?t))" using served_report by (metis prod.collapse)
  ultimately show ?thesis using report_shows_captures[of served_env "''/r''" served_world ?t] by blast
qed

section \<open>From the captures to the calculator\<close>

text \<open>The uncompressed results, one for each chain at most.\<close>

definition plain_results :: "result list \<Rightarrow> result list" where
  "plain_results rs = filter (\<lambda>r. rs_mode r = ''no-compression'') rs"

lemma plain_results_distinct:
  "list_all2 both_modes cs rss \<Longrightarrow> distinct cs \<Longrightarrow>
     distinct (map rs_chain (plain_results (concat rss))) \<and> set (map rs_chain (plain_results (concat rss))) \<subseteq> set cs"
proof (induction rule: list_all2_induct)
  case (Cons c cs rs rss)
  have "map rs_chain (plain_results rs) = [] \<or> map rs_chain (plain_results rs) = [c]"
    using Cons.hyps(1) by (auto simp: both_modes_def plain_results_def map_eq_Cons_conv)
  moreover have "plain_results (concat (rs # rss)) = plain_results rs @ plain_results (concat rss)"
    by (simp add: plain_results_def)
  ultimately show ?case using Cons by (elim disjE) (simp only: map_append, force)+
qed (simp add: plain_results_def)

lemma transport_map_results:
  assumes "distinct (map rs_chain (plain_results rs))"
  shows "transport_map (map result_json rs) = Inr (map (\<lambda>q. (rs_chain q, result_json q)) (plain_results rs))"
proof -
  have objs: "traverse as_obj (map result_json rs) = Inr (map result_fields rs)"
    by (induction rs) (simp_all add: result_fields_json)
  have kept: "filter (\<lambda>kvs. map_of kvs ''mode'' = Some (JStr ''no-compression'')) (map result_fields rs)
      = map result_fields (plain_results rs)"
    unfolding plain_results_def by (induction rs) (auto simp: result_fields_def result_json_def split: outcome.splits)
  have chain: "str_field (JObj (result_fields q)) ''chain'' = Inr (rs_chain q)" for q
    by (auto simp: result_fields_def result_json_def str_field_def getitem_def split: outcome.splits)
  have "traverse (\<lambda>kvs. rbind (str_field (JObj kvs) ''chain'') (\<lambda>c. Inr (c, JObj kvs))) (map result_fields qs)
      = Inr (map (\<lambda>q. (rs_chain q, result_json q)) qs)" for qs
    by (induction qs) (simp_all add: chain result_fields_json)
  moreover have "distinct (map fst (map (\<lambda>q. (rs_chain q, result_json q)) (plain_results rs)))"
    using assms by (simp add: comp_def)
  ultimately show ?thesis using objs kept by (simp only: transport_map_def rbind.simps dict_of_self)
qed

text \<open>The figures the calculator needs, of a result: none of a failed capture.\<close>

lemma map_of_ints: "map_of (map (\<lambda>(k, v). (k, JInt v)) d) k = map_option JInt (map_of d k)"
  by (induction d) auto

lemma server_message_result:
  "rs_outcome r = Captured c \<Longrightarrow> server_message (result_json r) k =
     (case map_of (cp_server_messages c) k of None \<Rightarrow> Inl (KeyError k) | Some v \<Rightarrow> Inr (JInt v))"
  by (simp add: server_message_def result_json_def ints_json_def getitem_def map_of_ints split: option.splits)

lemma fixed_of_result:
  assumes "fixed_of (result_json r) = Inr x"
  obtains c v w where "rs_outcome r = Captured c" "map_of (cp_server_messages c) ''Certificate'' = Some v"
    "map_of (cp_server_messages c) ''CertificateVerify'' = Some w" "x = cp_flight c - v - w"
proof (cases "rs_outcome r")
  case (Failed e)
  then show thesis using assms by (simp add: fixed_of_def result_json_def int_field_def getitem_def)
next
  case (Captured c)
  have "int_field (result_json r) ''server_flight_handshake_bytes'' = Inr (cp_flight c)"
    by (simp add: result_json_def Captured int_field_def getitem_def)
  then show thesis using assms that[OF Captured]
    by (auto simp: fixed_of_def server_message_result[OF Captured] rbind_Inr_iff split: option.splits)
qed

lemma value_sum_entry:
  "distinct (map fst d) \<Longrightarrow> map_of d k = Some v \<Longrightarrow> P k \<Longrightarrow>
     value_sum P d = v + value_sum (\<lambda>x. P x \<and> x \<noteq> k) d"
proof (induction d)
  case (Cons kv d)
  show ?case
  proof (cases "fst kv = k")
    case True
    then have "k \<notin> set (map fst d)" using Cons.prems(1) by simp
    then have "filter (\<lambda>x. P (fst x)) d = filter (\<lambda>x. P (fst x) \<and> fst x \<noteq> k) d" by (intro filter_cong) auto
    then show ?thesis using True Cons.prems by (cases kv) (simp add: value_sum_def)
  next
    case False
    then show ?thesis using Cons by (cases kv) (auto simp: value_sum_def)
  qed
qed simp

text \<open>What the calculator publishes of a capture, and the part of the flight that is neither.\<close>

definition measured_json :: "capture \<Rightarrow> json" where
  "measured_json c = JObj [(''certificate'', JInt (get_default (cp_server_messages c) ''Certificate'' 0)),
     (''certificateVerify'', JInt (get_default (cp_server_messages c) ''CertificateVerify'' 0)),
     (''flight'', JInt (cp_flight c)), (''largestRecord'', JInt (cp_largest c))]"

definition rest_bytes :: "capture \<Rightarrow> int" where
  "rest_bytes c = value_sum (\<lambda>k. k \<notin> {''NewSessionTicket'', ''Certificate'', ''CertificateVerify''}) (cp_server_messages c)"

lemma measured_chain_result:
  assumes "rs_outcome r = Captured c" and "map_of (cp_server_messages c) ''Certificate'' = Some v"
    and "map_of (cp_server_messages c) ''CertificateVerify'' = Some w"
  shows "measured_chain (result_json r) = Inr (rs_chain r, measured_json c)"
  by (simp add: measured_chain_def server_message_result[OF assms(1)] assms(2,3) measured_json_def get_default_def)
    (simp add: result_json_def assms(1) str_field_def getitem_def)

lemma rest_bytes_flight:
  assumes "result_ok r" and "rs_outcome r = Captured c" and "map_of (cp_server_messages c) ''Certificate'' = Some v"
    and "map_of (cp_server_messages c) ''CertificateVerify'' = Some w"
  shows "cp_flight c - v - w = rest_bytes c"
proof -
  have d: "distinct (map fst (cp_server_messages c))" "cp_flight c = value_sum (\<lambda>k. k \<noteq> ''NewSessionTicket'') (cp_server_messages c)"
    using assms(1,2) by (simp_all add: result_ok_def flight_value_sum)
  have "value_sum (\<lambda>k. k \<noteq> ''NewSessionTicket'') (cp_server_messages c)
      = v + value_sum (\<lambda>k. k \<noteq> ''NewSessionTicket'' \<and> k \<noteq> ''Certificate'') (cp_server_messages c)"
    by (rule value_sum_entry[OF d(1) assms(3)]) simp
  moreover have "value_sum (\<lambda>k. k \<noteq> ''NewSessionTicket'' \<and> k \<noteq> ''Certificate'') (cp_server_messages c)
      = w + value_sum (\<lambda>k. (k \<noteq> ''NewSessionTicket'' \<and> k \<noteq> ''Certificate'') \<and> k \<noteq> ''CertificateVerify'') (cp_server_messages c)"
    by (rule value_sum_entry[OF d(1) assms(4)]) simp
  ultimately show ?thesis using d(2) by (simp add: rest_bytes_def conj_assoc)
qed

lemma build_model_results:
  assumes m: "build_model sizes (map result_json rs) results = Inr m"
    and d: "distinct (map rs_chain (plain_results rs))" and ok: "\<And>r. r \<in> set rs \<Longrightarrow> result_ok r"
    and r: "r \<in> set (plain_results rs)"
  shows "\<exists>c. rs_outcome r = Captured c \<and> mp_fixed m = rest_bytes c
    \<and> map_of (mp_measured m) (rs_chain r) = Some (measured_json c)"
proof -
  let ?tmap = "map (\<lambda>q. (rs_chain q, result_json q)) (plain_results rs)"
  obtain ms where t: "fixed_overhead ?tmap = Inr (mp_fixed m)" "traverse measured_chain (map snd ?tmap) = Inr ms"
      "mp_measured m = dict_of ms"
    using m transport_map_results[OF d] by (elim build_model_run) auto
  have fixed: "fixed_of (result_json q) = Inr (mp_fixed m)" if "q \<in> set (plain_results rs)" for q
    by (rule fixed_entry[OF t(1)]) (use that in auto)
  obtain c v w where c: "rs_outcome r = Captured c" "map_of (cp_server_messages c) ''Certificate'' = Some v"
      "map_of (cp_server_messages c) ''CertificateVerify'' = Some w" "mp_fixed m = cp_flight c - v - w"
    using fixed[OF r] by (rule fixed_of_result)
  have names: "list_all2 (\<lambda>q e. \<exists>c. rs_outcome q = Captured c \<and> e = (rs_chain q, measured_json c)) (plain_results rs) ms"
  proof -
    have e: "\<exists>c. rs_outcome q = Captured c \<and> e = (rs_chain q, measured_json c)"
      if "q \<in> set (plain_results rs)" "measured_chain (result_json q) = Inr e" for q e
      using fixed[OF that(1)] that(2) measured_chain_result by (elim fixed_of_result) auto
    have "list_all2 (\<lambda>q e. measured_chain (result_json q) = Inr e) (plain_results rs) ms"
      using t(2) by (simp add: traverse_list_all2 list_all2_map1)
    then show ?thesis using e by (auto simp: list_all2_conv_all_nth)
  qed
  then have keys: "map fst ms = map rs_chain (plain_results rs)"
    by (induction rule: list_all2_induct) auto
  have "(rs_chain r, measured_json c) \<in> set ms"
    using names r c(1) by (fastforce simp: list_all2_conv_all_nth in_set_conv_nth)
  then have "map_of (mp_measured m) (rs_chain r) = Some (measured_json c)"
    using d keys by (simp add: t(3) dict_of_self)
  then show ?thesis using c rest_bytes_flight[OF _ c(1-3)] ok r by (auto simp: plain_results_def)
qed

lemma calculator_main_run:
  assumes "calculator_main s = (Inr (), t)"
  obtains sizes transport results m where "load_list [''phase3'', ''transport.json''] s = (Inr transport, s)"
    "build_model sizes transport results = Inr m" "out t = out s @ [dumps_indent 0 (model_json m)]"
proof -
  have load: "load_list p u = (Inr js, v) \<Longrightarrow> v = u" for p js and u v :: "'a world_scheme"
    by (auto simp: load_list_def run_simps read_file_def split: option.splits)
  from assms obtain sizes u transport v results w m where
      "load_list [''gen'', ''sizes.json''] s = (Inr sizes, u)" "load_list [''phase3'', ''transport.json''] u = (Inr transport, v)"
      "load_list [''results'', ''results.json''] v = (Inr results, w)" "build_model sizes transport results = Inr m"
      "print (dumps_indent 0 (model_json m)) w = (Inr (), t)"
    unfolding calculator_main_def by (auto simp only: run_simps)
  moreover from this have "u = s" "v = s" "w = s" using load by blast+
  ultimately show thesis using that by (auto simp: print_def)
qed

text \<open>
  C9: the calculator tells what was captured, and of every chain.  When the calculator
  builds its data after a run of \<open>transport.py\<close>, no uncompressed capture of the run had
  failed (one failure stops it, while \<open>report.py\<close> leaves the row out), the printed model
  gives the figures of each such capture under its chain, and the published fixed part is
  for each of them the sum of the server's messages that are neither Certificate,
  CertificateVerify nor session tickets.
\<close>

theorem calculator_reads_captures:
  assumes "transport_main env repo s = (Inr (), t)" and "calculator_main t = (Inr (), u)"
  shows "\<exists>rss v m. emap (run_chain env repo) transport_chains s = (Inr rss, v)
    \<and> out u = out t @ [dumps_indent 0 (model_json m)]
    \<and> (\<forall>r\<in>set (plain_results (concat rss)). \<exists>c. rs_outcome r = Captured c \<and> mp_fixed m = rest_bytes c
         \<and> map_of (mp_measured m) (rs_chain r) = Some (measured_json c))"
proof -
  obtain rss v doc where v: "emap (run_chain env repo) transport_chains s = (Inr rss, v)"
      "files t [''phase3'', ''transport.json''] = Some doc"
      "loads (universal_newlines doc) = Inr (JList (map result_json (concat rss)))"
    using transport_main_reread[OF assms(1)] by blast
  obtain sizes transport results m where m: "load_list [''phase3'', ''transport.json''] t = (Inr transport, t)"
      "build_model sizes transport results = Inr m" "out u = out t @ [dumps_indent 0 (model_json m)]"
    using assms(2) by (rule calculator_main_run)
  have "transport = map result_json (concat rss)"
    using m(1) v(2,3) by (simp add: load_list_def ebind_def read_file_def lift_def)
  then have b: "build_model sizes (map result_json (concat rss)) results = Inr m" using m(2) by simp
  have "list_all2 both_modes transport_chains rss"
    using transport_main_trace[OF assms(1)] v(1) by (metis prod.inject sum.inject(2))
  then have d: "distinct (map rs_chain (plain_results (concat rss)))"
    using plain_results_distinct by (simp add: transport_chains_def)
  have "\<forall>rs\<in>set rss. \<forall>r\<in>set rs. result_ok r"
    by (rule emap_run_all[OF v(1)]) (use run_chain_ok in blast)
  then have "\<And>r. r \<in> set (concat rss) \<Longrightarrow> result_ok r" by auto
  from build_model_results[OF b d this] show ?thesis using v(1) m(3) by blast
qed

text \<open>The figures of four chains, with measured sizes and no cells.\<close>

definition json_text :: "json list \<Rightarrow> string" where
  "json_text js = dumps_indent 0 (JList js) @ [CHR 0x0A]"

definition calc_world :: pworld where
  "calc_world = full_world\<lparr>files := (files full_world)([''gen'', ''sizes.json''] \<mapsto> json_text sample_sizes,
     [''results'', ''results.json''] \<mapsto> json_text [])\<rparr>"

lemma load_json_text:
  "json_ok (JList js) \<Longrightarrow> files s p = Some (json_text js) \<Longrightarrow> load_list p s = (Inr js, s)"
  using read_back_indent[of "JList js"]
  by (simp add: load_list_def ebind_def read_file_def lift_def json_text_def)

definition full_results :: "result list" where
  "full_results = concat (map (\<lambda>c. map (captured full_caps c) modes) [''ecdsa'', ''mldsa44'', ''mldsa65'', ''mldsa87''])"

lemma full_plain: "plain_results full_results = map (\<lambda>c. captured full_caps c ''no-compression'')
    [''ecdsa'', ''mldsa44'', ''mldsa65'', ''mldsa87'']"
  by (simp add: full_results_def plain_results_def captured_def)

definition full_tmap :: "(string, json) dict" where
  "full_tmap = map (\<lambda>q. (rs_chain q, result_json q)) (map (\<lambda>c. captured full_caps c ''no-compression'')
    [''ecdsa'', ''mldsa44'', ''mldsa65'', ''mldsa87''])"

lemma full_parts: "\<not> isl (algs sample_sizes full_tmap)" "check_framing full_tmap = Inr ()"
    "fixed_overhead full_tmap = Inr 1256" "\<not> isl (traverse measured_chain (map snd full_tmap))"
  by code_simp+

lemma full_model: "\<exists>m. build_model sample_sizes (map result_json full_results) [] = Inr m"
proof -
  have "transport_map (map result_json full_results) = Inr full_tmap"
    using transport_map_results[of full_results] by (simp add: full_plain full_tmap_def captured_def)
  moreover obtain a i ms where "algs sample_sizes full_tmap = Inr a" "structural sample_sizes ''int'' = Inr i"
      "traverse measured_chain (map snd full_tmap) = Inr ms"
    using full_parts(1,4) sample_parts(3) sum.collapse(2) by metis
  ultimately show ?thesis
    using full_parts(2,3) sample_parts(4) sample_structural
    by (simp add: build_model_def per_san_def true_div_def compatibility_def client_versions_def sorted_set_def)
qed

theorem calculator_reads_captures_witness:
  "\<exists>t m. transport_main full_env ''/r'' calc_world = (Inr (), t) \<and> fst (calculator_main t) = Inr ()
    \<and> out (snd (calculator_main t)) = out t @ [dumps_indent 0 (model_json m)]"
proof -
  have key: "key_there calc_world c = key_there full_world c" for c
    by (simp add: key_there_def calc_world_def bundle_path_def)
  have clear: "clear_evidence calc_world"
    using full_clear by (auto simp: clear_evidence_def calc_world_def evidence_path_def ancestors_def)
  have dirs: "[''phase3''] \<in> dirs calc_world" "[''phase3'', ''transport.json''] \<notin> dirs calc_world"
    by (simp_all add: calc_world_def full_world_def)
  obtain rss v t where t: "emap (run_chain full_env ''/r'') transport_chains calc_world = (Inr rss, v)"
      "transport_main full_env ''/r'' calc_world = (Inr (), t)" "concat rss = full_results"
      "\<forall>p. \<not> prefix [''phase3''] p \<longrightarrow> files t p = files calc_world p"
    using transport_main_succeeds[of calc_world full_env "''/r''" full_caps, OF _ clear dirs] full_healthy full_keys
    by (auto simp: key full_results_def cong: filter_cong)
  obtain m where m: "build_model sample_sizes (map result_json full_results) [] = Inr m" using full_model by blast
  obtain rss' v' doc where doc: "emap (run_chain full_env ''/r'') transport_chains calc_world = (Inr rss', v')"
      "files t [''phase3'', ''transport.json''] = Some doc"
      "loads (universal_newlines doc) = Inr (JList (map result_json (concat rss')))"
    using transport_main_reread[OF t(2)] by blast
  have ok: "json_ok (JList sample_sizes)" by (simp add: sample_sizes_def size_entry_def)
  have "load_list [''gen'', ''sizes.json''] t = (Inr sample_sizes, t)"
    by (rule load_json_text[OF ok]) (simp add: t(4) calc_world_def)
  moreover have "load_list [''results'', ''results.json''] t = (Inr [], t)"
    by (rule load_json_text) (simp_all add: t(4) calc_world_def)
  moreover have "load_list [''phase3'', ''transport.json''] t = (Inr (map result_json full_results), t)"
    using doc t(1,3) by (simp add: load_list_def ebind_def read_file_def lift_def)
  ultimately have "fst (calculator_main t) = Inr ()"
    by (simp add: calculator_main_def ebind_def lift_def m print_def)
  then have "calculator_main t = (Inr (), snd (calculator_main t))" by (metis prod.collapse)
  from calculator_reads_captures[OF t(2) this] show ?thesis using t(2) \<open>fst (calculator_main t) = Inr ()\<close> by blast
qed

section \<open>From the measured certificates to the calculator\<close>

text \<open>
  C29: the calculator reads what \<open>sizes.py\<close> measured.  After a run of \<open>sizes.py\<close>, even one
  that then fails to render its table, \<open>sizes.json\<close> holds the rows of the corpus; read
  back, the structural overhead that the calculator computes for a row is the rest that
  \<open>measure\<close> reported.
\<close>

theorem calculator_reads_sizes:
  assumes "corpus_rows tool listing (files s catalyst_path \<noteq> None \<or> catalyst_path \<in> dirs s) = Inr rows"
    and "[''gen''] \<in> dirs s" and "[''gen'', ''sizes.json''] \<notin> dirs s"
  shows "\<exists>txt. files (snd (sizes_main tool listing s)) [''gen'', ''sizes.json''] = Some txt
    \<and> loads (universal_newlines txt) = Inr (JList (map row_json rows))
    \<and> map (\<lambda>r. structural_value (row_json r)) rows = map (\<lambda>r. Inr (cs_other (snd r))) rows"
proof -
  have row: "structural_value (row_json r) = Inr (cs_total (snd r) - cs_spki (snd r) - cs_signature (snd r))" for r
    by (simp add: structural_value_def row_json_def int_field_def getitem_def)
  have part: "cs_total (snd r) - cs_spki (snd r) - cs_signature (snd r) = cs_other (snd r)" if r: "r \<in> set rows" for r
  proof -
    obtain p where "measure_cert tool p = Inr (snd r)"
      using corpus_rows_measured[OF assms(1) r] by blast
    then show ?thesis using measure_cert_partition(1)[of tool p "snd r"] by simp
  qed
  have "json_ok (JList (map row_json rows))" by (auto simp: list_all_iff row_json_def)
  then have reread: "loads (universal_newlines (dumps_indent 0 (JList (map row_json rows)) @ [CHR 0x0A]))
      = Inr (JList (map row_json rows))" by (rule read_back_indent)
  have "files (snd (sizes_main tool listing s)) [''gen'', ''sizes.json'']
      = Some (dumps_indent 0 (JList (map row_json rows)) @ [CHR 0x0A])"
    using assms
    by (auto simp: sizes_main_def ebind_def eseq_def exists_file_def lift_def write_file_def print_def
        split: sum.splits)
  then show ?thesis using reread row part by (intro exI conjI) (assumption, assumption, simp)
qed

theorem calculator_reads_sizes_witness:
  "\<exists>txt. files (snd (sizes_main (sample_tool (cert_encoding [1, 2, 3, 4] [5] [7, 8])) [(''ecdsa'', [''leaf.crt''])]
       (served_world\<lparr>dirs := {[''gen'']}\<rparr>))) [''gen'', ''sizes.json''] = Some txt"
proof -
  let ?tool = "sample_tool (cert_encoding [1, 2, 3, 4] [5] [7, 8])"
  have m: "measure_cert ?tool [''gen'', ''chains'', ''ecdsa'', ''leaf.crt''] =
     Inr \<lparr>cs_file = ''gen/chains/ecdsa/leaf.crt'', cs_total = 16, cs_spki = 2, cs_signature = 2, cs_other = 12\<rparr>"
    using measure_cert_encoding[of ?tool "[''gen'', ''chains'', ''ecdsa'', ''leaf.crt'']" "[1, 2, 3, 4]" "[5]" "[7, 8]" 2]
    by (simp add: sample_encoding sample_tool_def cert_der_def spki_bytes_def path_str_def)
  have "corpus_rows ?tool [(''ecdsa'', [''leaf.crt''])] False = Inr [(''ecdsa'', \<lparr>cs_file = ''gen/chains/ecdsa/leaf.crt'',
      cs_total = 16, cs_spki = 2, cs_signature = 2, cs_other = 12\<rparr>)]"
    by (simp add: corpus_rows_def measure_dir_def crt_names_def ends_with_def m suffix_def)
  then show ?thesis
    using calculator_reads_sizes[of ?tool "[(''ecdsa'', [''leaf.crt''])]" "served_world\<lparr>dirs := {[''gen'']}\<rparr>"]
    by (fastforce simp: served_world_def catalyst_path_def)
qed


section \<open>From the bundles to the compressors\<close>

lemma pem_bundle_append: "pem_bundle xs @ pem_bundle ys = pem_bundle (xs @ ys)"
  by (simp add: pem_bundle_def text_of_def)

text \<open>
  C26: what is compressed is what is served.  When the certificates of a chain are PEM
  files, the \<open>chain.pem\<close> of the bundle that the harness assembles is read by
  \<open>compressibility.py\<close> as exactly the leaf and the intermediate, in this order, and its
  payload is their DER encodings one after the other.
\<close>

theorem bundle_payload:
  assumes "bundle_of name s = (Inr b, t)" and "name \<noteq> ''composite''"
    and "getitem chains name = Inr (src, ca)"
    and "\<And>x. bundle_dir name @ [x] \<notin> dirs s" and "src @ [''leaf.key''] \<notin> dirs s"
    and "files s (src @ [''leaf.crt'']) = Some (pem_bundle [leaf])"
    and "files s (ca @ [''int.crt'']) = Some (pem_bundle [issuer])"
  shows "\<exists>pem. files t (bundle_pem name) = Some pem \<and> cert_blocks pem = Inr [leaf, issuer]
    \<and> der_payload (abs_path repo (bundle_pem name)) pem = Inr (leaf @ issuer)"
proof -
  have "src \<noteq> []" using assms(2,3) by (auto simp: chains_def gen_dir_def p0_dir_def getitem_def split: if_splits)
  then have "b = bundle_dir name \<and> bundle_files (files s) src ca b (files t)"
    by (rule bundle_of_run[OF assms(1-5)])
  then have "files t (bundle_pem name) = Some (pem_bundle [leaf] @ pem_bundle [issuer])"
    using assms(6,7) by (auto simp: bundle_files_def bundle_pem_def bundle_dir_def)
  then have "files t (bundle_pem name) = Some (pem_bundle [leaf, issuer])"
    by (simp add: pem_bundle_append)
  then show ?thesis
    by (intro exI[of _ "pem_bundle [leaf, issuer]"])
      (simp add: cert_blocks_bundle der_payload_def Let_def pem_bundle_blocks b64decode_pem_body)
qed

definition pem_world :: pworld where
  "pem_world = sample_hworld\<lparr>files := (\<lambda>p. if p = gen_dir @ [''ecdsa'', ''leaf.crt''] then Some (pem_bundle [[1, 2, 3]])
     else if p = gen_dir @ [''ecdsa'', ''int.crt''] then Some (pem_bundle [[4, 5]])
     else if p = gen_dir @ [''ecdsa'', ''root.crt''] then Some ''root'' else None)\<rparr>"

lemma pem_world_bundle: "fst (bundle_of ''ecdsa'' pem_world) = Inr (bundle_dir ''ecdsa'')"
  by code_simp

theorem bundle_payload_witness:
  "\<exists>pem. files (snd (bundle_of ''ecdsa'' pem_world)) (bundle_pem ''ecdsa'') = Some pem
    \<and> cert_blocks pem = Inr [[1, 2, 3], [4, 5]]"
proof -
  have u: "bundle_of ''ecdsa'' pem_world = (Inr (bundle_dir ''ecdsa''), snd (bundle_of ''ecdsa'' pem_world))"
    using pem_world_bundle by (metis prod.collapse)
  have src: "getitem chains ''ecdsa'' = Inr (gen_dir @ [''ecdsa''], gen_dir @ [''ecdsa''])"
    by (simp add: getitem_def chains_def)
  show ?thesis
    using bundle_payload[OF u _ src, of "[1, 2, 3]" "[4, 5]"]
    by (auto simp: pem_world_def sample_hworld_def bundle_dir_def)
qed

end
